(* ===== verification/Prelude.thy ===== *)
theory Prelude
  imports Main "HOL-Library.Word"
begin

text \<open>
  Shared ground of the development: names for the machine integers of the Rust code, the
  shape of an I/O result, the theorem collections the components fill, and the generic list
  and word lemmas they share.  Nothing here models a line of the program; the components do.
\<close>

section \<open>Machine integers\<close>

type_synonym u8 = "8 word"
type_synonym u16 = "16 word"
type_synonym u32 = "32 word"
type_synonym u64 = "64 word"
type_synonym bytes = "u8 list"

section \<open>Results of calls into the operating system\<close>

text \<open>
  \<open>std::io::Error\<close> carries a kind the code inspects in exactly two places:
  \<open>WouldBlock\<close> in the nonblocking loops and \<open>AlreadyExists\<close> when a symlink is
  created.  Every other error is passed on unread, so one number stands for it.
\<close>

datatype io_error = WouldBlock | AlreadyExists | OtherErr nat

datatype 'a io_result = IoOk 'a | IoErr io_error

section \<open>Theorem collections\<close>

named_theorems step_simps \<open>one-step equations of the byte machines\<close>
named_theorems run_append \<open>running a machine over appended input\<close>
named_theorems wf_intros \<open>operations preserve well-formedness\<close>

section \<open>Lists\<close>

lemma concat_map_singleton: "concat (map (\<lambda>x. [f x]) xs) = map f xs"
  by (induction xs) auto

lemma concat_filter_nonempty: "concat (filter (\<lambda>x. x \<noteq> []) xs) = concat xs"
  by (induction xs) auto

lemma take_drop_append: "take n xs @ drop n xs @ ys = xs @ ys"
  by (simp flip: append_assoc)

lemma sorted_wrt_append_last:
  assumes "sorted_wrt (\<le>) xs" and "\<And>x. x \<in> set xs \<Longrightarrow> x \<le> (y :: 'a :: order)"
  shows "sorted_wrt (\<le>) (xs @ [y])"
  using assms by (auto simp: sorted_wrt_append)

lemma apsnd_append [simp]:
  "apsnd ((@) []) p = p" "apsnd ((@) xs) (apsnd ((@) ys) p) = apsnd ((@) (xs @ ys)) p"
  by (cases p; simp)+

lemma apfst_append [simp]:
  "apfst ((@) []) p = p" "apfst ((#) x) (apfst ((@) ys) p) = apfst ((@) (x # ys)) p"
  by (cases p; simp)+

lemma map_option_apsnd_append [simp]:
  "map_option (apsnd ((@) [])) r = r"
  "map_option (apsnd ((@) xs)) (map_option (apsnd ((@) ys)) r) = map_option (apsnd ((@) (xs @ ys))) r"
  by (cases r; simp)+

section \<open>Machines that consume their input in chunks\<close>

text \<open>
  Several components of the program are fed a byte stream in pieces whose boundaries the
  kernel chooses: the telnet decoder, the line discipline of the simulated devices.  Their
  shared contract is that boundaries do not matter.  \<open>run s xs\<close> is one call; \<open>None\<close> is a
  panic, which ends the machine; \<open>nil\<close> and \<open>comb\<close> collect what the calls return.
\<close>

primrec run_chunks ::
    "('s \<Rightarrow> 'a list \<Rightarrow> ('s \<times> 'o) option) \<Rightarrow> 'o \<Rightarrow> ('o \<Rightarrow> 'o \<Rightarrow> 'o) \<Rightarrow> 's \<Rightarrow> 'a list list \<Rightarrow> ('s \<times> 'o) option" where
  "run_chunks run nil comb s [] = Some (s, nil)"
| "run_chunks run nil comb s (xs # xss) =
     (case run s xs of
        None \<Rightarrow> None
      | Some (s', out) \<Rightarrow> map_option (apsnd (comb out)) (run_chunks run nil comb s' xss))"

locale chunked =
  fixes run :: "'s \<Rightarrow> 'a list \<Rightarrow> ('s \<times> 'o) option"
    and nil :: 'o
    and comb :: "'o \<Rightarrow> 'o \<Rightarrow> 'o"
  assumes run_Nil: "run s [] = Some (s, nil)"
    and run_append_law: "run s (xs @ ys) =
      (case run s xs of None \<Rightarrow> None | Some (s', out) \<Rightarrow> map_option (apsnd (comb out)) (run s' ys))"
begin

lemma chunks_concat: "run_chunks run nil comb s xss = run s (concat xss)"
  by (induction xss arbitrary: s) (simp_all add: run_Nil run_append_law split: option.split)

lemma boundaries_irrelevant:
  "concat xss = concat yss \<Longrightarrow> run_chunks run nil comb s xss = run_chunks run nil comb s yss"
  by (simp add: chunks_concat)

end

section \<open>Words\<close>

lemma word_xor_self_cancel:
  fixes a b :: "'a :: len word"
  shows "xor (xor a b) b = a"
  by (simp add: ac_simps)

lemma xor_eq_left_iff:
  fixes a b c :: "'a :: len word"
  shows "xor a b = xor a c \<longleftrightarrow> b = c"
  by (metis xor.assoc xor_self_eq xor.left_neutral)

end
