(* ===== verification/Text.thy ===== *)
theory Text
  imports Prelude
begin

text \<open>
  Rust's text: a \<open>char\<close> is a Unicode scalar value, a \<open>String\<close> a sequence of them, and its
  bytes are their UTF-8 encoding.  The program moves between the two at
  \<open>String::from_utf8_lossy\<close>, \<open>into_bytes\<close>, \<open>len\<close> and slicing, so both views are kept:
  \<open>rstring\<close> is the list of code points, \<open>utf8\<close> its bytes.  The functions here are those of
  Rust's standard library the sources call: lossy decoding with one U+FFFD per maximal
  ill-formed prefix, \<open>trim\<close>, \<open>join\<close>, prefix and suffix stripping, \<open>rsplit_once\<close>, decimal
  printing and integer parsing.
\<close>

section \<open>Code points\<close>

type_synonym rchar = nat
type_synonym rstring = "rchar list"

definition chars :: "string \<Rightarrow> rstring" where
  "chars s = map of_char s"

lemma chars_simps [simp]:
  "chars [] = []"
  "chars (c # s) = of_char c # chars s"
  "chars (s @ s') = chars s @ chars s'"
  by (simp_all add: chars_def)

definition is_scalar :: "rchar \<Rightarrow> bool" where
  "is_scalar c \<longleftrightarrow> c < 0xD800 \<or> (0xE000 \<le> c \<and> c < 0x110000)"

definition valid_string :: "rstring \<Rightarrow> bool" where
  "valid_string s \<longleftrightarrow> list_all is_scalar s"

definition is_ascii_alphanumeric :: "rchar \<Rightarrow> bool" where
  "is_ascii_alphanumeric c \<longleftrightarrow>
     (48 \<le> c \<and> c \<le> 57) \<or> (65 \<le> c \<and> c \<le> 90) \<or> (97 \<le> c \<and> c \<le> 122)"

definition is_ascii_digit :: "rchar \<Rightarrow> bool" where
  "is_ascii_digit c \<longleftrightarrow> 48 \<le> c \<and> c \<le> 57"

text \<open>\<open>char::is_whitespace\<close>: the Unicode property \<open>White_Space\<close>.\<close>

definition is_whitespace :: "rchar \<Rightarrow> bool" where
  "is_whitespace c \<longleftrightarrow>
     (9 \<le> c \<and> c \<le> 13) \<or> c = 0x20 \<or> c = 0x85 \<or> c = 0xA0 \<or> c = 0x1680 \<or>
     (0x2000 \<le> c \<and> c \<le> 0x200A) \<or> c = 0x2028 \<or> c = 0x2029 \<or> c = 0x202F \<or>
     c = 0x205F \<or> c = 0x3000"

definition to_ascii_lower :: "rchar \<Rightarrow> rchar" where
  "to_ascii_lower c = (if 65 \<le> c \<and> c \<le> 90 then c + 32 else c)"

definition eq_ignore_ascii_case :: "rstring \<Rightarrow> rstring \<Rightarrow> bool" where
  "eq_ignore_ascii_case s t \<longleftrightarrow> map to_ascii_lower s = map to_ascii_lower t"

definition trim_start :: "rstring \<Rightarrow> rstring" where
  "trim_start s = dropWhile is_whitespace s"

definition trim_end :: "rstring \<Rightarrow> rstring" where
  "trim_end s = rev (dropWhile is_whitespace (rev s))"

definition trim :: "rstring \<Rightarrow> rstring" where
  "trim s = trim_end (trim_start s)"

lemma dropWhile_eq_Nil_list_all: "dropWhile P xs = [] \<longleftrightarrow> list_all P xs"
  by (induction xs) auto

lemma trim_eq_Nil_iff: "trim s = [] \<longleftrightarrow> list_all is_whitespace s"
proof -
  have "trim s = [] \<longleftrightarrow> list_all is_whitespace (dropWhile is_whitespace s)"
    by (simp add: trim_def trim_end_def trim_start_def dropWhile_eq_Nil_list_all list_all_iff)
  also have "\<dots> \<longleftrightarrow> list_all is_whitespace s"
    by (induction s) auto
  finally show ?thesis .
qed

section \<open>Joining, stripping and splitting\<close>

fun join :: "'a list \<Rightarrow> 'a list list \<Rightarrow> 'a list" where
  "join sep [] = []"
| "join sep [w] = w"
| "join sep (w # v # ws) = w @ sep @ join sep (v # ws)"

lemma join_Cons: "ws \<noteq> [] \<Longrightarrow> join sep (w # ws) = w @ sep @ join sep ws"
  by (cases ws) auto

fun strip_prefix :: "'a list \<Rightarrow> 'a list \<Rightarrow> 'a list option" where
  "strip_prefix [] s = Some s"
| "strip_prefix (p # ps) [] = None"
| "strip_prefix (p # ps) (c # cs) = (if p = c then strip_prefix ps cs else None)"

definition strip_suffix :: "'a list \<Rightarrow> 'a list \<Rightarrow> 'a list option" where
  "strip_suffix p s = map_option rev (strip_prefix (rev p) (rev s))"

lemma strip_prefix_Some_iff: "strip_prefix p s = Some r \<longleftrightarrow> s = p @ r"
  by (induction p s rule: strip_prefix.induct) auto

lemma strip_prefix_None_iff: "strip_prefix p s = None \<longleftrightarrow> (\<forall>r. s \<noteq> p @ r)"
  by (metis not_None_eq strip_prefix_Some_iff)

lemma strip_suffix_Some_iff: "strip_suffix p s = Some r \<longleftrightarrow> s = r @ p"
proof -
  have "strip_suffix p s = Some r \<longleftrightarrow> strip_prefix (rev p) (rev s) = Some (rev r)"
    by (auto simp: strip_suffix_def)
  also have "\<dots> \<longleftrightarrow> s = r @ p"
    by (metis rev_append rev_rev_ident strip_prefix_Some_iff)
  finally show ?thesis .
qed

text \<open>\<open>str::rsplit_once\<close> with a one-character separator: split at its last occurrence.\<close>

definition rsplit_once :: "'a \<Rightarrow> 'a list \<Rightarrow> ('a list \<times> 'a list) option" where
  "rsplit_once sep s =
     (case dropWhile (\<lambda>c. c \<noteq> sep) (rev s) of
        [] \<Rightarrow> None
      | _ # before \<Rightarrow> Some (rev before, rev (takeWhile (\<lambda>c. c \<noteq> sep) (rev s))))"

lemma rsplit_once_Some_iff:
  "rsplit_once sep s = Some (a, b) \<longleftrightarrow> s = a @ sep # b \<and> sep \<notin> set b"
proof
  assume l: "rsplit_once sep s = Some (a, b)"
  let ?d = "dropWhile (\<lambda>c. c \<noteq> sep) (rev s)" and ?t = "takeWhile (\<lambda>c. c \<noteq> sep) (rev s)"
  from l obtain y before where d: "?d = y # before" and a: "a = rev before" and b: "b = rev ?t"
    by (auto simp: rsplit_once_def split: list.splits)
  have y: "y = sep"
    using hd_dropWhile [of "\<lambda>c. c \<noteq> sep" "rev s"] d by (metis list.distinct(1) list.sel(1))
  have "rev s = ?t @ ?d" by simp
  then have "s = rev ?d @ rev ?t"
    by (metis rev_append rev_rev_ident)
  with a b d y have "s = a @ sep # b" by simp
  moreover have "sep \<notin> set b"
    using b set_takeWhileD by fastforce
  ultimately show "s = a @ sep # b \<and> sep \<notin> set b" by simp
next
  assume r: "s = a @ sep # b \<and> sep \<notin> set b"
  then have "rev s = rev b @ sep # rev a" and "\<forall>c \<in> set (rev b). c \<noteq> sep" by auto
  then have "dropWhile (\<lambda>c. c \<noteq> sep) (rev s) = sep # rev a"
    and "takeWhile (\<lambda>c. c \<noteq> sep) (rev s) = rev b"
    by (simp_all add: dropWhile_append3 takeWhile_append)
  then show "rsplit_once sep s = Some (a, b)"
    by (simp add: rsplit_once_def)
qed

lemma rsplit_once_None_iff: "rsplit_once sep s = None \<longleftrightarrow> sep \<notin> set s"
proof (cases "dropWhile (\<lambda>c. c \<noteq> sep) (rev s)")
  case Nil
  then have "list_all (\<lambda>c. c \<noteq> sep) (rev s)"
    using dropWhile_eq_Nil_list_all by blast
  then have "sep \<notin> set s" by (auto simp: list_all_iff)
  then show ?thesis unfolding rsplit_once_def Nil by simp
next
  case (Cons c cs)
  then have "\<not> list_all (\<lambda>c. c \<noteq> sep) (rev s)"
    by (metis dropWhile_eq_Nil_list_all list.distinct(1))
  with Cons show ?thesis
    by (auto simp: rsplit_once_def list_all_iff)
qed

section \<open>Decimal numbers\<close>

fun decimal :: "nat \<Rightarrow> string" where
  "decimal n = (if n < 10 then [char_of (48 + n)] else decimal (n div 10) @ [char_of (48 + n mod 10)])"

declare decimal.simps [simp del]

definition decimal_int :: "int \<Rightarrow> string" where
  "decimal_int i = (if i < 0 then ''-'' @ decimal (nat (- i)) else decimal (nat i))"

text \<open>The value of a string of ASCII digits, \<open>None\<close> on the first character that is none.\<close>

fun digits_value :: "nat \<Rightarrow> rstring \<Rightarrow> nat option" where
  "digits_value acc [] = Some acc"
| "digits_value acc (c # cs) =
     (if is_ascii_digit c then digits_value (10 * acc + (c - 48)) cs else None)"

text \<open>
  \<open>str::parse\<close> for an unsigned type with the given maximum: one optional \<open>+\<close>, then at least
  one digit; overflow is an error.  For a signed type a leading \<open>-\<close> is accepted too.
\<close>

definition parse_unsigned :: "nat \<Rightarrow> rstring \<Rightarrow> nat option" where
  "parse_unsigned mx s =
     (let ds = (case s of c # cs \<Rightarrow> if c = 43 then cs else s | [] \<Rightarrow> s)
      in if ds = [] then None
         else (case digits_value 0 ds of
                 None \<Rightarrow> None
               | Some n \<Rightarrow> if n \<le> mx then Some n else None))"

definition parse_i32 :: "rstring \<Rightarrow> int option" where
  "parse_i32 s =
     (case s of
        [] \<Rightarrow> None
      | c # cs \<Rightarrow>
          if c = 45 then
            (if cs = [] then None
             else (case digits_value 0 cs of
                     None \<Rightarrow> None
                   | Some n \<Rightarrow> if n \<le> 2 ^ 31 then Some (- int n) else None))
          else map_option int (parse_unsigned (2 ^ 31 - 1) s))"

lemma digits_value_append:
  "digits_value acc (xs @ ys) = (case digits_value acc xs of None \<Rightarrow> None | Some n \<Rightarrow> digits_value n ys)"
  by (induction acc xs rule: digits_value.induct) auto

lemma char_of_digit:
  "char_of (48 :: nat) = CHR ''0''" "char_of (49 :: nat) = CHR ''1''" "char_of (50 :: nat) = CHR ''2''"
  "char_of (51 :: nat) = CHR ''3''" "char_of (52 :: nat) = CHR ''4''" "char_of (53 :: nat) = CHR ''5''"
  "char_of (54 :: nat) = CHR ''6''" "char_of (55 :: nat) = CHR ''7''" "char_of (56 :: nat) = CHR ''8''"
  "char_of (57 :: nat) = CHR ''9''"
  by (simp_all add: char_of_def bit_Suc_0_iff)

lemma of_char_digit: "n < 10 \<Longrightarrow> of_char (char_of (48 + n)) = (48 + n :: nat)"
  by simp

lemma digits_value_decimal: "digits_value 0 (chars (decimal n)) = Some n"
proof (induction n rule: decimal.induct)
  case (1 n)
  show ?case
  proof (cases "n < 10")
    case True
    then show ?thesis
      by (simp add: decimal.simps [of n] of_char_digit is_ascii_digit_def)
  next
    case False
    have m: "n mod 10 < 10" by simp
    from False "1" have "digits_value 0 (chars (decimal (n div 10))) = Some (n div 10)" by simp
    with False show ?thesis
      by (simp add: decimal.simps [of n] digits_value_append of_char_digit [OF m] is_ascii_digit_def)
  qed
qed

lemma decimal_not_Nil [simp]: "decimal n \<noteq> []"
  by (subst decimal.simps) simp

lemma decimal_digits: "c \<in> set (chars (decimal n)) \<Longrightarrow> is_ascii_digit c"
proof (induction n rule: decimal.induct)
  case (1 n)
  show ?case
  proof (cases "n < 10")
    case True
    with "1.prems" show ?thesis
      by (simp add: decimal.simps [of n] of_char_digit is_ascii_digit_def)
  next
    case False
    have m: "n mod 10 < 10" by simp
    from False "1" show ?thesis
      by (auto simp: decimal.simps [of n] of_char_digit [OF m] is_ascii_digit_def)
  qed
qed

lemma chars_decimal_not_Nil [simp]: "chars (decimal n) \<noteq> []"
  by (simp add: chars_def)

lemma hd_decimal_digit: "chars (decimal n) = c # cs \<Longrightarrow> is_ascii_digit c"
  using decimal_digits [of c n] by simp

lemma parse_unsigned_decimal: "parse_unsigned mx (chars (decimal n)) = (if n \<le> mx then Some n else None)"
proof -
  obtain c cs where d: "chars (decimal n) = c # cs"
    by (metis chars_decimal_not_Nil neq_Nil_conv)
  with hd_decimal_digit [OF d] have "c \<noteq> 43" by (auto simp: is_ascii_digit_def)
  with d show ?thesis
    using digits_value_decimal [of n] by (simp add: parse_unsigned_def)
qed

lemma parse_i32_decimal: "n < 2 ^ 31 \<Longrightarrow> parse_i32 (chars (decimal n)) = Some (int n)"
proof -
  assume n: "n < 2 ^ 31"
  obtain c cs where d: "chars (decimal n) = c # cs"
    by (metis chars_decimal_not_Nil neq_Nil_conv)
  with hd_decimal_digit [OF d] have "c \<noteq> 45" by (auto simp: is_ascii_digit_def)
  with d n show ?thesis
    using parse_unsigned_decimal [of "2 ^ 31 - 1" n] by (simp add: parse_i32_def)
qed

lemma parse_unsigned_le: "parse_unsigned mx s = Some n \<Longrightarrow> n \<le> mx"
  by (auto simp: parse_unsigned_def Let_def split: if_splits option.splits)

section \<open>Printing a string with its quotes\<close>

text \<open>
  Rust's \<open>{:?}\<close> of a string, as error messages use it.  Characters above 0x7F are printed as they
  are, which is exact for those Unicode calls printable.
\<close>

fun hexadecimal :: "nat \<Rightarrow> rstring" where
  "hexadecimal n =
     (let d = n mod 16; c = (if d < 10 then 48 + d else 87 + d)
      in if n < 16 then [c] else hexadecimal (n div 16) @ [c])"

declare hexadecimal.simps [simp del]

definition debug_char :: "rchar \<Rightarrow> rstring" where
  "debug_char c =
     (if c = 34 \<or> c = 92 then [92, c]
      else if c = 0 then [92, 48]
      else if c = 9 then [92, 116]
      else if c = 10 then [92, 110]
      else if c = 13 then [92, 114]
      else if c < 32 \<or> c = 127 then [92, 117, 123] @ hexadecimal c @ [125]
      else [c])"

definition debug_str :: "rstring \<Rightarrow> rstring" where
  "debug_str s = [34] @ concat (map debug_char s) @ [34]"

end
