(* ===== verification/Utf8.thy ===== *)
theory Utf8
  imports Text
begin

text \<open>
  The two directions between a \<open>String\<close> and its bytes: \<open>into_bytes\<close>/\<open>len\<close>/\<open>is_char_boundary\<close>
  through the encoder \<open>utf8\<close>, and \<open>String::from_utf8_lossy\<close>, which replaces each maximal
  ill-formed prefix by one U+FFFD.  The round trip says that lossy decoding loses nothing on
  bytes that came from a string; the \<open>valid\<close> lemma that it always yields scalar values.
\<close>

section \<open>Encoding\<close>

definition utf8_char :: "rchar \<Rightarrow> nat list" where
  "utf8_char c =
     (if c < 0x80 then [c]
      else if c < 0x800 then [0xC0 + c div 64, 0x80 + c mod 64]
      else if c < 0x10000 then [0xE0 + c div 4096, 0x80 + c div 64 mod 64, 0x80 + c mod 64]
      else [0xF0 + c div 262144, 0x80 + c div 4096 mod 64, 0x80 + c div 64 mod 64, 0x80 + c mod 64])"

definition utf8 :: "rstring \<Rightarrow> bytes" where
  "utf8 s = map word_of_nat (concat (map utf8_char s))"

definition str_len :: "rstring \<Rightarrow> nat" where
  "str_len s = length (utf8 s)"

lemma utf8_simps [simp]:
  "utf8 [] = []"
  "utf8 (c # s) = map word_of_nat (utf8_char c) @ utf8 s"
  "utf8 (s @ s') = utf8 s @ utf8 s'"
  by (simp_all add: utf8_def)

lemma utf8_char_ascii [simp]: "c < 128 \<Longrightarrow> utf8_char c = [c]"
  by (simp add: utf8_char_def)

lemma utf8_char_not_Nil [simp]: "utf8_char c \<noteq> []"
  by (simp add: utf8_char_def)

lemma utf8_eq_Nil_iff [simp]: "utf8 s = [] \<longleftrightarrow> s = []"
  by (cases s) auto

text \<open>
  \<open>&s[..n]\<close> takes bytes and panics where byte \<open>n\<close> is past the end or inside a character;
  \<open>None\<close> is that panic.
\<close>

fun slice_to :: "rstring \<Rightarrow> nat \<Rightarrow> rstring option" where
  "slice_to s 0 = Some []"
| "slice_to [] (Suc n) = None"
| "slice_to (c # s) (Suc n) =
     (let w = length (utf8_char c)
      in if w \<le> Suc n then map_option ((#) c) (slice_to s (Suc n - w)) else None)"

lemma slice_to_Some_prefix: "slice_to s n = Some t \<Longrightarrow> \<exists>r. s = t @ r \<and> str_len t = n"
proof (induction s n arbitrary: t rule: slice_to.induct)
  case (3 c s n)
  then obtain u where w: "length (utf8_char c) \<le> Suc n" and
    u: "slice_to s (Suc n - length (utf8_char c)) = Some u" and t: "t = c # u"
    by (auto simp: Let_def split: if_splits)
  with "3.IH" [OF refl w u] show ?case
    by (auto simp: str_len_def)
qed (auto simp: str_len_def)

lemma slice_to_append: "slice_to (s @ r) (str_len s) = Some s"
proof (induction s)
  case Nil
  then show ?case by (simp add: str_len_def)
next
  case (Cons c s)
  obtain m where "length (utf8_char c) = Suc m"
    by (metis Suc_pred length_greater_0_conv utf8_char_not_Nil)
  with Cons show ?case
    by (simp add: str_len_def)
qed

section \<open>Lossy decoding\<close>

abbreviation REPLACEMENT :: rchar where
  "REPLACEMENT \<equiv> 0xFFFD"

definition is_cont :: "nat \<Rightarrow> bool" where
  "is_cont b \<longleftrightarrow> 0x80 \<le> b \<and> b \<le> 0xBF"

text \<open>The second byte a three- or four-byte lead admits (no overlongs, no surrogates).\<close>

definition second3 :: "nat \<Rightarrow> nat \<Rightarrow> bool" where
  "second3 b c \<longleftrightarrow>
     (if b = 0xE0 then 0xA0 \<le> c \<and> c \<le> 0xBF
      else if b = 0xED then 0x80 \<le> c \<and> c \<le> 0x9F
      else is_cont c)"

definition second4 :: "nat \<Rightarrow> nat \<Rightarrow> bool" where
  "second4 b c \<longleftrightarrow>
     (if b = 0xF0 then 0x90 \<le> c \<and> c \<le> 0xBF
      else if b = 0xF4 then 0x80 \<le> c \<and> c \<le> 0x8F
      else is_cont c)"

fun lossy :: "nat list \<Rightarrow> rstring" where
  "lossy [] = []"
| "lossy (b # bs) =
     (if b < 0x80 then b # lossy bs
      else if 0xC2 \<le> b \<and> b \<le> 0xDF then
        (case bs of
           c # cs \<Rightarrow> if is_cont c then ((b - 0xC0) * 64 + (c - 0x80)) # lossy cs
                    else REPLACEMENT # lossy bs
         | [] \<Rightarrow> [REPLACEMENT])
      else if 0xE0 \<le> b \<and> b \<le> 0xEF then
        (case bs of
           c # cs \<Rightarrow>
             if second3 b c then
               (case cs of
                  d # ds \<Rightarrow>
                    if is_cont d then ((b - 0xE0) * 4096 + (c - 0x80) * 64 + (d - 0x80)) # lossy ds
                    else REPLACEMENT # lossy cs
                | [] \<Rightarrow> [REPLACEMENT])
             else REPLACEMENT # lossy bs
         | [] \<Rightarrow> [REPLACEMENT])
      else if 0xF0 \<le> b \<and> b \<le> 0xF4 then
        (case bs of
           c # cs \<Rightarrow>
             if second4 b c then
               (case cs of
                  d # ds \<Rightarrow>
                    if is_cont d then
                      (case ds of
                         e # es \<Rightarrow>
                           if is_cont e then
                             ((b - 0xF0) * 262144 + (c - 0x80) * 4096 + (d - 0x80) * 64 + (e - 0x80))
                               # lossy es
                           else REPLACEMENT # lossy ds
                       | [] \<Rightarrow> [REPLACEMENT])
                    else REPLACEMENT # lossy cs
                | [] \<Rightarrow> [REPLACEMENT])
             else REPLACEMENT # lossy bs
         | [] \<Rightarrow> [REPLACEMENT])
      else REPLACEMENT # lossy bs)"

definition from_utf8_lossy :: "bytes \<Rightarrow> rstring" where
  "from_utf8_lossy bs = lossy (map unat bs)"

lemma lossy_ascii [simp]: "b < 128 \<Longrightarrow> lossy (b # bs) = b # lossy bs"
  by simp

declare lossy.simps(2) [simp del]

lemma is_cont_low [simp]: "is_cont (0x80 + c mod 64)"
proof -
  have "c mod 64 < 64" by simp
  then show ?thesis unfolding is_cont_def by linarith
qed

lemmas div_bounds = div_less_iff_less_mult less_eq_div_iff_mult_less_eq

lemma split64: "(c :: nat) div 64 * 64 + c mod 64 = c"
  by (rule div_mult_mod_eq)

lemma split4096: "(c :: nat) div 4096 * 4096 + (c div 64 mod 64 * 64 + c mod 64) = c"
proof -
  have "c div 4096 = c div 64 div 64" by (simp add: div_mult2_eq [symmetric])
  then show ?thesis
    using split64 [of "c div 64"] split64 [of c] by linarith
qed

lemma split262144:
  "(c :: nat) div 262144 * 262144 + (c div 4096 mod 64 * 4096 + (c div 64 mod 64 * 64 + c mod 64)) = c"
proof -
  have "c div 262144 = c div 4096 div 64" by (simp add: div_mult2_eq [symmetric])
  then show ?thesis
    using split64 [of "c div 4096"] split4096 [of c] by linarith
qed

lemma lossy_char2:
  assumes "0x80 \<le> c" "c < 0x800"
  shows "lossy (utf8_char c @ bs) = c # lossy bs"
proof -
  define q where "q = c div 64"
  have "2 \<le> q" "q < 32" using assms by (simp_all add: div_bounds q_def)
  then show ?thesis
    using assms split64 [of c] by (simp add: utf8_char_def lossy.simps(2) flip: q_def)
qed

lemma second3_utf8:
  assumes "0x800 \<le> c" "is_scalar c"
  shows "second3 (0xE0 + c div 4096) (0x80 + c div 64 mod 64)"
proof -
  have d: "c div 4096 = c div 64 div 64" by (simp add: div_mult2_eq [symmetric])
  have s: "c div 64 div 64 * 64 + c div 64 mod 64 = c div 64" by (rule split64)
  have "32 \<le> c div 64" using assms(1) by (simp add: div_bounds)
  then have low: "c div 4096 = 0 \<Longrightarrow> 32 \<le> c div 64 mod 64" using s d by linarith
  have high: "c div 64 mod 64 < 32" if h: "c div 4096 = 13"
  proof -
    from h have "c < 0xE000" using div_bounds(1) [of 4096 c 14] by simp
    with assms(2) have "c div 64 < 864" by (simp add: is_scalar_def div_bounds)
    with s d h show ?thesis by linarith
  qed
  show ?thesis using low high is_cont_low [of "c div 64"]
    by (auto simp: second3_def is_cont_def)
qed

lemma lossy_char3:
  assumes "0x800 \<le> c" "c < 0x10000" "is_scalar c"
  shows "lossy (utf8_char c @ bs) = c # lossy bs"
proof -
  have "c div 4096 < 16" using assms(2) by (simp add: div_bounds)
  then show ?thesis
    using assms second3_utf8 [OF assms(1,3)] split4096 [of c]
    by (simp add: utf8_char_def lossy.simps(2))
qed

lemma second4_utf8:
  assumes "0x10000 \<le> c" "c < 0x110000"
  shows "second4 (0xF0 + c div 262144) (0x80 + c div 4096 mod 64)"
proof -
  have d: "c div 262144 = c div 4096 div 64" by (simp add: div_mult2_eq [symmetric])
  have s: "c div 4096 div 64 * 64 + c div 4096 mod 64 = c div 4096" by (rule split64)
  have "16 \<le> c div 4096" "c div 4096 < 272" using assms by (simp_all add: div_bounds)
  then have "c div 262144 = 0 \<Longrightarrow> 16 \<le> c div 4096 mod 64"
    and "c div 262144 = 4 \<Longrightarrow> c div 4096 mod 64 < 16" using s d by linarith+
  then show ?thesis using is_cont_low [of "c div 4096"]
    by (auto simp: second4_def is_cont_def)
qed

lemma lossy_char4:
  assumes "0x10000 \<le> c" "c < 0x110000"
  shows "lossy (utf8_char c @ bs) = c # lossy bs"
proof -
  have "c div 262144 < 5" using assms(2) by (simp add: div_bounds)
  then show ?thesis
    using assms second4_utf8 [OF assms] split262144 [of c]
    by (simp add: utf8_char_def lossy.simps(2))
qed

lemma lossy_utf8_char: "is_scalar c \<Longrightarrow> lossy (utf8_char c @ bs) = c # lossy bs"
  by (cases "c < 0x80"; cases "c < 0x800"; cases "c < 0x10000")
     (auto simp: lossy_char2 lossy_char3 lossy_char4 is_scalar_def)

lemma utf8_char_bound: "is_scalar c \<Longrightarrow> b \<in> set (utf8_char c) \<Longrightarrow> b < 256"
  by (auto simp: utf8_char_def is_scalar_def split: if_splits)

lemma lossy_concat_utf8: "valid_string s \<Longrightarrow> lossy (concat (map utf8_char s)) = s"
  by (induction s) (auto simp: valid_string_def lossy_utf8_char)

lemma unat_word_of_nat_u8: "b < 256 \<Longrightarrow> unat (word_of_nat b :: u8) = b"
  by (simp add: unat_of_nat take_bit_nat_eq_self)

lemma from_utf8_lossy_utf8:
  assumes "valid_string s"
  shows "from_utf8_lossy (utf8 s) = s"
proof -
  have "unat (word_of_nat b :: u8) = b" if "b \<in> set (concat (map utf8_char s))" for b
    using that assms utf8_char_bound
    by (fastforce simp: valid_string_def list_all_iff intro: unat_word_of_nat_u8)
  then have "map unat (utf8 s) = concat (map utf8_char s)"
    unfolding utf8_def map_map by (intro map_idI) (simp del: set_concat)
  then show ?thesis
    by (simp add: from_utf8_lossy_def lossy_concat_utf8 assms)
qed

lemma from_utf8_lossy_Nil [simp]: "from_utf8_lossy [] = []"
  by (simp add: from_utf8_lossy_def)

end
