(* ===== verification/Failure.thy ===== *)
theory Failure
  imports Text
begin

text \<open>
  Errors as values.  An \<open>anyhow::Error\<close> is a root cause under a stack of contexts; the
  program tags two of them: \<open>SetupError\<close> (\<open>src/forge/pty.rs\<close>), attached as a context, and
  \<open>ChildExit\<close> (\<open>src/forge/sim.rs\<close>), a root cause that carries the device program's status.
  An error is the list of its layers, outermost first.  \<open>main\<close> asks two questions:
  \<open>downcast_ref\<close> finds a context anywhere in the stack, while a frame of \<open>chain()\<close> can be
  downcast only at the root, where it is not anyhow's context wrapper.
\<close>

datatype layer = Msg rstring | Os io_error | SetupError | ChildExit int

type_synonym error = "layer list"

definition is_setup :: "error \<Rightarrow> bool" where
  "is_setup e \<longleftrightarrow> SetupError \<in> set e"

definition child_exit :: "error \<Rightarrow> int option" where
  "child_exit e = (case rev e of ChildExit c # _ \<Rightarrow> Some c | _ \<Rightarrow> None)"

text \<open>\<open>.context(c)\<close> and \<open>?\<close>.\<close>

definition context_err :: "layer \<Rightarrow> error + 'a \<Rightarrow> error + 'a" where
  "context_err c r = (case r of Inl e \<Rightarrow> Inl (c # e) | Inr x \<Rightarrow> Inr x)"

definition and_then :: "error + 'a \<Rightarrow> ('a \<Rightarrow> error + 'b) \<Rightarrow> error + 'b" where
  "and_then r f = (case r of Inl e \<Rightarrow> Inl e | Inr x \<Rightarrow> f x)"

lemma and_then_simps [simp]:
  "and_then (Inl e) f = Inl e" "and_then (Inr x) f = f x"
  by (simp_all add: and_then_def)

lemma context_err_simps [simp]:
  "context_err c (Inl e) = Inl (c # e)" "context_err c (Inr x) = Inr x"
  by (simp_all add: context_err_def)

lemma and_then_Inr_iff: "and_then r f = Inr y \<longleftrightarrow> (\<exists>x. r = Inr x \<and> f x = Inr y)"
  by (cases r) auto

lemma and_then_Inl_iff: "and_then r f = Inl e \<longleftrightarrow> r = Inl e \<or> (\<exists>x. r = Inr x \<and> f x = Inl e)"
  by (cases r) auto

lemma is_setup_Cons [simp]: "is_setup (l # e) \<longleftrightarrow> l = SetupError \<or> is_setup e"
  by (auto simp: is_setup_def)

lemma is_setup_Nil [simp]: "\<not> is_setup []"
  by (simp add: is_setup_def)

lemma child_exit_single [simp]: "child_exit [ChildExit c] = Some c"
  by (simp add: child_exit_def)

end
