(* ===== verification/Line_Device.thy ===== *)
theory Line_Device
  imports Utf8 Failure
begin

text \<open>
  Simulated devices as state machines (\<open>src/forge/sim.rs\<close>): the \<open>Device\<close> trait, the echo
  device, the line discipline shared by the line-oriented presets (\<open>LineDevice\<close>) and the AT
  modem.  A line handler is a record of the trait's two methods; a panic inside one is \<open>None\<close>.
  The locale \<open>device\<close> is the trait's contract: a device may be fed in pieces, and what its state
  satisfies it keeps.
\<close>

section \<open>Line handlers and the line discipline\<close>

record 'h line_handler =
  prompt :: "'h \<Rightarrow> bytes"
  on_line :: "'h \<Rightarrow> rstring \<Rightarrow> ('h \<times> bytes) option"

record 'h line_device =
  line :: bytes
  last_was_cr :: bool
  handler :: 'h

definition line_device_new :: "'h \<Rightarrow> 'h line_device" where
  "line_device_new h = \<lparr>line = [], last_was_cr = False, handler = h\<rparr>"

definition greeting :: "'h line_handler \<Rightarrow> 'h line_device \<Rightarrow> bytes" where
  "greeting ops d = prompt ops (handler d)"

definition feed_byte :: "'h line_handler \<Rightarrow> 'h line_device \<Rightarrow> u8 \<Rightarrow> ('h line_device \<times> bytes) option" where
  "feed_byte ops d b =
     (let was_cr = last_was_cr d; d = d\<lparr>last_was_cr := False\<rparr> in
      if b = 0x0A \<and> was_cr then Some (d, [])
      else if b = 0x0D \<or> b = 0x0A then
        (case on_line ops (handler d) (from_utf8_lossy (line d)) of
           None \<Rightarrow> None
         | Some (h, reply) \<Rightarrow>
             Some (\<lparr>line = [], last_was_cr = (b = 0x0D), handler = h\<rparr>, [0x0D, 0x0A] @ reply @ prompt ops h))
      else if b = 0x08 \<or> b = 0x7F then
        (if line d = [] then Some (d, []) else Some (d\<lparr>line := butlast (line d)\<rparr>, [0x08, 0x20, 0x08]))
      else if b = 0x03 then Some (d\<lparr>line := []\<rparr>, [0x5E, 0x43, 0x0D, 0x0A] @ prompt ops (handler d))
      else Some (d\<lparr>line := line d @ [b]\<rparr>, [b]))"

fun feed :: "'h line_handler \<Rightarrow> 'h line_device \<Rightarrow> bytes \<Rightarrow> ('h line_device \<times> bytes) option" where
  "feed ops d [] = Some (d, [])"
| "feed ops d (b # bs) =
     (case feed_byte ops d b of
        None \<Rightarrow> None
      | Some (d, out) \<Rightarrow> map_option (apsnd ((@) out)) (feed ops d bs))"

definition echo_feed :: "unit \<Rightarrow> bytes \<Rightarrow> (unit \<times> bytes) option" where
  "echo_feed d input = Some (d, input)"

section \<open>The contract of a device\<close>

locale device = chunked run "[] :: u8 list" "(@)" for run :: "'s \<Rightarrow> u8 list \<Rightarrow> ('s \<times> bytes) option" +
  fixes ok :: "'s \<Rightarrow> bool"
  assumes ok_run: "ok s \<Longrightarrow> run s xs = Some (s', out) \<Longrightarrow> ok s'"
begin

lemma ok_chunks: "ok s \<Longrightarrow> run_chunks run [] (@) s xss = Some (s', out) \<Longrightarrow> ok s'"
  unfolding chunks_concat by (rule ok_run)

lemma total_chunks: "(\<And>s xs. ok s \<Longrightarrow> run s xs \<noteq> None) \<Longrightarrow> ok s \<Longrightarrow> run_chunks run [] (@) s xss \<noteq> None"
  unfolding chunks_concat by blast

end

lemma feed_append [run_append]:
  "feed ops d (xs @ ys) =
     (case feed ops d xs of None \<Rightarrow> None | Some (d', out) \<Rightarrow> map_option (apsnd ((@) out)) (feed ops d' ys))"
proof (induction xs arbitrary: d)
  case (Cons b xs)
  then show ?case by (auto split: option.splits)
qed simp

text \<open>The line buffer never holds a byte that the discipline consumes.\<close>

definition special :: "u8 \<Rightarrow> bool" where
  "special b \<longleftrightarrow> b = 0x0A \<or> b = 0x0D \<or> b = 0x08 \<or> b = 0x7F \<or> b = 0x03"

definition line_ok :: "'h line_device \<Rightarrow> bool" where
  "line_ok d \<longleftrightarrow> (\<forall>b \<in> set (line d). \<not> special b) \<and> (last_was_cr d \<longrightarrow> line d = [])"

text \<open>The five things a byte can do.\<close>

lemma feed_byte_simps [step_simps]:
  "b = 0x0A \<Longrightarrow> last_was_cr d \<Longrightarrow> feed_byte ops d b = Some (d\<lparr>last_was_cr := False\<rparr>, [])"
  "b = 0x0D \<or> b = 0x0A \<and> \<not> last_was_cr d \<Longrightarrow> feed_byte ops d b =
     (case on_line ops (handler d) (from_utf8_lossy (line d)) of
        None \<Rightarrow> None
      | Some (h, reply) \<Rightarrow>
          Some (\<lparr>line = [], last_was_cr = (b = 0x0D), handler = h\<rparr>, [0x0D, 0x0A] @ reply @ prompt ops h))"
  "b = 0x08 \<or> b = 0x7F \<Longrightarrow> feed_byte ops d b =
     (if line d = [] then Some (d\<lparr>last_was_cr := False\<rparr>, [])
      else Some (d\<lparr>line := butlast (line d), last_was_cr := False\<rparr>, [0x08, 0x20, 0x08]))"
  "b = 0x03 \<Longrightarrow> feed_byte ops d b =
     Some (d\<lparr>line := [], last_was_cr := False\<rparr>, [0x5E, 0x43, 0x0D, 0x0A] @ prompt ops (handler d))"
  "\<not> special b \<Longrightarrow> feed_byte ops d b = Some (d\<lparr>line := line d @ [b], last_was_cr := False\<rparr>, [b])"
  by (auto simp: feed_byte_def Let_def special_def)

lemma byte_cases [case_names lf enter rubout interrupt plain]:
  obtains "b = 0x0A" "last_was_cr d" | "b = 0x0D \<or> b = 0x0A \<and> \<not> last_was_cr d" | "b = 0x08 \<or> b = 0x7F"
    | "b = 0x03" | "\<not> special b"
  by (auto simp: special_def)

lemma line_ok_new [wf_intros]: "line_ok (line_device_new h)"
  by (simp add: line_ok_def line_device_new_def)

lemma line_ok_feed_byte:
  assumes "line_ok d" "feed_byte ops d b = Some (d', out)"
  shows "line_ok d'"
proof (cases rule: byte_cases [of b d])
  case rubout
  have "set (butlast (line d)) \<subseteq> set (line d)" by (auto dest: in_set_butlastD)
  with rubout assms show ?thesis
    by (auto simp: step_simps line_ok_def subset_iff split: if_splits)
qed (use assms in \<open>auto simp: step_simps line_ok_def split: option.splits\<close>)

lemma line_ok_feed [wf_intros]: "line_ok d \<Longrightarrow> feed ops d xs = Some (d', out) \<Longrightarrow> line_ok d'"
proof (induction xs arbitrary: d out)
  case (Cons b xs)
  from Cons.prems(2) obtain d1 o1 o2 where s: "feed_byte ops d b = Some (d1, o1)" "feed ops d1 xs = Some (d', o2)"
    by (auto split: option.splits prod.splits)
  from Cons.IH [OF line_ok_feed_byte [OF Cons.prems(1) s(1)] s(2)] show ?case .
qed simp

interpretation line_dev: device "feed ops" line_ok
  by unfold_locales (auto simp: feed_append intro: line_ok_feed)

interpretation echo_dev: device echo_feed "\<lambda>_. True"
  by unfold_locales (simp_all add: echo_feed_def)

section \<open>What the discipline computes\<close>

text \<open>
  The specification of line editing, without echo and handler: the lines a run of keys submits,
  the line being edited at its end, and whether the last key was a CR.
\<close>

fun edit :: "bytes \<Rightarrow> bool \<Rightarrow> bytes \<Rightarrow> bytes list \<times> bytes \<times> bool" where
  "edit l cr [] = ([], l, cr)"
| "edit l cr (b # bs) =
     (if b = 0x0A \<and> cr then edit l False bs
      else if b = 0x0D \<or> b = 0x0A then apfst ((#) l) (edit [] (b = 0x0D) bs)
      else if b = 0x08 \<or> b = 0x7F then edit (butlast l) False bs
      else if b = 0x03 then edit [] False bs
      else edit (l @ [b]) False bs)"

primrec run_lines :: "'h line_handler \<Rightarrow> 'h \<Rightarrow> bytes list \<Rightarrow> 'h option" where
  "run_lines ops h [] = Some h"
| "run_lines ops h (l # ls) =
     (case on_line ops h (from_utf8_lossy l) of None \<Rightarrow> None | Some (h', _) \<Rightarrow> run_lines ops h' ls)"

lemma edit_simps:
  "b = 0x0A \<Longrightarrow> cr \<Longrightarrow> edit l cr (b # bs) = edit l False bs"
  "b = 0x0D \<or> b = 0x0A \<and> \<not> cr \<Longrightarrow> edit l cr (b # bs) = apfst ((#) l) (edit [] (b = 0x0D) bs)"
  "b = 0x08 \<or> b = 0x7F \<Longrightarrow> edit l cr (b # bs) = edit (butlast l) False bs"
  "b = 0x03 \<Longrightarrow> edit l cr (b # bs) = edit [] False bs"
  "\<not> special b \<Longrightarrow> edit l cr (b # bs) = edit (l @ [b]) False bs"
  by (auto simp: special_def)

lemma feed_Cons_fst:
  "map_option fst (feed ops d (b # bs)) =
     (case feed_byte ops d b of None \<Rightarrow> None | Some (d1, _) \<Rightarrow> map_option fst (feed ops d1 bs))"
  by (simp add: option.map_comp comp_def split: option.split)

lemma feed_edit:
  "map_option fst (feed ops d bs) =
     (case edit (line d) (last_was_cr d) bs of
        (ls, l, cr) \<Rightarrow> map_option (\<lambda>h. \<lparr>line = l, last_was_cr = cr, handler = h\<rparr>) (run_lines ops (handler d) ls))"
proof (induction bs arbitrary: d)
  case Nil
  then show ?case by simp
next
  case (Cons b bs)
  note simps = feed_Cons_fst Cons.IH step_simps edit_simps
  show ?case
  proof (cases rule: byte_cases [of b d])
    case lf
    then show ?thesis by (simp add: simps del: edit.simps feed.simps)
  next
    case enter
    then show ?thesis
      by (cases "on_line ops (handler d) (from_utf8_lossy (line d))"; cases "edit [] (b = 0x0D) bs")
         (auto simp: simps simp del: edit.simps feed.simps)
  next
    case rubout
    then show ?thesis by (simp add: simps del: edit.simps feed.simps)
  next
    case interrupt
    then show ?thesis by (simp add: simps del: edit.simps feed.simps)
  next
    case plain
    then show ?thesis by (simp add: simps del: edit.simps feed.simps)
  qed
qed

lemma edit_append:
  "edit l cr (xs @ ys) = (case edit l cr xs of (ls, l', cr') \<Rightarrow> apfst ((@) ls) (edit l' cr' ys))"
  by (induction xs arbitrary: l cr) (auto split: prod.splits)

lemma edit_plain: "\<forall>b \<in> set xs. \<not> special b \<Longrightarrow> edit l cr xs = ([], l @ xs, cr \<and> xs = [])"
  by (induction xs arbitrary: l cr) (simp_all add: edit_simps del: edit.simps(2))

lemma feed_plain:
  assumes "\<forall>b \<in> set xs. \<not> special b"
  shows "feed ops d xs = Some (d\<lparr>line := line d @ xs, last_was_cr := last_was_cr d \<and> xs = []\<rparr>, xs)"
  using assms by (induction xs arbitrary: d) (simp_all add: step_simps)

lemma feed_line:
  assumes "\<forall>b \<in> set xs. \<not> special b" "on_line ops (handler d) (from_utf8_lossy (line d @ xs)) = Some (h, reply)"
  shows "feed ops d (xs @ [0x0D]) =
    Some (\<lparr>line = [], last_was_cr = True, handler = h\<rparr>, xs @ [0x0D, 0x0A] @ reply @ prompt ops h)"
  using assms by (simp add: feed_append feed_plain step_simps)

lemma feed_byte_total: "(\<And>h l. on_line ops h l \<noteq> None) \<Longrightarrow> feed_byte ops d b \<noteq> None"
  by (cases rule: byte_cases [of b d]) (auto simp: step_simps split: option.splits)

lemma feed_total: "(\<And>h l. on_line ops h l \<noteq> None) \<Longrightarrow> feed ops d bs \<noteq> None"
proof (induction bs arbitrary: d)
  case (Cons b bs)
  from feed_byte_total [OF Cons.prems, of d b] Cons show ?case by (auto split: option.splits)
qed simp

section \<open>The AT modem\<close>

definition at_on_line :: "unit \<Rightarrow> rstring \<Rightarrow> (unit \<times> bytes) option" where
  "at_on_line h l =
     (let t = trim l in
      if t = [] then Some (h, [])
      else if str_len t \<ge> 2 then
        (case slice_to t 2 of
           None \<Rightarrow> None
         | Some two \<Rightarrow>
             if eq_ignore_ascii_case two (chars ''at'') then Some (h, utf8 (chars ''OK'' @ [13, 10]))
             else Some (h, utf8 (chars ''ERROR'' @ [13, 10])))
      else Some (h, utf8 (chars ''ERROR'' @ [13, 10])))"

definition at_handler :: "unit line_handler" where
  "at_handler = \<lparr>prompt = (\<lambda>_. []), on_line = at_on_line\<rparr>"


lemma width_pos: "0 < length (utf8_char c)"
  by (simp add: utf8_char_def)

lemma str_len_simps [simp]: "str_len [] = 0" "str_len (c # s) = length (utf8_char c) + str_len s"
  by (simp_all add: str_len_def)

lemma str_len_0_iff [simp]: "str_len s = 0 \<longleftrightarrow> s = []"
  by (cases s) (simp_all add: width_pos)

text \<open>\<open>&t[..2]\<close> of at least two bytes splits a character exactly in these two cases.\<close>

definition splits_char :: "rstring \<Rightarrow> bool" where
  "splits_char t \<longleftrightarrow>
     (case t of
        [] \<Rightarrow> False
      | c # r \<Rightarrow> length (utf8_char c) \<ge> 3 \<or>
          (length (utf8_char c) = 1 \<and> (case r of [] \<Rightarrow> False | c2 # _ \<Rightarrow> length (utf8_char c2) \<ge> 2)))"

lemma slice_to_2:
  assumes "str_len t \<ge> 2"
  shows "slice_to t 2 = None \<longleftrightarrow> splits_char t"
proof (cases t)
  case Nil
  with assms show ?thesis by simp
next
  case (Cons c r)
  show ?thesis
  proof (cases "length (utf8_char c) = 1")
    case False
    with width_pos [of c] have "length (utf8_char c) \<ge> 2" by linarith
    with Cons show ?thesis by (auto simp: splits_char_def numeral_2_eq_2 Let_def)
  next
    case True
    with Cons assms obtain c2 s where "r = c2 # s" by (cases r) auto
    moreover have "length (utf8_char c2) = 1 \<or> length (utf8_char c2) \<ge> 2"
      using width_pos [of c2] by linarith
    ultimately show ?thesis
      using Cons True by (auto simp: splits_char_def numeral_2_eq_2 Let_def)
  qed
qed

lemma at_prefix_iff:
  "eq_ignore_ascii_case w (chars ''at'') \<longleftrightarrow> (\<exists>a b. w = [a, b] \<and> a \<in> {65, 97} \<and> b \<in> {84, 116})"
proof
  show "eq_ignore_ascii_case w (chars ''at'') \<Longrightarrow> \<exists>a b. w = [a, b] \<and> a \<in> {65, 97} \<and> b \<in> {84, 116}"
    by (auto simp: eq_ignore_ascii_case_def to_ascii_lower_def map_eq_Cons_conv split: if_splits)
qed (auto simp: eq_ignore_ascii_case_def to_ascii_lower_def)

lemma at_slice:
  "slice_to t 2 = Some w \<Longrightarrow> eq_ignore_ascii_case w (chars ''at'') \<longleftrightarrow>
     (\<exists>a b r. t = a # b # r \<and> eq_ignore_ascii_case [a, b] (chars ''at''))"
proof
  assume s: "slice_to t 2 = Some w"
  show "eq_ignore_ascii_case w (chars ''at'') \<Longrightarrow>
     \<exists>a b r. t = a # b # r \<and> eq_ignore_ascii_case [a, b] (chars ''at'')"
    using slice_to_Some_prefix [OF s] by (auto simp: at_prefix_iff simp del: chars_simps)
  assume "\<exists>a b r. t = a # b # r \<and> eq_ignore_ascii_case [a, b] (chars ''at'')"
  then obtain a b r where t: "t = [a, b] @ r" and at: "eq_ignore_ascii_case [a, b] (chars ''at'')" by auto
  then have "str_len [a, b] = 2" by (auto simp: at_prefix_iff simp del: chars_simps)
  with slice_to_append [of "[a, b]" r] s t at show "eq_ignore_ascii_case w (chars ''at'')" by simp
qed

lemma at_str_len: "t = a # b # r \<Longrightarrow> str_len t \<ge> 2"
proof -
  assume "t = a # b # r"
  then have "str_len t = length (utf8_char a) + (length (utf8_char b) + str_len r)" by simp
  then show "str_len t \<ge> 2" using width_pos [of a] width_pos [of b] by linarith
qed

lemma lossy_FF: "from_utf8_lossy [0xFF] = [0xFFFD]"
  by (simp add: from_utf8_lossy_def lossy.simps)

section \<open>Properties\<close>

text \<open>
  A line device may be fed in pieces: however the reads cut the keystrokes, also between the
  CR and the LF of a line end, the device answers and ends up as if fed in one piece.
\<close>

theorem line_device_any_boundaries:
  "run_chunks (feed ops) [] (@) d reads = feed ops d (concat reads)"
  by (rule line_dev.chunks_concat)

text \<open>
  (C22) The discipline implements line editing: whatever the handler, feeding keys executes exactly
  the lines that editing submits, each once and in order, and leaves the line under edit; it
  panics exactly when the handler does on one of those lines.
\<close>

theorem feed_refines_editing:
  "map_option fst (feed ops d keys) =
     (case edit (line d) (last_was_cr d) keys of
        (ls, l, cr) \<Rightarrow> map_option (\<lambda>h. \<lparr>line = l, last_was_cr = cr, handler = h\<rparr>) (run_lines ops (handler d) ls))"
  by (rule feed_edit)

text \<open>
  CRLF counts once, and a rubbed-out key leaves no trace: a LF right after a CR prints
  nothing and submits nothing, and a key followed by backspace restores line and handler.
\<close>

theorem crlf_once_and_rubout:
  assumes "\<not> special b"
  shows "feed ops d (keys @ [0x0D, 0x0A]) =
      map_option (apfst (\<lambda>d. d\<lparr>last_was_cr := False\<rparr>)) (feed ops d (keys @ [0x0D])) \<and>
    feed ops d [b, 0x08] = Some (d\<lparr>last_was_cr := False\<rparr>, [b, 0x08, 0x20, 0x08])"
proof
  have c: "feed ops d' [0x0D, 0x0A] = map_option (apfst (\<lambda>d. d\<lparr>last_was_cr := False\<rparr>)) (feed ops d' [0x0D])" for d'
    by (cases "on_line ops (handler d') (from_utf8_lossy (line d'))") (auto simp: step_simps)
  show "feed ops d (keys @ [0x0D, 0x0A]) =
      map_option (apfst (\<lambda>d. d\<lparr>last_was_cr := False\<rparr>)) (feed ops d (keys @ [0x0D]))"
    unfolding feed_append c
    by (auto simp: option.map_comp comp_def split: option.split intro!: option.map_cong)
  show "feed ops d [b, 0x08] = Some (d\<lparr>last_was_cr := False\<rparr>, [b, 0x08, 0x20, 0x08])"
    using assms by (simp add: step_simps)
qed

theorem crlf_once_and_rubout_witness:
  "feed at_handler (line_device_new ()) [0x41, 0x08] = Some (line_device_new (), [0x41, 0x08, 0x20, 0x08])"
  using crlf_once_and_rubout [where b = "0x41" and ops = at_handler and d = "line_device_new ()" and keys = "[]"]
  by (simp add: special_def line_device_new_def)

text \<open>
  A typed line: when the text has no control keys, its bytes are echoed, the line end is
  CRLF, the handler sees exactly the text, and its reply and the prompt follow.
\<close>

theorem typed_line:
  assumes "valid_string s" and "\<forall>b \<in> set (utf8 s). \<not> special b" and "line d = []"
  shows "feed ops d (utf8 s @ [0x0D]) =
    (case on_line ops (handler d) s of
       None \<Rightarrow> None
     | Some (h, reply) \<Rightarrow>
         Some (\<lparr>line = [], last_was_cr = True, handler = h\<rparr>, utf8 s @ [0x0D, 0x0A] @ reply @ prompt ops h))"
proof -
  have "from_utf8_lossy (line d @ utf8 s) = s"
    using from_utf8_lossy_utf8 [OF assms(1)] assms(3) by simp
  then show ?thesis
    using feed_line [OF assms(2), of ops d]
    by (auto simp: feed_append feed_plain [OF assms(2)] step_simps split: option.splits)
qed

theorem typed_line_witness:
  "feed at_handler (line_device_new ()) (utf8 (chars ''AT'') @ [0x0D]) =
     Some (\<lparr>line = [], last_was_cr = True, handler = ()\<rparr>, [0x41, 0x54, 0x0D, 0x0A] @ [0x4F, 0x4B, 0x0D, 0x0A])"
proof -
  have "valid_string (chars ''AT'')" "\<forall>b \<in> set (utf8 (chars ''AT'')). \<not> special b"
    "line (line_device_new ()) = []"
    by (simp_all add: valid_string_def is_scalar_def special_def line_device_new_def)
  from typed_line [OF this, of at_handler] show ?thesis
    by (simp add: at_handler_def at_on_line_def trim_def trim_start_def trim_end_def is_whitespace_def
        line_device_new_def numeral_2_eq_2 Let_def eq_ignore_ascii_case_def to_ascii_lower_def)
qed

text \<open>
  (C36) The AT modem.  A line that does not begin with a wide character is answered: nothing to a
  blank one, OK to one that begins with \<open>at\<close> in any case, ERROR to the rest.  But where byte 2
  of the trimmed line lies inside a character the modem panics, so a single noise byte 0xFF
  followed by CR ends the simulator.
\<close>

theorem at_modem:
  "at_on_line () l =
     (if str_len (trim l) \<ge> 2 \<and> splits_char (trim l) then None
      else Some ((),
        if trim l = [] then []
        else if \<exists>a b r. trim l = a # b # r \<and> eq_ignore_ascii_case [a, b] (chars ''at'')
             then utf8 (chars ''OK'' @ [13, 10]) else utf8 (chars ''ERROR'' @ [13, 10]))) \<and>
   feed at_handler (line_device_new ()) [0xFF, 0x0D] = None"
proof (intro conjI)
  show "at_on_line () l =
     (if str_len (trim l) \<ge> 2 \<and> splits_char (trim l) then None
      else Some ((),
        if trim l = [] then []
        else if \<exists>a b r. trim l = a # b # r \<and> eq_ignore_ascii_case [a, b] (chars ''at'')
             then utf8 (chars ''OK'' @ [13, 10]) else utf8 (chars ''ERROR'' @ [13, 10])))"
    using slice_to_2 [of "trim l"] at_slice [of "trim l"] at_str_len [of "trim l"]
    by (auto simp: at_on_line_def Let_def simp del: chars_simps utf8_simps split: if_splits option.splits)
next
  have "trim [0xFFFD] = [0xFFFD]"
    by (simp add: trim_def trim_start_def trim_end_def is_whitespace_def)
  then have "at_on_line () [0xFFFD] = None"
    using slice_to_2 [of "[0xFFFD]"] by (simp add: at_on_line_def splits_char_def utf8_char_def)
  then show "feed at_handler (line_device_new ()) [0xFF, 0x0D] = None"
    by (simp add: line_device_new_def feed_byte_def Let_def at_handler_def lossy_FF)
qed

end
