(* ===== verification/Ordered_Map.thy ===== *)
theory Ordered_Map
  imports Main "HOL-Library.List_Lexorder"
begin

text \<open>
  Ordered maps (Rust's \<open>BTreeMap\<close>) as sorted association lists, and the interface through which
  the simulated consoles use one.  Strings are compared lexicographically by code point, which
  is Rust's byte order on UTF-8.
\<close>

fun bt_insert :: "'k :: linorder \<Rightarrow> 'v \<Rightarrow> ('k \<times> 'v) list \<Rightarrow> ('k \<times> 'v) list" where
  "bt_insert k v [] = [(k, v)]"
| "bt_insert k v ((j, u) # m) =
     (if k < j then (k, v) # (j, u) # m else if k = j then (k, v) # m else (j, u) # bt_insert k v m)"

definition bt_remove :: "'k \<Rightarrow> ('k \<times> 'v) list \<Rightarrow> ('k \<times> 'v) list" where
  "bt_remove k m = filter (\<lambda>(j, _). j \<noteq> k) m"

definition bt_get :: "('k \<times> 'v) list \<Rightarrow> 'k \<Rightarrow> 'v option" where
  "bt_get m k = map_of m k"

definition bt_from :: "('k :: linorder \<times> 'v) list \<Rightarrow> ('k \<times> 'v) list" where
  "bt_from kvs = fold (\<lambda>(k, v). bt_insert k v) kvs []"

definition bt_ok :: "('k :: linorder \<times> 'v) list \<Rightarrow> bool" where
  "bt_ok m \<longleftrightarrow> sorted_wrt (<) (map fst m)"

section \<open>The interface\<close>

locale ordered_map =
  fixes none :: 'm
    and put :: "'k :: linorder \<Rightarrow> 'v \<Rightarrow> 'm \<Rightarrow> 'm"
    and del :: "'k \<Rightarrow> 'm \<Rightarrow> 'm"
    and get :: "'m \<Rightarrow> 'k \<Rightarrow> 'v option"
    and listing :: "'m \<Rightarrow> ('k \<times> 'v) list"
    and ok :: "'m \<Rightarrow> bool"
  assumes ok_none: "ok none" and ok_put: "ok m \<Longrightarrow> ok (put k v m)" and ok_del: "ok m \<Longrightarrow> ok (del k m)"
    and get_none: "get none j = None"
    and get_put: "ok m \<Longrightarrow> get (put k v m) j = (if j = k then Some v else get m j)"
    and get_del: "ok m \<Longrightarrow> get (del k m) j = (if j = k then None else get m j)"
    and listing_sorted: "ok m \<Longrightarrow> sorted_wrt (<) (map fst (listing m))"
    and listing_get: "ok m \<Longrightarrow> map_of (listing m) j = get m j"
begin

lemma listing_distinct: "ok m \<Longrightarrow> distinct (map fst (listing m))"
  using listing_sorted strict_sorted_iff by blast

lemma in_listing: "ok m \<Longrightarrow> (k, v) \<in> set (listing m) \<longleftrightarrow> get m k = Some v"
  by (simp add: listing_get [symmetric] listing_distinct)

lemma listing_eqI:
  assumes "ok m" "ok n" "\<And>j. get m j = get n j"
  shows "listing m = listing n"
proof -
  have "set (listing m) = set (listing n)"
    using in_listing [OF assms(1)] in_listing [OF assms(2)] assms(3) by auto
  moreover have "inj_on fst (set (listing m) \<union> set (listing n))"
    using calculation listing_distinct [OF assms(1)] by (simp add: distinct_map)
  ultimately show ?thesis
    using assms(1,2) listing_sorted listing_distinct
    by (intro map_sorted_distinct_set_unique [where f = fst]) (auto simp: strict_sorted_iff)
qed

lemma put_put: "ok m \<Longrightarrow> listing (put k v (put k u m)) = listing (put k v m)"
  by (rule listing_eqI) (simp_all add: ok_put get_put)

lemma del_put: "ok m \<Longrightarrow> get m k = None \<Longrightarrow> listing (del k (put k v m)) = listing m"
  by (rule listing_eqI) (simp_all add: ok_put ok_del get_put get_del)

end

section \<open>Sorted association lists provide it\<close>

lemma bt_insert_keys: "fst ` set (bt_insert k v m) = insert k (fst ` set m)"
  by (induction k v m rule: bt_insert.induct) auto

lemma bt_ok_insert: "bt_ok m \<Longrightarrow> bt_ok (bt_insert k v m)"
proof (induction k v m rule: bt_insert.induct)
  case (2 k v j u m)
  have "fst ` set (bt_insert k v m) = insert k (fst ` set m)" by (rule bt_insert_keys)
  with 2 show ?case by (auto simp: bt_ok_def)
qed (simp add: bt_ok_def)

lemma bt_ok_remove: "bt_ok m \<Longrightarrow> bt_ok (bt_remove k m)"
proof (induction m)
  case (Cons p m)
  have "fst ` set (bt_remove k m) \<subseteq> fst ` set m" by (auto simp: bt_remove_def)
  with Cons show ?case by (auto simp: bt_ok_def bt_remove_def)
qed (simp add: bt_ok_def bt_remove_def)

lemma bt_get_insert: "bt_get (bt_insert k v m) j = (if j = k then Some v else bt_get m j)" if "bt_ok m"
  using that by (induction k v m rule: bt_insert.induct) (auto simp: bt_get_def bt_ok_def)

lemma bt_get_remove: "bt_get (bt_remove k m) j = (if j = k then None else bt_get m j)"
  by (induction m) (auto simp: bt_get_def bt_remove_def)

interpretation bt: ordered_map "[]" bt_insert bt_remove bt_get "\<lambda>m. m" bt_ok
  by unfold_locales
     (simp_all add: bt_ok_insert bt_ok_remove bt_get_insert bt_get_remove, simp_all add: bt_ok_def bt_get_def)

lemma bt_ok_from: "bt_ok (bt_from kvs)"
proof -
  have "bt_ok m \<Longrightarrow> bt_ok (fold (\<lambda>(k, v). bt_insert k v) kvs m)" for m
    by (induction kvs arbitrary: m) (auto simp: bt_ok_insert)
  then show ?thesis by (simp add: bt_from_def bt_ok_def)
qed

end
