(* ===== verification/Shell.thy ===== *)
theory Shell
  imports Line_Device Ordered_Map
begin

text \<open>
  The shell presets of \<open>src/forge/sim.rs\<close> (\<open>ShellHandler\<close>, \<open>split_commands\<close>, \<open>expand_words\<close>): a
  POSIX-like console and a U-Boot one.  Characters are code points; the character codes that
  matter are 32 (blank), 34 and 39 (the quotes), 36 (dollar), 59 (semicolon), 63 (question
  mark) and 95 (underscore).
\<close>

declare chars_simps [simp del]

section \<open>Splitting and expansion\<close>

text \<open>\<open>cur\<close> is the command being collected, the flags whether it is inside quotes.\<close>

fun split_from :: "rstring \<Rightarrow> bool \<Rightarrow> bool \<Rightarrow> rstring \<Rightarrow> rstring list" where
  "split_from cur in_s in_d [] = [cur]"
| "split_from cur in_s in_d (c # cs) =
     (if c = 39 \<and> \<not> in_d then split_from (cur @ [c]) (\<not> in_s) in_d cs
      else if c = 34 \<and> \<not> in_s then split_from (cur @ [c]) in_s (\<not> in_d) cs
      else if c = 59 \<and> \<not> in_s \<and> \<not> in_d then cur # split_from [] in_s in_d cs
      else split_from (cur @ [c]) in_s in_d cs)"

definition split_commands :: "rstring \<Rightarrow> rstring list" where
  "split_commands l = filter (\<lambda>c. trim c \<noteq> []) (split_from [] False False l)"

type_synonym env = "(rstring \<times> rstring) list"

definition name_char :: "rchar \<Rightarrow> bool" where
  "name_char c \<longleftrightarrow> is_ascii_alphanumeric c \<or> c = 95"

text \<open>After a dollar: the text pushed and the characters left.\<close>

definition expand_dollar :: "env \<Rightarrow> int \<Rightarrow> rstring \<Rightarrow> rstring \<times> rstring" where
  "expand_dollar env st cs =
     (case cs of
        c # rest \<Rightarrow>
          if c = 63 then (chars (decimal_int st), rest)
          else if name_char c then
            ((case bt_get env (takeWhile name_char cs) of Some v \<Rightarrow> v | None \<Rightarrow> []), dropWhile name_char cs)
          else ([36], cs)
      | [] \<Rightarrow> ([36], []))"

lemma expand_dollar_shrinks: "expand_dollar env st cs = (t, rest) \<Longrightarrow> length rest \<le> length cs"
  by (auto simp: expand_dollar_def length_dropWhile_le intro: le_SucI split: list.splits if_splits)

text \<open>Inside double quotes: the text up to the closing quote and the characters after it.\<close>

function in_double :: "env \<Rightarrow> int \<Rightarrow> rstring \<Rightarrow> rstring \<times> rstring" where
  "in_double env st [] = ([], [])"
| "in_double env st (c # cs) =
     (if c = 34 then ([], cs)
      else if c = 36 then
        (let (t, rest) = expand_dollar env st cs in apfst ((@) t) (in_double env st rest))
      else apfst ((@) [c]) (in_double env st cs))"
  by pat_completeness auto
termination
  by (relation "measure (\<lambda>(env, st, cs). length cs)") (auto simp: less_Suc_eq_le dest: expand_dollar_shrinks [OF sym])

lemma in_double_shrinks: "in_double env st cs = (t, rest) \<Longrightarrow> length rest \<le> length cs"
proof (induction env st cs arbitrary: t rest rule: in_double.induct)
  case (2 env st c cs)
  show ?case
  proof (cases "c = 36")
    case True
    obtain t1 r1 t2 r2 where e: "expand_dollar env st cs = (t1, r1)" "in_double env st r1 = (t2, r2)" by fastforce
    with "2.IH"(1) [OF _ True] expand_dollar_shrinks [OF e(1)] "2.prems" True show ?thesis by fastforce
  next
    case False
    obtain t2 r2 where "in_double env st cs = (t2, r2)" by fastforce
    with "2.IH"(2) [OF _ False] "2.prems" False show ?thesis by (auto split: if_splits)
  qed
qed simp

text \<open>The main loop of \<open>expand_words\<close>; \<open>has\<close> is \<open>has_content\<close>.\<close>

function words_from :: "env \<Rightarrow> int \<Rightarrow> rstring \<Rightarrow> bool \<Rightarrow> rstring \<Rightarrow> rstring list" where
  "words_from env st cur has [] = (if has then [cur] else [])"
| "words_from env st cur has (c # cs) =
     (if is_whitespace c then
        (if has then cur # words_from env st [] False cs else words_from env st cur False cs)
      else if c = 39 then
        words_from env st (cur @ takeWhile (\<lambda>c. c \<noteq> 39) cs) True (drop 1 (dropWhile (\<lambda>c. c \<noteq> 39) cs))
      else if c = 34 then
        (let (t, rest) = in_double env st cs in words_from env st (cur @ t) True rest)
      else if c = 36 then
        (let (t, rest) = expand_dollar env st cs in words_from env st (cur @ t) (has \<or> t \<noteq> []) rest)
      else words_from env st (cur @ [c]) True cs)"
  by pat_completeness auto
termination
  by (relation "measure (\<lambda>(env, st, cur, has, cs). length cs)")
     (auto simp: less_Suc_eq_le dest: expand_dollar_shrinks [OF sym] in_double_shrinks [OF sym]
       intro: order_trans [OF diff_le_self length_dropWhile_le])

definition expand_words :: "rstring \<Rightarrow> env \<Rightarrow> int \<Rightarrow> rstring list" where
  "expand_words cmd env st = words_from env st [] False cmd"

section \<open>The command interpreter\<close>

datatype shell_kind = Posix | Uboot

record shell =
  kind :: shell_kind
  env :: env
  last_status :: int

definition posix :: shell where
  "posix = \<lparr>kind = Posix, env = [], last_status = 0\<rparr>"

definition uboot :: shell where
  "uboot = \<lparr>kind = Uboot,
     env = bt_from (map (\<lambda>(k, v). (chars k, chars v))
       [(''arch'', ''sandbox''), (''baudrate'', ''115200''), (''board'', ''ttyforge-sim''),
        (''bootcmd'', ''echo Hello from ttyforge''), (''bootdelay'', ''2''), (''stdin'', ''serial''),
        (''stdout'', ''serial''), (''stderr'', ''serial'')]),
     last_status = 0\<rparr>"

definition crlf :: bytes where
  "crlf = [0x0D, 0x0A]"

text \<open>\<open>printenv\<close> of some names: the output and whether one was missing.\<close>

fun printenv_names :: "env \<Rightarrow> rstring list \<Rightarrow> bytes \<times> bool" where
  "printenv_names e [] = ([], False)"
| "printenv_names e (name # names) =
     (case printenv_names e names of
        (out, missing) \<Rightarrow>
          (case bt_get e name of
             Some v \<Rightarrow> (utf8 (name @ chars ''='' @ v) @ crlf @ out, missing)
           | None \<Rightarrow> (utf8 (chars ''## Error: '' @ [34] @ name @ [34] @ chars '' not defined'') @ crlf @ out, True)))"

definition printenv_all :: "env \<Rightarrow> bytes" where
  "printenv_all e =
     concat (map (\<lambda>(k, v). utf8 (k @ chars ''='' @ v) @ crlf) e) @
     crlf @ utf8 (chars (''Environment size: '' @ decimal (sum_list (map (\<lambda>(k, v). str_len k + str_len v + 2) e)) @ ''/8188 bytes'')) @ crlf"

definition run_one :: "shell \<Rightarrow> rstring \<Rightarrow> shell \<times> bytes" where
  "run_one s cmd =
     (case expand_words cmd (env s) (last_status s) of
        [] \<Rightarrow> (s, [])
      | head # args \<Rightarrow>
          if head = chars ''echo'' then (s\<lparr>last_status := 0\<rparr>, utf8 (join [32] args) @ crlf)
          else if head = chars ''true'' then (s\<lparr>last_status := 0\<rparr>, [])
          else if head = chars ''false'' then (s\<lparr>last_status := 1\<rparr>, [])
          else if head = chars ''printenv'' \<and> kind s = Uboot then
            (if args = [] then (s\<lparr>last_status := 0\<rparr>, printenv_all (env s))
             else (case printenv_names (env s) args of
                     (out, missing) \<Rightarrow> (s\<lparr>last_status := (if missing then 1 else 0)\<rparr>, out)))
          else if head = chars ''setenv'' \<and> kind s = Uboot then
            ((case args of
                [] \<Rightarrow> s
              | [name] \<Rightarrow> s\<lparr>env := bt_remove name (env s)\<rparr>
              | name # vs \<Rightarrow> s\<lparr>env := bt_insert name (join [32] vs) (env s)\<rparr>)\<lparr>last_status := 0\<rparr>, [])
          else if head = chars ''version'' \<and> kind s = Uboot then
            (s\<lparr>last_status := 0\<rparr>, utf8 (chars ''U-Boot 2024.01-ttyforge-sim'') @ crlf @ crlf)
          else (case kind s of
                  Posix \<Rightarrow> (s\<lparr>last_status := 127\<rparr>,
                    utf8 (chars ''sh: '' @ head @ chars '': command not found'') @ crlf)
                | Uboot \<Rightarrow> (s\<lparr>last_status := 1\<rparr>,
                    utf8 (chars ''Unknown command '' @ [39] @ head @ [39] @ chars '' - try '' @ [39] @ chars ''help'' @ [39]) @ crlf)))"

fun run_commands :: "shell \<Rightarrow> rstring list \<Rightarrow> shell \<times> bytes" where
  "run_commands s [] = (s, [])"
| "run_commands s (cmd # cmds) =
     (case run_one s cmd of (s1, out) \<Rightarrow> apsnd ((@) out) (run_commands s1 cmds))"

definition shell_on_line :: "shell \<Rightarrow> rstring \<Rightarrow> shell \<times> bytes" where
  "shell_on_line s l = run_commands s (split_commands l)"

definition shell_prompt :: "shell \<Rightarrow> bytes" where
  "shell_prompt s = (case kind s of Posix \<Rightarrow> [0x24, 0x20] | Uboot \<Rightarrow> [0x3D, 0x3E, 0x20])"

definition shell_handler :: "shell line_handler" where
  "shell_handler = \<lparr>prompt = shell_prompt, on_line = (\<lambda>s l. Some (shell_on_line s l))\<rparr>"

section \<open>Blank pieces\<close>

lemma words_from_blank: "list_all is_whitespace cs \<Longrightarrow> words_from e st cur False cs = []"
  by (induction cs arbitrary: cur) auto

lemma run_one_blank: "trim c = [] \<Longrightarrow> run_one s c = (s, [])"
  by (simp add: run_one_def expand_words_def trim_eq_Nil_iff words_from_blank)

lemma run_commands_filter: "run_commands s (filter (\<lambda>c. trim c \<noteq> []) cmds) = run_commands s cmds"
  by (induction cmds arbitrary: s) (simp_all add: run_one_blank split: prod.split)

lemma run_commands_append:
  "run_commands s (xs @ ys) = (case run_commands s xs of (s', out) \<Rightarrow> apsnd ((@) out) (run_commands s' ys))"
  by (induction xs arbitrary: s) (auto split: prod.splits)

lemma shell_on_line_eq: "shell_on_line s l = run_commands s (split_from [] False False l)"
  by (simp add: shell_on_line_def split_commands_def run_commands_filter)

section \<open>Quoting\<close>

text \<open>
  A way to type any text as one word: every character in single quotes, the single quote itself
  in double ones.
\<close>

definition quote_char :: "rchar \<Rightarrow> rstring" where
  "quote_char c = (if c = 39 then [34, 39, 34] else [39, c, 39])"

definition quote :: "rstring \<Rightarrow> rstring" where
  "quote w = [39, 39] @ concat (map quote_char w)"

lemma not_whitespace [simp]: "\<not> is_whitespace 39" "\<not> is_whitespace 34" "\<not> is_whitespace 36" "is_whitespace 32"
  by (simp_all add: is_whitespace_def)

lemma words_from_quote_char:
  "words_from e st cur has (quote_char c @ rest) = words_from e st (cur @ [c]) True rest"
  by (simp add: quote_char_def)

lemma words_from_quote:
  "words_from e st cur has (quote w @ rest) = words_from e st (cur @ w) True rest"
proof -
  have "words_from e st cur True (concat (map quote_char w) @ rest) = words_from e st (cur @ w) True rest" for cur
    by (induction w arbitrary: cur) (simp_all add: words_from_quote_char)
  then show ?thesis by (simp add: quote_def)
qed

lemma words_from_quotes:
  "words_from e st [] False (join [32] (map quote ws)) = ws"
proof (induction ws)
  case (Cons w ws)
  show ?case
  proof (cases "ws = []")
    case True
    then show ?thesis using words_from_quote [of e st "[]" False w "[]"] by simp
  next
    case False
    then show ?thesis using Cons by (simp add: join_Cons words_from_quote)
  qed
qed simp

definition plain_char :: "rchar \<Rightarrow> bool" where
  "plain_char c \<longleftrightarrow> \<not> is_whitespace c \<and> c \<notin> {34, 36, 39, 59}"

lemma words_from_plain:
  "list_all plain_char w \<Longrightarrow> w \<noteq> [] \<or> has \<Longrightarrow>
   words_from e st cur has (w @ rest) = words_from e st (cur @ w) True rest"
proof (induction w arbitrary: cur has)
  case (Cons c w)
  then have "words_from e st cur has ((c # w) @ rest) = words_from e st (cur @ [c]) True (w @ rest)"
    by (simp add: plain_char_def)
  also have "\<dots> = words_from e st ((cur @ [c]) @ w) True rest"
    by (rule Cons.IH) (use Cons.prems in simp_all)
  finally show ?case by simp
qed simp

text \<open>Splitting passes over quoted and plain text.\<close>

lemma split_from_quote_char:
  "split_from cur False False (quote_char c @ rest) = split_from (cur @ quote_char c) False False rest"
  by (simp add: quote_char_def)

lemma split_from_quote:
  "split_from cur False False (quote w @ rest) = split_from (cur @ quote w) False False rest"
proof -
  have "split_from cur False False (concat (map quote_char w) @ rest) =
      split_from (cur @ concat (map quote_char w)) False False rest" for cur
  proof (induction w arbitrary: cur)
    case (Cons c w)
    then show ?case using split_from_quote_char [of cur c "concat (map quote_char w) @ rest"] by simp
  qed simp
  from this [of "cur @ [39, 39]"] show ?thesis by (simp add: quote_def)
qed

definition unquoted :: "rstring \<Rightarrow> bool" where
  "unquoted s \<longleftrightarrow> list_all (\<lambda>c. c \<noteq> 39 \<and> c \<noteq> 34 \<and> c \<noteq> 59) s"

lemma split_from_unquoted:
  "unquoted w \<Longrightarrow> split_from cur False False (w @ rest) = split_from (cur @ w) False False rest"
  by (induction w arbitrary: cur) (simp_all add: unquoted_def)

lemma split_from_in_double:
  "list_all (\<lambda>c. c \<noteq> 34) w \<Longrightarrow> split_from cur False True (w @ rest) = split_from (cur @ w) False True rest"
  by (induction w arbitrary: cur) simp_all

lemma split_from_quotes:
  "split_from cur False False (join [32] (map quote ws)) = [cur @ join [32] (map quote ws)]"
proof (induction ws arbitrary: cur)
  case (Cons w ws)
  show ?case
  proof (cases "ws = []")
    case True
    then show ?thesis using split_from_quote [of cur w "[]"] by simp
  next
    case False
    then show ?thesis
      using Cons [of "cur @ quote w @ [32]"] by (simp add: join_Cons split_from_quote)
  qed
qed simp

lemma split_from_not_Nil: "split_from cur s d l \<noteq> []"
  by (induction cur s d l rule: split_from.induct) simp_all

lemma split_from_join: "join [59] (split_from cur s d l) = cur @ l"
  by (induction cur s d l rule: split_from.induct) (simp_all add: join_Cons split_from_not_Nil)


section \<open>Typed commands\<close>

text \<open>A command line of a plain head word and quoted arguments.\<close>

definition typed :: "rstring \<Rightarrow> rstring list \<Rightarrow> rstring" where
  "typed head args = head @ [32] @ join [32] (map quote args)"

lemma expand_typed:
  assumes "list_all plain_char head" "head \<noteq> []"
  shows "expand_words (typed head args) e st = head # args"
  using assms words_from_plain [of head False e st "[]" "[32] @ join [32] (map quote args)"]
  by (simp add: expand_words_def typed_def words_from_quotes)

lemma split_typed:
  assumes "list_all plain_char head"
  shows "split_from [] False False (typed head args) = [typed head args]"
proof -
  have "unquoted (head @ [32])"
    using assms by (auto simp: unquoted_def plain_char_def list_all_iff)
  from split_from_unquoted [OF this, of "[]"] show ?thesis
    by (simp add: typed_def split_from_quotes)
qed

lemma on_line_typed:
  assumes "list_all plain_char head" "head \<noteq> []"
  shows "shell_on_line s (typed head args) = run_one s (typed head args)"
  using split_typed [OF assms(1), of args] by (simp add: shell_on_line_eq split: prod.split)

lemma plain_heads [simp]:
  "list_all plain_char (chars ''echo'')" "list_all plain_char (chars ''printenv'')"
  "list_all plain_char (chars ''setenv'')"
  by (simp_all add: plain_char_def is_whitespace_def chars_simps)

lemma run_echo:
  "expand_words cmd (env s) (last_status s) = chars ''echo'' # args \<Longrightarrow>
   run_one s cmd = (s\<lparr>last_status := 0\<rparr>, utf8 (join [32] args) @ crlf)"
  by (simp add: run_one_def)

lemma run_setenv:
  assumes "kind s = Uboot" "expand_words cmd (env s) (last_status s) = chars ''setenv'' # name # vs"
  shows "run_one s cmd =
    (s\<lparr>env := (if vs = [] then bt_remove name (env s) else bt_insert name (join [32] vs) (env s)), last_status := 0\<rparr>, [])"
  using assms by (cases vs) (simp_all add: run_one_def chars_simps)

lemma run_printenv_one:
  assumes "kind s = Uboot" "expand_words cmd (env s) (last_status s) = [chars ''printenv'', name]"
  shows "run_one s cmd =
    (case bt_get (env s) name of
       Some v \<Rightarrow> (s\<lparr>last_status := 0\<rparr>, utf8 (name @ chars ''='' @ v) @ crlf)
     | None \<Rightarrow> (s\<lparr>last_status := 1\<rparr>, utf8 (chars ''## Error: '' @ [34] @ name @ [34] @ chars '' not defined'') @ crlf))"
  using assms by (auto simp: run_one_def chars_simps split: option.split)

section \<open>The exec wrapper\<close>

text \<open>A word in two adjacent double-quoted halves, and text that is literal inside them.\<close>

definition dq :: "rstring \<Rightarrow> rstring \<Rightarrow> rstring" where
  "dq a b = [34] @ a @ [34, 34] @ b @ [34]"

definition exec_wrapper_line :: "rstring \<Rightarrow> rstring \<Rightarrow> rstring" where
  "exec_wrapper_line tag cmd =
     chars ''echo '' @ dq (chars ''TETHEREXECBE'') (chars ''G'' @ tag) @ [59] @ ([32] @ cmd) @ [59] @
     ([32] @ chars ''echo '') @ dq (chars ''TETHEREXECEN'') (chars ''D'' @ tag @ chars ''=$?'')"

definition literal :: "rstring \<Rightarrow> bool" where
  "literal w \<longleftrightarrow> list_all (\<lambda>c. c \<noteq> 34 \<and> c \<noteq> 36) w"

lemma alnum_literal: "is_ascii_alphanumeric c \<Longrightarrow> c \<noteq> 34 \<and> c \<noteq> 36"
  by (auto simp: is_ascii_alphanumeric_def)

lemma in_double_literal: "literal w \<Longrightarrow> in_double e st (w @ rest) = apfst ((@) w) (in_double e st rest)"
proof (induction w)
  case (Cons c w)
  then have "in_double e st ((c # w) @ rest) = apfst ((@) [c]) (in_double e st (w @ rest))"
    by (simp add: literal_def)
  with Cons show ?case by (cases "in_double e st rest") (simp add: literal_def)
qed simp

lemma words_from_dq:
  assumes "literal a" "literal b"
  shows "words_from e st cur has (dq a b @ rest) = words_from e st (cur @ a @ b) True rest"
proof -
  have "in_double e st (a @ 34 # r) = (a, r)" "in_double e st (b @ 34 # r) = (b, r)" for r
    using in_double_literal [OF assms(1), of e st "34 # r"] in_double_literal [OF assms(2), of e st "34 # r"] by simp_all
  then show ?thesis by (simp add: dq_def)
qed

lemma words_from_dq_status:
  assumes "literal a" "literal b"
  shows "words_from e st cur has (dq a (b @ [36, 63]) @ rest) =
    words_from e st (cur @ a @ b @ chars (decimal_int st)) True rest"
proof -
  have "in_double e st (a @ 34 # r) = (a, r)" for r
    using in_double_literal [OF assms(1), of e st "34 # r"] by simp
  moreover have "in_double e st (b @ 36 # 63 # 34 # r) = (b @ chars (decimal_int st), r)" for r
    using in_double_literal [OF assms(2), of e st "36 # 63 # 34 # r"] by (simp add: expand_dollar_def)
  ultimately show ?thesis by (simp add: dq_def)
qed

lemma words_from_echo:
  "words_from e st [] False (chars ''echo '' @ rest) = chars ''echo'' # words_from e st [] False rest"
proof -
  have "words_from e st [] False (chars ''echo'' @ [32] @ rest) = words_from e st ([] @ chars ''echo'') True ([32] @ rest)"
    by (rule words_from_plain [OF plain_heads(1)]) (simp add: chars_simps)
  then show ?thesis by (simp add: chars_simps)
qed

lemma expand_echo_dq:
  "literal a \<Longrightarrow> literal b \<Longrightarrow> expand_words (chars ''echo '' @ dq a b @ []) e st = [chars ''echo'', a @ b]"
  unfolding expand_words_def words_from_echo by (simp only: words_from_dq) simp

lemma expand_echo_status:
  assumes "literal a" "literal b"
  shows "expand_words (chars ''echo '' @ dq a (b @ [36, 63])) e st = [chars ''echo'', a @ b @ chars (decimal_int st)]"
proof -
  have "expand_words (chars ''echo '' @ dq a (b @ [36, 63])) e st =
      words_from e st [] False (chars ''echo '' @ dq a (b @ [36, 63]) @ [])"
    by (simp add: expand_words_def)
  then show ?thesis
    unfolding words_from_echo by (simp only: words_from_dq_status [OF assms]) simp
qed

lemma split_dq:
  assumes "list_all (\<lambda>c. c \<noteq> 34) a" "list_all (\<lambda>c. c \<noteq> 34) b"
  shows "split_from cur False False (dq a b @ rest) = split_from (cur @ dq a b) False False rest"
  using split_from_in_double [OF assms(1)] split_from_in_double [OF assms(2)] by (simp add: dq_def)

lemma run_one_skip_blank: "run_one s (32 # cmd) = run_one s cmd"
  by (simp add: run_one_def expand_words_def)

section \<open>Invariant\<close>

definition shell_ok :: "shell \<Rightarrow> bool" where
  "shell_ok s \<longleftrightarrow> bt_ok (env s) \<and> (kind s = Posix \<longrightarrow> env s = []) \<and>
     (last_status s = 0 \<or> last_status s = 1 \<or> last_status s = 127 \<and> kind s = Posix)"

lemma shell_ok_initial [wf_intros]: "shell_ok posix" "shell_ok uboot"
  by (simp_all add: shell_ok_def posix_def uboot_def bt_ok_from, simp add: bt_ok_def)

lemma shell_ok_run_one [wf_intros]:
  assumes "shell_ok s"
  shows "shell_ok (fst (run_one s cmd)) \<and> kind (fst (run_one s cmd)) = kind s"
proof (cases "expand_words cmd (env s) (last_status s)")
  case Nil
  with assms show ?thesis by (simp add: run_one_def)
next
  case (Cons head args)
  have e: "bt_ok (bt_insert k v (env s))" "bt_ok (bt_remove k (env s))" for k v
    using assms by (simp_all add: shell_ok_def bt_ok_insert bt_ok_remove)
  show ?thesis
    using assms Cons e
    by (cases "kind s"; cases args; cases "tl args")
       (simp_all add: run_one_def shell_ok_def split: prod.split)
qed

lemma shell_ok_run_commands: "shell_ok s \<Longrightarrow> shell_ok (fst (run_commands s cmds)) \<and> kind (fst (run_commands s cmds)) = kind s"
proof (induction cmds arbitrary: s)
  case (Cons cmd cmds)
  obtain s1 out where r: "run_one s cmd = (s1, out)" by fastforce
  with shell_ok_run_one [OF Cons.prems, of cmd] have "shell_ok s1" "kind s1 = kind s" by simp_all
  with Cons.IH [of s1] r show ?case by simp
qed simp

lemma shell_ok_on_line [wf_intros]: "shell_ok s \<Longrightarrow> shell_ok (fst (shell_on_line s l))"
  by (simp add: shell_on_line_def shell_ok_run_commands)

lemma shell_ok_lines: "run_lines shell_handler h ls = Some h' \<Longrightarrow> shell_ok h \<Longrightarrow> shell_ok h'"
proof (induction ls arbitrary: h)
  case (Cons l ls)
  obtain h1 out where "shell_on_line h (from_utf8_lossy l) = (h1, out)" by fastforce
  with Cons shell_ok_on_line [of h "from_utf8_lossy l"] show ?case by (simp add: shell_handler_def)
qed simp

lemma shell_ok_feed:
  assumes "shell_ok (handler d)" "feed shell_handler d xs = Some (d', out)"
  shows "shell_ok (handler d')"
proof -
  obtain ls l cr where "edit (line d) (last_was_cr d) xs = (ls, l, cr)" by (metis prod.exhaust)
  with feed_edit [of shell_handler d xs] assms(2) have
    "map_option (\<lambda>h. \<lparr>line = l, last_was_cr = cr, handler = h\<rparr>) (run_lines shell_handler (handler d) ls) = Some d'"
    by simp
  then obtain h where "run_lines shell_handler (handler d) ls = Some h" "handler d' = h" by auto
  with shell_ok_lines assms(1) show ?thesis by blast
qed

interpretation shell_dev: device "feed shell_handler" "\<lambda>d. shell_ok (handler d)"
  by unfold_locales (auto simp: feed_append intro: shell_ok_feed)

section \<open>Properties\<close>

text \<open>
  Echo says exactly what was typed: for any words at all, with blanks, quotes, semicolons,
  dollars or wide characters, the line \<open>echo\<close> with each word quoted prints the words joined by
  blanks, and nothing is split, expanded or lost on the way.
\<close>

theorem echo_says_exactly:
  "expand_words (typed (chars ''echo'') ws) (env s) (last_status s) = chars ''echo'' # ws \<and>
   shell_on_line s (typed (chars ''echo'') ws) = (s\<lparr>last_status := 0\<rparr>, utf8 (join [32] ws) @ [0x0D, 0x0A])"
proof -
  have e: "expand_words (typed (chars ''echo'') ws) (env s) (last_status s) = chars ''echo'' # ws"
    by (rule expand_typed [OF plain_heads(1)]) (simp add: chars_simps)
  moreover have "shell_on_line s (typed (chars ''echo'') ws) = run_one s (typed (chars ''echo'') ws)"
    by (rule on_line_typed [OF plain_heads(1)]) (simp add: chars_simps)
  ultimately show ?thesis by (simp add: run_echo [OF e] crlf_def)
qed


text \<open>
  (C15) The exec wrapper works: the line a remote-execution client types around a command (begin
  marker split by adjacent quotes, the command, end marker with \<open>$?\<close>) prints the joined begin
  marker, the command's own output, and the end marker with the status that very command left.
  The tag is any run of letters and digits, the command any text without quotes and semicolons.
\<close>

theorem exec_wrapper:
  assumes "list_all is_ascii_alphanumeric tag" and "unquoted cmd"
  shows "shell_on_line s (exec_wrapper_line tag cmd) =
    (case run_one (s\<lparr>last_status := 0\<rparr>) cmd of
       (s', out) \<Rightarrow>
         (s'\<lparr>last_status := 0\<rparr>,
          utf8 (chars ''TETHEREXECBEG'' @ tag) @ crlf @ out @
          utf8 (chars ''TETHEREXECEND'' @ tag @ chars ''='' @ chars (decimal_int (last_status s'))) @ crlf))"
proof -
  let ?b = "chars ''echo '' @ dq (chars ''TETHEREXECBE'') (chars ''G'' @ tag)"
  let ?e = "chars ''echo '' @ dq (chars ''TETHEREXECEN'') (chars ''D'' @ tag @ chars ''=$?'')"
  have t: "literal tag" using assms(1) alnum_literal by (auto simp: literal_def list_all_iff)
  have l: "list_all (\<lambda>c. c \<noteq> 34) tag" using t by (simp add: literal_def list_all_iff)
  have d: "split_from cur False False (dq (chars ''TETHEREXECBE'') (chars ''G'' @ tag) @ rest) =
      split_from (cur @ dq (chars ''TETHEREXECBE'') (chars ''G'' @ tag)) False False rest"
    "split_from cur False False (dq (chars ''TETHEREXECEN'') (chars ''D'' @ tag @ chars ''=$?'') @ rest) =
      split_from (cur @ dq (chars ''TETHEREXECEN'') (chars ''D'' @ tag @ chars ''=$?'')) False False rest" for cur rest
    by (rule split_dq; use l in \<open>simp add: chars_simps\<close>)+
  have u: "unquoted (chars ''echo '')" "unquoted ([32] @ chars ''echo '')" "unquoted ([32] @ cmd)"
    using assms(2) by (simp_all add: unquoted_def chars_simps)
  have semi: "split_from cur False False ([59] @ rest) = cur # split_from [] False False rest" for cur rest
    by simp
  have pieces: "split_from [] False False (exec_wrapper_line tag cmd) = [?b, 32 # cmd, 32 # ?e]"
    unfolding exec_wrapper_line_def
    by (simp only: split_from_unquoted [OF u(1)] split_from_unquoted [OF u(2)] split_from_unquoted [OF u(3)] d semi)
       (use d(2) [where rest = "[]"] in simp)
  have b: "expand_words ?b en st = [chars ''echo'', chars ''TETHEREXECBEG'' @ tag]" for en st
    using t expand_echo_dq [of "chars ''TETHEREXECBE''" "chars ''G'' @ tag" en st] by (simp add: literal_def chars_simps)
  have e: "expand_words ?e en st = [chars ''echo'', chars ''TETHEREXECEND'' @ tag @ chars ''='' @ chars (decimal_int st)]" for en st
    using t expand_echo_status [of "chars ''TETHEREXECEN''" "chars ''D'' @ tag @ chars ''=''" en st] by (simp add: literal_def chars_simps)
  show ?thesis
    unfolding shell_on_line_eq pieces
    by (simp add: run_echo [OF b] run_echo [OF e] run_one_skip_blank del: utf8_simps split: prod.split)
qed


theorem exec_wrapper_witness:
  "list_all is_ascii_alphanumeric (chars ''t1'') \<and>
   snd (shell_on_line posix (exec_wrapper_line (chars ''t1'') (chars ''false''))) =
     utf8 (chars ''TETHEREXECBEG'' @ chars ''t1'') @ crlf @ [] @
     utf8 (chars ''TETHEREXECEND'' @ chars ''t1'' @ chars ''='' @ chars (decimal_int 1)) @ crlf"
proof -
  have h: "list_all is_ascii_alphanumeric (chars ''t1'')" "unquoted (chars ''false'')"
    by (simp_all add: chars_simps is_ascii_alphanumeric_def unquoted_def)
  have "list_all plain_char (chars ''false'')"
    by (simp add: chars_simps plain_char_def is_whitespace_def)
  from words_from_plain [OF this, of False e st "[]" "[]" for e st]
  have "expand_words (chars ''false'') e st = [chars ''false'']" for e st
    by (simp add: expand_words_def chars_simps)
  then have "run_one (posix\<lparr>last_status := 0\<rparr>) (chars ''false'') = (posix\<lparr>last_status := 1\<rparr>, [])"
    by (simp add: run_one_def chars_simps)
  with exec_wrapper [OF h, of posix] h(1) show ?thesis by simp
qed

text \<open>
  The U-Boot environment.  After \<open>setenv\<close> with a name and values, \<open>printenv\<close> of that name
  prints the values joined by blanks with status 0; after \<open>setenv\<close> with the name alone it reports
  the name as not defined with status 1, and if the name was new the environment is listed
  exactly as before.  Names and values are any texts.
\<close>

theorem setenv_printenv:
  assumes "kind s = Uboot" and "bt_ok (env s)" and "vs \<noteq> []"
  shows "let s1 = fst (shell_on_line s (typed (chars ''setenv'') (name # vs)));
             s2 = fst (shell_on_line s1 (typed (chars ''setenv'') [name]))
         in shell_on_line s1 (typed (chars ''printenv'') [name]) =
              (s1\<lparr>last_status := 0\<rparr>, utf8 (name @ chars ''='' @ join [32] vs) @ crlf) \<and>
            shell_on_line s2 (typed (chars ''printenv'') [name]) =
              (s2\<lparr>last_status := 1\<rparr>, utf8 (chars ''## Error: '' @ [34] @ name @ [34] @ chars '' not defined'') @ crlf) \<and>
            (bt_get (env s) name = None \<longrightarrow> env s2 = env s)"
proof -
  have ne: "chars ''setenv'' \<noteq> []" "chars ''printenv'' \<noteq> []" by (simp_all add: chars_simps)
  note setenv = expand_typed [OF plain_heads(3) ne(1)] and printenv = expand_typed [OF plain_heads(2) ne(2)]
  note lines = on_line_typed [OF plain_heads(3) ne(1)] on_line_typed [OF plain_heads(2) ne(2)]
  have "run_one s (typed (chars ''setenv'') (name # vs)) =
      (s\<lparr>env := bt_insert name (join [32] vs) (env s), last_status := 0\<rparr>, [])"
    using run_setenv [OF assms(1) setenv] assms(3) by simp
  then obtain s1 where s1: "run_one s (typed (chars ''setenv'') (name # vs)) = (s1, [])" "kind s1 = Uboot"
    "env s1 = bt_insert name (join [32] vs) (env s)" using assms(1) by simp
  have "run_one s1 (typed (chars ''setenv'') [name]) =
      (s1\<lparr>env := bt_remove name (env s1), last_status := 0\<rparr>, [])"
    using run_setenv [OF s1(2) setenv, of name "[]"] by simp
  then obtain s2 where s2: "run_one s1 (typed (chars ''setenv'') [name]) = (s2, [])" "kind s2 = Uboot"
    "env s2 = bt_remove name (env s1)" using s1(2) by simp
  have g: "bt_get (env s1) name = Some (join [32] vs)" "bt_get (env s2) name = None"
    using bt.get_put [OF assms(2)] by (simp_all add: s1(3) s2(3) bt_get_remove)
  have "bt_get (env s) name = None \<longrightarrow> env s2 = env s"
    using bt.del_put [OF assms(2)] by (simp add: s1(3) s2(3))
  then show ?thesis
    using run_printenv_one [OF s1(2) printenv] run_printenv_one [OF s2(2) printenv] g
    by (simp add: lines s1(1) s2(1))
qed

theorem setenv_printenv_witness:
  "kind uboot = Uboot \<and> bt_ok (env uboot) \<and>
   snd (shell_on_line (fst (shell_on_line uboot (typed (chars ''setenv'') [chars ''ip'', chars ''10'']))) (typed (chars ''printenv'') [chars ''ip''])) =
     utf8 (chars ''ip'' @ chars ''='' @ chars ''10'') @ crlf"
proof -
  have h: "kind uboot = Uboot" "bt_ok (env uboot)" "[chars ''10''] \<noteq> []"
    by (simp_all add: uboot_def bt_ok_from)
  from setenv_printenv [OF h, of "chars ''ip''"] h show ?thesis by (simp add: Let_def)
qed

text \<open>
  (C29) The shell presets never fail: from their initial state, whatever bytes are typed, the device
  answers (no panic, no matter how broken the text), its environment stays sorted without
  duplicates and empty on the POSIX console, and \<open>$?\<close> is one of 0, 1 and, on the POSIX console,
  127.
\<close>

theorem shell_never_fails:
  "\<exists>d out. feed shell_handler (line_device_new (if board then uboot else posix)) keys = Some (d, out) \<and>
     shell_ok (handler d) \<and> line_ok d"
proof -
  let ?d = "line_device_new (if board then uboot else posix)"
  have "feed shell_handler ?d keys \<noteq> None"
    by (rule feed_total) (simp add: shell_handler_def)
  then obtain d out where f: "feed shell_handler ?d keys = Some (d, out)" by force
  have "shell_ok (handler ?d)" by (simp add: line_device_new_def shell_ok_initial)
  with f shell_dev.ok_run line_ok_feed [OF line_ok_new f] show ?thesis by blast
qed

text \<open>
  Splitting a line into commands loses nothing: the pieces between the semicolons outside
  quotes, joined by semicolons, are the line; running the kept pieces, the nonblank ones, is
  running all of them.
\<close>

theorem splitting_loses_nothing:
  "join [59] (split_from [] False False l) = l \<and>
   (\<forall>c. c \<in> set (split_commands l) \<longleftrightarrow> c \<in> set (split_from [] False False l) \<and> \<not> list_all is_whitespace c) \<and>
   shell_on_line s l = run_commands s (split_from [] False False l)"
  by (simp add: split_from_join shell_on_line_eq) (auto simp: split_commands_def trim_eq_Nil_iff)

end
