(* ===== verification/Telnet.thy ===== *)
theory Telnet
  imports Text
begin

unbundle bit_operations_syntax

text \<open>
  The telnet codec of \<open>src/forge/rfc2217.rs\<close> (\<open>Telnet\<close>, \<open>escape\<close>, \<open>subneg\<close>): the
  byte-at-a-time decoder, the option negotiation and the escaping of outbound data, over one
  record for the struct.  The lemmas show that a read may split the stream anywhere, that
  decoding inverts every frame the program emits, and how negotiation settles.
\<close>

section \<open>Protocol bytes\<close>

abbreviation IAC :: u8 where "IAC \<equiv> 255"
abbreviation DONT :: u8 where "DONT \<equiv> 254"
abbreviation DO :: u8 where "DO \<equiv> 253"
abbreviation WONT :: u8 where "WONT \<equiv> 252"
abbreviation WILL :: u8 where "WILL \<equiv> 251"
abbreviation SB :: u8 where "SB \<equiv> 250"
abbreviation SE :: u8 where "SE \<equiv> 240"

abbreviation OPT_BINARY :: u8 where "OPT_BINARY \<equiv> 0"
abbreviation OPT_SGA :: u8 where "OPT_SGA \<equiv> 3"
abbreviation OPT_COM_PORT :: u8 where "OPT_COM_PORT \<equiv> 44"

abbreviation SET_BAUDRATE :: u8 where "SET_BAUDRATE \<equiv> 1"
abbreviation SET_DATASIZE :: u8 where "SET_DATASIZE \<equiv> 2"
abbreviation SET_PARITY :: u8 where "SET_PARITY \<equiv> 3"
abbreviation SET_STOPSIZE :: u8 where "SET_STOPSIZE \<equiv> 4"
abbreviation SET_CONTROL :: u8 where "SET_CONTROL \<equiv> 5"
abbreviation SERVER_OFFSET :: u8 where "SERVER_OFFSET \<equiv> 100"

section \<open>State\<close>

record decoded =
  data :: bytes
  reply :: bytes
  notices :: "string list"

definition no_output :: decoded where
  "no_output = \<lparr>data = [], reply = [], notices = []\<rparr>"

datatype tstate = Data | Iac | Negotiate u8 | Sub | SubIac

record telnet =
  tstate :: tstate
  sub :: bytes
  binary_us :: bool
  binary_them :: bool
  sga_us :: bool
  sga_them :: bool
  com_port :: bool

definition telnet_new :: telnet where
  "telnet_new = \<lparr>tstate = Data, sub = [], binary_us = True, binary_them = True,
     sga_us = True, sga_them = True, com_port = True\<rparr>"

definition start :: "telnet \<Rightarrow> bytes" where
  "start t = concat (map (\<lambda>(cmd, opt). [IAC, cmd, opt])
     [(WILL, OPT_BINARY), (DO, OPT_BINARY), (WILL, OPT_SGA), (DO, OPT_SGA), (WILL, OPT_COM_PORT)])"

definition com_port_ok :: "telnet \<Rightarrow> bool" where
  "com_port_ok t = com_port t"

section \<open>Negotiation\<close>

definition known_option :: "u8 \<Rightarrow> bool" where
  "known_option opt \<longleftrightarrow> opt = OPT_BINARY \<or> opt = OPT_SGA \<or> opt = OPT_COM_PORT"

text \<open>The field \<open>&mut self.x_them\<close> or \<open>&mut self.x_us\<close> that \<open>slot\<close> borrows.\<close>

definition slot_them :: "u8 \<Rightarrow> telnet \<Rightarrow> bool" where
  "slot_them opt t = (if opt = OPT_BINARY then binary_them t
     else if opt = OPT_SGA then sga_them t else com_port t)"

definition set_slot_them :: "u8 \<Rightarrow> bool \<Rightarrow> telnet \<Rightarrow> telnet" where
  "set_slot_them opt b t = (if opt = OPT_BINARY then t\<lparr>binary_them := b\<rparr>
     else if opt = OPT_SGA then t\<lparr>sga_them := b\<rparr> else t\<lparr>com_port := b\<rparr>)"

definition slot_us :: "u8 \<Rightarrow> telnet \<Rightarrow> bool" where
  "slot_us opt t = (if opt = OPT_BINARY then binary_us t
     else if opt = OPT_SGA then sga_us t else com_port t)"

definition set_slot_us :: "u8 \<Rightarrow> bool \<Rightarrow> telnet \<Rightarrow> telnet" where
  "set_slot_us opt b t = (if opt = OPT_BINARY then t\<lparr>binary_us := b\<rparr>
     else if opt = OPT_SGA then t\<lparr>sga_us := b\<rparr> else t\<lparr>com_port := b\<rparr>)"

definition negotiate :: "telnet \<Rightarrow> u8 \<Rightarrow> u8 \<Rightarrow> telnet \<times> u8 option" where
  "negotiate t cmd opt =
     (if \<not> known_option opt then
        (t, Some (if cmd = WILL \<or> cmd = WONT then DONT else WONT))
      else if cmd = WILL \<or> cmd = WONT then
        (let agreed = (cmd = WILL) in
         if slot_them opt t = agreed then (t, None)
         else (set_slot_them opt agreed t, Some (if agreed then DO else DONT)))
      else
        (let agreed = (cmd = DO) in
         if slot_us opt t = agreed then (t, None)
         else (set_slot_us opt agreed t, Some (if agreed then WILL else WONT))))"

section \<open>Subnegotiation answers\<close>

text \<open>\<open>u32::from_be_bytes\<close> of four bytes, and \<open>to_be_bytes\<close>.\<close>

definition u32_from_be :: "u8 \<Rightarrow> u8 \<Rightarrow> u8 \<Rightarrow> u8 \<Rightarrow> u32" where
  "u32_from_be a b c d =
     push_bit 24 (ucast a) OR push_bit 16 (ucast b) OR push_bit 8 (ucast c) OR ucast d"

definition u32_to_be :: "u32 \<Rightarrow> bytes" where
  "u32_to_be w = [ucast (drop_bit 24 w), ucast (drop_bit 16 w), ucast (drop_bit 8 w), ucast w]"

definition answer_name :: "u8 \<Rightarrow> string option" where
  "answer_name cmd =
     (if cmd < SERVER_OFFSET then None
      else let c = cmd - SERVER_OFFSET in
        if c = SET_BAUDRATE then Some ''baudrate''
        else if c = SET_DATASIZE then Some ''datasize''
        else if c = SET_PARITY then Some ''parity''
        else if c = SET_STOPSIZE then Some ''stopsize''
        else if c = SET_CONTROL then Some ''control''
        else None)"

definition subnegotiation :: "telnet \<Rightarrow> string option" where
  "subnegotiation t =
     (case sub t of
        [] \<Rightarrow> None
      | opt # rest \<Rightarrow>
          if opt \<noteq> OPT_COM_PORT then None
          else (case rest of
            [] \<Rightarrow> None
          | cmd # params \<Rightarrow>
              (case answer_name cmd of
                 None \<Rightarrow> None
               | Some name \<Rightarrow>
                   (case params of
                      [] \<Rightarrow> None
                    | [a, b, c, d] \<Rightarrow>
                        Some (''peer '' @ name @ '' = '' @ decimal (unat (u32_from_be a b c d)))
                    | p # _ \<Rightarrow>
                        Some (''peer '' @ name @ '' = '' @ decimal (unat (ucast p :: u32)))))))"

section \<open>The decoder\<close>

definition decode_byte :: "u8 \<Rightarrow> telnet \<times> decoded \<Rightarrow> telnet \<times> decoded" where
  "decode_byte b = (\<lambda>(t, out).
     (case tstate t of
        Data \<Rightarrow>
          if b = IAC then (t\<lparr>tstate := Iac\<rparr>, out)
          else (t, out\<lparr>data := data out @ [b]\<rparr>)
      | Iac \<Rightarrow>
          if b = IAC then (t\<lparr>tstate := Data\<rparr>, out\<lparr>data := data out @ [IAC]\<rparr>)
          else if b = WILL \<or> b = WONT \<or> b = DO \<or> b = DONT then (t\<lparr>tstate := Negotiate b\<rparr>, out)
          else if b = SB then (t\<lparr>sub := [], tstate := Sub\<rparr>, out)
          else (t\<lparr>tstate := Data\<rparr>, out)
      | Negotiate cmd \<Rightarrow>
          (case negotiate t cmd b of
             (t', Some r) \<Rightarrow> (t'\<lparr>tstate := Data\<rparr>, out\<lparr>reply := reply out @ [IAC, r, b]\<rparr>)
           | (t', None) \<Rightarrow> (t'\<lparr>tstate := Data\<rparr>, out))
      | Sub \<Rightarrow>
          if b = IAC then (t\<lparr>tstate := SubIac\<rparr>, out)
          else (t\<lparr>sub := sub t @ [b]\<rparr>, out)
      | SubIac \<Rightarrow>
          if b = IAC then (t\<lparr>sub := sub t @ [IAC], tstate := Sub\<rparr>, out)
          else if b = SE then
            (t\<lparr>sub := [], tstate := Data\<rparr>,
             case subnegotiation t of
               Some n \<Rightarrow> out\<lparr>notices := notices out @ [n]\<rparr>
             | None \<Rightarrow> out)
          else (t\<lparr>sub := [], tstate := Data\<rparr>, out)))"

definition decode_from :: "telnet \<times> decoded \<Rightarrow> bytes \<Rightarrow> telnet \<times> decoded" where
  "decode_from s input = fold decode_byte input s"

definition decode :: "telnet \<Rightarrow> bytes \<Rightarrow> telnet \<times> decoded" where
  "decode t input = decode_from (t, no_output) input"

section \<open>Framing outbound bytes\<close>

definition escape :: "bytes \<Rightarrow> bytes" where
  "escape d = (if IAC \<notin> set d then d
     else concat (map (\<lambda>b. if b = IAC then [b, IAC] else [b]) d))"

definition subneg :: "u8 \<Rightarrow> bytes \<Rightarrow> bytes" where
  "subneg cmd params = [IAC, SB, OPT_COM_PORT, cmd] @ escape params @ [IAC, SE]"


section \<open>Splitting the input\<close>

definition merge :: "decoded \<Rightarrow> decoded \<Rightarrow> decoded" where
  "merge a b = \<lparr>data = data a @ data b, reply = reply a @ reply b, notices = notices a @ notices b\<rparr>"

lemma merge_simps [simp]:
  "merge no_output a = a" "merge a no_output = a" "merge (merge a b) c = merge a (merge b c)"
  "data (merge a b) = data a @ data b" "reply (merge a b) = reply a @ reply b"
  "notices (merge a b) = notices a @ notices b"
  by (simp_all add: merge_def no_output_def)

lemma no_output_simps [simp]:
  "data no_output = []" "reply no_output = []" "notices no_output = []"
  by (simp_all add: no_output_def)

lemma decode_byte_out:
  "decode_byte b (t, out) = apsnd (merge out) (decode_byte b (t, no_output))"
  by (cases "tstate t")
     (auto simp: decode_byte_def merge_def no_output_def split: option.splits prod.splits)

lemma decode_from_out: "decode_from (t, out) xs = apsnd (merge out) (decode t xs)"
proof (induction xs arbitrary: t out)
  case Nil
  then show ?case by (simp add: decode_def decode_from_def)
next
  case (Cons b xs)
  obtain t' o' where s: "decode_byte b (t, no_output) = (t', o')" by fastforce
  then have "decode_from (t, out) (b # xs) = decode_from (t', merge out o') xs"
    by (simp add: decode_from_def decode_byte_out [of b t out])
  moreover have "decode t (b # xs) = decode_from (t', o') xs"
    by (simp add: decode_def decode_from_def s)
  ultimately show ?case
    using Cons.IH [of t' o'] Cons.IH [of t' "merge out o'"] by (cases "decode t' xs") simp
qed

lemma decode_Nil [simp]: "decode t [] = (t, no_output)"
  by (simp add: decode_def decode_from_def)

lemma decode_Cons [step_simps]:
  "decode t (b # xs) =
     (case decode_byte b (t, no_output) of (t', o') \<Rightarrow> apsnd (merge o') (decode t' xs))"
proof -
  obtain t' o' where s: "decode_byte b (t, no_output) = (t', o')" by fastforce
  then have "decode t (b # xs) = decode_from (t', o') xs"
    by (simp add: decode_def decode_from_def)
  with s show ?thesis by (simp add: decode_from_out)
qed

lemma decode_append [run_append]:
  "decode t (xs @ ys) = (case decode t xs of (t', o') \<Rightarrow> apsnd (merge o') (decode t' ys))"
proof -
  obtain t' o' where s: "decode t xs = (t', o')" by fastforce
  then have "decode t (xs @ ys) = decode_from (t', o') ys"
    by (simp add: decode_def decode_from_def)
  with s show ?thesis by (simp add: decode_from_out)
qed

interpretation codec: chunked "\<lambda>t xs. Some (decode t xs)" no_output merge
  by unfold_locales (auto simp: decode_append split: prod.splits)

section \<open>Well-formed codec states\<close>

text \<open>Between subnegotiations the buffer is empty, so nothing of one leaks into the next.\<close>

definition telnet_wf :: "telnet \<Rightarrow> bool" where
  "telnet_wf t \<longleftrightarrow> (tstate t = Sub \<or> tstate t = SubIac \<or> sub t = [])"

lemma negotiate_frame [simp]:
  "negotiate t cmd opt = (t', r) \<Longrightarrow> tstate t' = tstate t \<and> sub t' = sub t"
  by (auto simp: negotiate_def Let_def set_slot_them_def set_slot_us_def split: if_splits)

lemma telnet_wf_new [wf_intros]: "telnet_wf telnet_new"
  by (simp add: telnet_wf_def telnet_new_def)

lemma telnet_wf_decode_byte [wf_intros]:
  "telnet_wf t \<Longrightarrow> telnet_wf (fst (decode_byte b (t, out)))"
  by (cases "tstate t")
     (auto simp: telnet_wf_def decode_byte_def split: option.splits prod.splits dest: negotiate_frame)

lemma telnet_wf_decode [wf_intros]: "telnet_wf t \<Longrightarrow> telnet_wf (fst (decode t xs))"
proof (induction xs arbitrary: t)
  case Nil
  then show ?case by simp
next
  case (Cons b xs)
  from telnet_wf_decode_byte [OF Cons.prems, of b no_output] Cons.IH show ?case
    by (auto simp: decode_Cons split: prod.splits)
qed

section \<open>Frames\<close>

text \<open>
  What a telnet peer may send between two data bytes, as an abstract grammar: a run of payload,
  one negotiation, one subnegotiation.  \<open>encode_frame\<close> is its wire form, \<open>interp_frame\<close> what
  it means to the receiver.  Everything the program itself puts on the socket is a sequence of
  such frames.
\<close>

datatype frame = Payload bytes | Negotiation u8 u8 | Subnegotiation bytes

primrec frame_ok :: "frame \<Rightarrow> bool" where
  "frame_ok (Payload d) = True"
| "frame_ok (Negotiation cmd opt) = (cmd = WILL \<or> cmd = WONT \<or> cmd = DO \<or> cmd = DONT)"
| "frame_ok (Subnegotiation bs) = True"

primrec encode_frame :: "frame \<Rightarrow> bytes" where
  "encode_frame (Payload d) = escape d"
| "encode_frame (Negotiation cmd opt) = [IAC, cmd, opt]"
| "encode_frame (Subnegotiation bs) = [IAC, SB] @ escape bs @ [IAC, SE]"

primrec interp_frame :: "frame \<Rightarrow> telnet \<Rightarrow> telnet \<times> decoded" where
  "interp_frame (Payload d) t = (t, no_output\<lparr>data := d\<rparr>)"
| "interp_frame (Negotiation cmd opt) t =
     (case negotiate t cmd opt of
        (t', Some r) \<Rightarrow> (t', no_output\<lparr>reply := [IAC, r, opt]\<rparr>)
      | (t', None) \<Rightarrow> (t', no_output))"
| "interp_frame (Subnegotiation bs) t =
     (t, case subnegotiation (t\<lparr>sub := bs\<rparr>) of
           Some n \<Rightarrow> no_output\<lparr>notices := [n]\<rparr>
         | None \<Rightarrow> no_output)"

primrec interp_frames :: "frame list \<Rightarrow> telnet \<Rightarrow> telnet \<times> decoded" where
  "interp_frames [] t = (t, no_output)"
| "interp_frames (f # fs) t =
     (case interp_frame f t of (t', o') \<Rightarrow> apsnd (merge o') (interp_frames fs t'))"

primrec payload :: "frame \<Rightarrow> bytes" where
  "payload (Payload d) = d"
| "payload (Negotiation cmd opt) = []"
| "payload (Subnegotiation bs) = []"

lemma escape_eq: "escape d = concat (map (\<lambda>b. if b = IAC then [b, IAC] else [b]) d)"
proof (cases "IAC \<in> set d")
  case True
  then show ?thesis by (simp add: escape_def)
next
  case False
  then have m: "map (\<lambda>b. if b = IAC then [b, IAC] else [b]) d = map (\<lambda>b. [b]) d"
    by (auto intro!: map_cong)
  show ?thesis
    unfolding m using False by (simp add: escape_def concat_map_singleton)
qed

lemma escape_simps [simp]:
  "escape [] = []"
  "escape (b # d) = (if b = IAC then [IAC, IAC] else [b]) @ escape d"
  "escape (d @ e) = escape d @ escape e"
  by (auto simp: escape_eq)

lemma length_escape: "length (escape d) = length d + count_list d IAC"
  by (induction d) auto

lemma decode_escape:
  "tstate t = Data \<Longrightarrow> decode t (escape d) = (t, no_output\<lparr>data := d\<rparr>)"
proof (induction d)
  case Nil
  then show ?case by (simp add: no_output_def)
next
  case (Cons b d)
  have self: "t\<lparr>tstate := Data\<rparr> = t" using Cons.prems by simp
  from Cons show ?case
    by (auto simp: decode_Cons decode_byte_def no_output_def merge_def self)
qed

lemma decode_sub_body:
  "tstate t = Sub \<Longrightarrow> decode t (escape bs) = (t\<lparr>sub := sub t @ bs\<rparr>, no_output)"
proof (induction bs arbitrary: t)
  case Nil
  then show ?case by simp
next
  case (Cons b bs)
  have "decode (t\<lparr>sub := sub t @ [b]\<rparr>) (escape bs) = (t\<lparr>sub := sub t @ b # bs\<rparr>, no_output)"
    using Cons.IH [of "t\<lparr>sub := sub t @ [b]\<rparr>"] Cons.prems by simp
  moreover have self: "t\<lparr>sub := sub t @ [IAC], tstate := Sub\<rparr> = t\<lparr>sub := sub t @ [IAC]\<rparr>"
    using Cons.prems by simp
  ultimately show ?case
    using Cons.prems by (auto simp: decode_Cons decode_byte_def self)
qed

lemma slot_tstate [simp]:
  "slot_them opt (t\<lparr>tstate := s\<rparr>) = slot_them opt t"
  "slot_us opt (t\<lparr>tstate := s\<rparr>) = slot_us opt t"
  "set_slot_them opt b (t\<lparr>tstate := s\<rparr>) = (set_slot_them opt b t)\<lparr>tstate := s\<rparr>"
  "set_slot_us opt b (t\<lparr>tstate := s\<rparr>) = (set_slot_us opt b t)\<lparr>tstate := s\<rparr>"
  by (simp_all add: slot_them_def slot_us_def set_slot_them_def set_slot_us_def)

lemma negotiate_tstate:
  "negotiate (t\<lparr>tstate := s\<rparr>) cmd opt = apfst (\<lambda>u. u\<lparr>tstate := s\<rparr>) (negotiate t cmd opt)"
  by (simp add: negotiate_def Let_def)

lemma negotiate_back:
  assumes "negotiate t cmd opt = (t', r)" "tstate t = Data"
  shows "t'\<lparr>tstate := Data\<rparr> = t'"
proof -
  from assms negotiate_frame have "tstate t' = Data" by metis
  then show ?thesis by simp
qed

lemma decode_frame:
  assumes "tstate t = Data" "sub t = []" "frame_ok f"
  shows "decode t (encode_frame f) = interp_frame f t"
proof (cases f)
  case (Payload d)
  with assms show ?thesis by (simp add: decode_escape)
next
  case (Negotiation cmd opt)
  obtain t' r where n: "negotiate t cmd opt = (t', r)" by fastforce
  with Negotiation assms negotiate_back [OF n] show ?thesis
    by (auto simp: decode_Cons decode_byte_def no_output_def negotiate_tstate split: option.splits)
next
  case (Subnegotiation bs)
  let ?s = "t\<lparr>tstate := Sub\<rparr>"
  have o: "decode t [IAC, SB] = (?s, no_output)"
    using assms by (simp add: decode_Cons decode_byte_def)
  have b: "decode ?s (escape bs) = (?s\<lparr>sub := bs\<rparr>, no_output)"
    using decode_sub_body [of ?s bs] assms by simp
  have m: "subnegotiation (t\<lparr>sub := bs, tstate := SubIac\<rparr>) = subnegotiation (t\<lparr>sub := bs\<rparr>)"
    by (simp add: subnegotiation_def)
  have "decode (?s\<lparr>sub := bs\<rparr>) [IAC, SE] = interp_frame f t"
    using assms Subnegotiation m
    by (auto simp: decode_Cons decode_byte_def no_output_def split: option.splits)
  with o b Subnegotiation show ?thesis
    using decode_append [of t "[IAC, SB]" "escape bs @ [IAC, SE]"] by (simp add: decode_append)
qed

lemma interp_frame_keeps:
  "interp_frame f t = (t', o') \<Longrightarrow> tstate t' = tstate t \<and> sub t' = sub t \<and> data o' = payload f"
  by (cases f) (auto split: prod.splits option.splits dest: negotiate_frame)

lemma decode_frames:
  assumes "tstate t = Data" "sub t = []" "list_all frame_ok fs"
  shows "decode t (concat (map encode_frame fs)) = interp_frames fs t"
  using assms
proof (induction fs arbitrary: t)
  case Nil
  then show ?case by simp
next
  case (Cons f fs)
  obtain t' o' where f: "interp_frame f t = (t', o')" by fastforce
  with interp_frame_keeps Cons.prems have "tstate t' = Data" "sub t' = []" by fastforce+
  with Cons f show ?case
    by (simp add: decode_append decode_frame)
qed

lemma data_interp_frames: "data (snd (interp_frames fs t)) = concat (map payload fs)"
  by (induction fs arbitrary: t) (auto split: prod.splits dest: interp_frame_keeps)

section \<open>How negotiation settles\<close>

lemma slot_set [simp]:
  "slot_them opt (set_slot_them opt b t) = b"
  "slot_us opt (set_slot_us opt b t) = b"
  by (simp_all add: slot_them_def slot_us_def set_slot_them_def set_slot_us_def)

lemma set_slot_neq:
  "slot_them opt t \<noteq> b \<Longrightarrow> set_slot_them opt b t \<noteq> t"
  "slot_us opt t \<noteq> b \<Longrightarrow> set_slot_us opt b t \<noteq> t"
  by (metis slot_set(1)) (metis slot_set(2))

text \<open>The four shapes of a request for an option the codec knows.\<close>

lemma negotiate_offer [step_simps]:
  "known_option opt \<Longrightarrow> negotiate t WILL opt =
     (if slot_them opt t then (t, None) else (set_slot_them opt True t, Some DO))"
  "known_option opt \<Longrightarrow> negotiate t WONT opt =
     (if slot_them opt t then (set_slot_them opt False t, Some DONT) else (t, None))"
  by (simp_all add: negotiate_def)

lemma negotiate_request [step_simps]:
  "known_option opt \<Longrightarrow> negotiate t DO opt =
     (if slot_us opt t then (t, None) else (set_slot_us opt True t, Some WILL))"
  "known_option opt \<Longrightarrow> cmd \<noteq> WILL \<Longrightarrow> cmd \<noteq> WONT \<Longrightarrow> cmd \<noteq> DO \<Longrightarrow> negotiate t cmd opt =
     (if slot_us opt t then (set_slot_us opt False t, Some WONT) else (t, None))"
  by (simp_all add: negotiate_def)

lemma negotiate_DONT [step_simps]:
  "known_option opt \<Longrightarrow> negotiate t DONT opt =
     (if slot_us opt t then (set_slot_us opt False t, Some WONT) else (t, None))"
  by (simp add: negotiate_def)

lemma negotiate_unknown [step_simps]:
  "\<not> known_option opt \<Longrightarrow> negotiate t cmd opt = (t, Some (if cmd = WILL \<or> cmd = WONT then DONT else WONT))"
  by (simp add: negotiate_def)

lemma negotiate_cases:
  obtains "cmd = WILL" | "cmd = WONT" | "cmd = DO" | "cmd \<noteq> WILL" "cmd \<noteq> WONT" "cmd \<noteq> DO"
  by blast

lemma negotiate_silent:
  "known_option opt \<Longrightarrow> negotiate t cmd opt = (t', None) \<Longrightarrow> t' = t"
  by (cases rule: negotiate_cases [of cmd]) (simp_all add: step_simps split: if_splits)

lemma negotiate_changes:
  assumes "known_option opt" "negotiate t cmd opt = (t', Some r)"
  shows "t' \<noteq> t"
  using assms
  by (cases rule: negotiate_cases [of cmd]) (auto simp: step_simps set_slot_neq split: if_splits)

text \<open>
  Two endpoints that run this codec, and one request \<open>cmd opt\<close> in flight towards the first:
  \<open>bounce\<close> lets each answer the other until one stays silent, and counts the answers.
  \<open>None\<close>: the fuel was not enough.
\<close>

fun bounce :: "nat \<Rightarrow> telnet \<Rightarrow> telnet \<Rightarrow> u8 \<Rightarrow> u8 \<Rightarrow> nat option" where
  "bounce 0 a b cmd opt = None"
| "bounce (Suc n) a b cmd opt =
     (case negotiate a cmd opt of
        (a', None) \<Rightarrow> Some 0
      | (a', Some r) \<Rightarrow> map_option Suc (bounce n b a' r opt))"

lemma negotiate_idem:
  "known_option opt \<Longrightarrow> negotiate (fst (negotiate t cmd opt)) cmd opt = (fst (negotiate t cmd opt), None)"
  by (cases rule: negotiate_cases [of cmd]) (simp_all add: step_simps)

lemma u32_be_roundtrip:
  "u32_from_be (ucast (drop_bit 24 w)) (ucast (drop_bit 16 w)) (ucast (drop_bit 8 w)) (ucast w) = w"
proof (rule bit_word_eqI)
  fix n
  assume "n < LENGTH(32)"
  then show "bit (u32_from_be (ucast (drop_bit 24 w)) (ucast (drop_bit 16 w)) (ucast (drop_bit 8 w)) (ucast w)) n
    = bit w n"
    by (cases "n < 8"; cases "n < 16"; cases "n < 24") (auto simp: u32_from_be_def bit_simps)
qed

lemma subneg_frame:
  "cmd \<noteq> IAC \<Longrightarrow> subneg cmd ps = encode_frame (Subnegotiation (OPT_COM_PORT # cmd # ps))"
  by (simp add: subneg_def)

lemma answer_name_not_IAC: "answer_name cmd = Some name \<Longrightarrow> cmd \<noteq> IAC"
  by (auto simp: answer_name_def)

lemma subnegotiation_u32:
  "answer_name cmd = Some name \<Longrightarrow>
   subnegotiation (t\<lparr>sub := OPT_COM_PORT # cmd # u32_to_be w\<rparr>) =
     Some (''peer '' @ name @ '' = '' @ decimal (unat w))"
  by (simp add: subnegotiation_def u32_to_be_def u32_be_roundtrip)

lemma start_frames:
  "start t = concat (map encode_frame
     [Negotiation WILL OPT_BINARY, Negotiation DO OPT_BINARY, Negotiation WILL OPT_SGA,
      Negotiation DO OPT_SGA, Negotiation WILL OPT_COM_PORT])"
  by (simp add: start_def)

section \<open>Properties\<close>

text \<open>
  A TCP read may split the peer's stream anywhere, also between IAC and its command byte:
  feeding the pieces one after the other gives the data, the replies, the notices and the final
  codec state of one call on the whole.
\<close>

theorem decode_any_boundaries:
  "run_chunks (\<lambda>t xs. Some (decode t xs)) no_output merge t reads = Some (decode t (concat reads))"
  by (rule codec.chunks_concat)

text \<open>
  (C1) Decoding inverts framing.  Whatever well-formed mix of payload, negotiations and
  subnegotiations a peer frames (payload and parameters escaped, any byte values), the decoder
  interprets exactly those frames, and the bytes it hands to the port are the payloads,
  concatenated: no byte of a command leaks into the data and no data byte is lost or doubled.
\<close>

theorem decoding_inverts_framing:
  assumes "tstate t = Data" and "sub t = []" and "list_all frame_ok fs"
  shows "decode t (concat (map encode_frame fs)) = interp_frames fs t \<and>
    data (snd (decode t (concat (map encode_frame fs)))) = concat (map payload fs)"
  using decode_frames [OF assms] by (simp add: data_interp_frames)

theorem decoding_inverts_framing_witness:
  "data (snd (decode telnet_new (concat (map encode_frame
       [Payload [0, 255, 65], Negotiation DO 44, Payload [255], Subnegotiation [44, 101, 0, 0, 225, 255]]))))
     = [0, 255, 65, 255]"
proof -
  let ?fs = "[Payload [0, 255, 65], Negotiation DO 44, Payload [255], Subnegotiation [44, 101, 0, 0, 225, 255]]"
  have "tstate telnet_new = Data" "sub telnet_new = []" "list_all frame_ok ?fs"
    by (simp_all add: telnet_new_def)
  from decoding_inverts_framing [OF this]
  have "data (snd (decode telnet_new (concat (map encode_frame ?fs)))) = concat (map payload ?fs)"
    by blast
  also have "\<dots> = [0, 255, 65, 255]" by simp
  finally show ?thesis .
qed

text \<open>
  (C33) Acknowledgements are never acknowledged: for an option the codec knows, whatever state
  two endpoints of this codec are in and whatever request is in flight, at most two answers
  follow and then both are silent.
\<close>

theorem negotiation_settles:
  assumes "known_option opt"
  shows "\<exists>k \<le> 2. bounce 3 a b cmd opt = Some k"
proof -
  note eval = bounce.simps step_simps numeral_3_eq_3 numeral_2_eq_2
  show ?thesis
    by (cases rule: negotiate_cases [of cmd]) (use assms in \<open>auto simp: eval\<close>)
qed

theorem negotiation_settles_witness:
  "known_option OPT_BINARY \<and>
   (\<exists>k \<le> 2. bounce 3 (telnet_new\<lparr>binary_them := False\<rparr>) (telnet_new\<lparr>binary_us := False\<rparr>) WILL OPT_BINARY = Some k)"
  using negotiation_settles [of OPT_BINARY "telnet_new\<lparr>binary_them := False\<rparr>" "telnet_new\<lparr>binary_us := False\<rparr>" WILL]
  by (simp add: known_option_def)

text \<open>
  For an option the codec does not know there is no such bound: a refusal (WONT or DONT)
  is itself answered with a refusal, so two endpoints of this codec exchange them forever.
\<close>

theorem unknown_option_never_settles:
  assumes "\<not> known_option opt"
  shows "bounce n a b cmd opt = None"
  using assms by (induction n arbitrary: a b cmd) (simp_all add: step_simps)

theorem unknown_option_never_settles_witness:
  "\<not> known_option 24 \<and> bounce 1000 telnet_new telnet_new WILL 24 = None"
  using unknown_option_never_settles [of 24 1000 telnet_new telnet_new WILL]
  by (simp add: known_option_def)

text \<open>
  A server's four-byte answer to any of the five settings is reported with its value, for
  every value: the escaping of 0xFF inside the big-endian number is undone, nothing else is
  emitted and the codec is ready for data again.
\<close>

theorem answers_are_reported:
  assumes "tstate t = Data" and "sub t = []" and "answer_name cmd = Some name"
  shows "decode t (subneg cmd (u32_to_be w)) =
    (t, no_output\<lparr>notices := [''peer '' @ name @ '' = '' @ decimal (unat w)]\<rparr>)"
  using decode_frame [OF assms(1,2), of "Subnegotiation (OPT_COM_PORT # cmd # u32_to_be w)"]
  by (simp add: subneg_frame answer_name_not_IAC [OF assms(3)] subnegotiation_u32 [OF assms(3)])

theorem answers_are_reported_witness:
  "tstate telnet_new = Data \<and> sub telnet_new = [] \<and> answer_name 101 = Some ''baudrate'' \<and>
   decode telnet_new (subneg 101 (u32_to_be 16711680)) =
     (telnet_new, no_output\<lparr>notices := [''peer '' @ ''baudrate'' @ '' = '' @ decimal (unat (16711680 :: u32))]\<rparr>)"
proof -
  have h: "tstate telnet_new = Data" "sub telnet_new = []" "answer_name 101 = Some ''baudrate''"
    by (simp_all add: telnet_new_def answer_name_def)
  show ?thesis using h answers_are_reported [OF h, of 16711680] by blast
qed

end
