(* ===== verification/Serial.thy ===== *)
theory Serial
  imports Failure Utf8
begin

unbundle bit_operations_syntax

text \<open>
  The C library's terminal interface as the program uses it, and the real serial port of
  \<open>src/forge/serial.rs\<close> on top of it: the baud tables, \<open>configure\<close> and \<open>SerialPort::open\<close>.

  The libc crate is outside the repository, so its constants and functions are the fields of
  a record \<open>libc\<close> that every definition takes as an argument; what the code relies on is
  stated as predicates on that record (\<open>codes_ok\<close>, \<open>speeds_ok\<close>, \<open>raw_ok\<close>), each the documented
  behaviour of termios(3).  \<open>linux_libc\<close> is one concrete record, with the numbers of the
  Linux headers, at which the witnesses evaluate.
\<close>

section \<open>The terminal interface\<close>

type_synonym flags = u64
type_synonym speed = u64

record termios =
  c_iflag :: flags
  c_oflag :: flags
  c_cflag :: flags
  c_lflag :: flags
  c_cc :: "nat \<Rightarrow> u8"
  c_ispeed :: speed
  c_ospeed :: speed

record libc =
  ICANON :: flags
  ECHO :: flags
  ICRNL :: flags
  ONLCR :: flags
  OPOST :: flags
  IXON :: flags
  IXOFF :: flags
  CSIZE :: flags
  CS5 :: flags
  CS6 :: flags
  CS7 :: flags
  PARENB :: flags
  PARODD :: flags
  CSTOPB :: flags
  CRTSCTS :: flags
  CLOCAL :: flags
  CREAD :: flags
  VMIN :: nat
  VTIME :: nat
  speed_code :: "u32 \<Rightarrow> speed"
  target_linux :: bool
  cfmakeraw :: "termios \<Rightarrow> termios"
  cfgetispeed :: "termios \<Rightarrow> speed"
  cfgetospeed :: "termios \<Rightarrow> speed"
  cfsetispeed :: "termios \<Rightarrow> speed \<Rightarrow> termios"
  cfsetospeed :: "termios \<Rightarrow> speed \<Rightarrow> termios"

section \<open>Baud rates and speed codes\<close>

text \<open>
  \<open>COMMON\<close> and \<open>EXTRA\<close> pair \<open>libc::B<rate>\<close> with the rate; \<open>speed_code lc rate\<close> is that
  constant.
\<close>

definition COMMON :: "libc \<Rightarrow> (speed \<times> u32) list" where
  "COMMON lc = map (\<lambda>r. (speed_code lc r, r))
     [0, 50, 75, 110, 134, 150, 200, 300, 600, 1200, 1800, 2400, 4800, 9600, 19200, 38400,
      57600, 115200, 230400]"

definition EXTRA :: "libc \<Rightarrow> (speed \<times> u32) list" where
  "EXTRA lc = (if target_linux lc then
     map (\<lambda>r. (speed_code lc r, r))
       [460800, 500000, 576000, 921600, 1000000, 1152000, 1500000, 2000000]
     else [])"

definition baud_of :: "libc \<Rightarrow> speed \<Rightarrow> u32" where
  "baud_of lc speed =
     (case find (\<lambda>(code, _). code = speed) (COMMON lc @ EXTRA lc) of
        Some (_, baud) \<Rightarrow> baud
      | None \<Rightarrow> ucast speed)"

definition speed_of :: "libc \<Rightarrow> u32 \<Rightarrow> speed option" where
  "speed_of lc baud =
     (case find (\<lambda>(_, b). b = baud) (COMMON lc @ EXTRA lc) of
        Some (code, _) \<Rightarrow> Some code
      | None \<Rightarrow> if target_linux lc then None else Some (ucast baud))"

definition check_baud :: "libc \<Rightarrow> u32 \<Rightarrow> bool" where
  "check_baud lc baud \<longleftrightarrow> speed_of lc baud \<noteq> None"

definition rates :: "libc \<Rightarrow> u32 set" where
  "rates lc = snd ` set (COMMON lc @ EXTRA lc)"

text \<open>
  What the tables rely on: Linux gives every rate a code of its own, the BSDs use the rate as
  its code.
\<close>

definition codes_ok :: "libc \<Rightarrow> bool" where
  "codes_ok lc \<longleftrightarrow>
     (if target_linux lc then inj_on (speed_code lc) (rates lc)
      else (\<forall>r \<in> rates lc. speed_code lc r = ucast r))"

lemma table_map:
  "COMMON lc @ EXTRA lc = map (\<lambda>r. (speed_code lc r, r)) (map snd (COMMON lc @ EXTRA lc))"
  by (simp add: COMMON_def EXTRA_def)

lemma table_codes: "(code, r) \<in> set (COMMON lc @ EXTRA lc) \<longleftrightarrow> r \<in> rates lc \<and> code = speed_code lc r"
proof -
  have "(code, r) \<in> set (COMMON lc @ EXTRA lc) \<longleftrightarrow>
      (code, r) \<in> (\<lambda>r. (speed_code lc r, r)) ` set (map snd (COMMON lc @ EXTRA lc))"
    by (subst table_map) (simp only: set_map)
  also have "\<dots> \<longleftrightarrow> r \<in> rates lc \<and> code = speed_code lc r"
    unfolding rates_def set_map by blast
  finally show ?thesis .
qed

lemma find_Some_mem: "find P xs = Some x \<Longrightarrow> x \<in> set xs \<and> P x"
  by (metis find_Some_iff nth_mem)

lemma find_None_mem: "find P xs = None \<Longrightarrow> x \<in> set xs \<Longrightarrow> \<not> P x"
  by (metis find_None_iff)

lemma speed_of_listed: "r \<in> rates lc \<Longrightarrow> speed_of lc r = Some (speed_code lc r)"
proof -
  assume r: "r \<in> rates lc"
  then have m: "(speed_code lc r, r) \<in> set (COMMON lc @ EXTRA lc)" by (simp only: table_codes)
  show ?thesis
  proof (cases "find (\<lambda>(_, b). b = r) (COMMON lc @ EXTRA lc)")
    case None
    with find_None_mem [OF None m] show ?thesis by simp
  next
    case (Some p)
    obtain code b where p: "p = (code, b)" by fastforce
    from find_Some_mem [OF Some] p have "(code, b) \<in> set (COMMON lc @ EXTRA lc)" "b = r" by auto
    then have "code = speed_code lc r" by (simp only: table_codes)
    with Some p show ?thesis by (simp add: speed_of_def)
  qed
qed

lemma speed_of_unlisted:
  "r \<notin> rates lc \<Longrightarrow> speed_of lc r = (if target_linux lc then None else Some (ucast r))"
proof -
  assume r: "r \<notin> rates lc"
  have "find (\<lambda>(_, b). b = r) (COMMON lc @ EXTRA lc) = None"
    unfolding find_None_iff using r unfolding rates_def by force
  then show ?thesis by (simp add: speed_of_def)
qed

lemma ucast_back: "ucast (ucast (a :: u32) :: u64) = a"
  by (rule bit_word_eqI) (simp add: bit_simps)

lemma ucast_u32_u64_inj: "(ucast (a :: u32) :: u64) = ucast b \<Longrightarrow> a = b"
  by (metis ucast_back)

lemma baud_of_code:
  assumes "codes_ok lc" "r \<in> rates lc"
  shows "baud_of lc (speed_code lc r) = r"
proof (cases "find (\<lambda>(code, _). code = speed_code lc r) (COMMON lc @ EXTRA lc)")
  case None
  moreover have "(speed_code lc r, r) \<in> set (COMMON lc @ EXTRA lc)"
    using assms(2) by (simp only: table_codes)
  ultimately show ?thesis using find_None_mem [OF None] by fastforce
next
  case (Some p)
  obtain code b where p: "p = (code, b)" by fastforce
  from find_Some_mem [OF Some] p
  have "(code, b) \<in> set (COMMON lc @ EXTRA lc)" and c: "code = speed_code lc r" by auto
  then have b: "b \<in> rates lc" "speed_code lc b = speed_code lc r"
    by (simp_all only: table_codes)
  have "b = r"
    using assms b
    by (cases "target_linux lc") (auto simp: codes_ok_def inj_on_def dest: ucast_u32_u64_inj)
  with Some p show ?thesis by (simp add: baud_of_def)
qed

lemma baud_of_unlisted_bsd:
  assumes "codes_ok lc" "\<not> target_linux lc" "r \<notin> rates lc"
  shows "baud_of lc (ucast r) = r"
proof -
  have "find (\<lambda>(code, _). code = ucast r) (COMMON lc @ EXTRA lc) = None"
  proof (rule ccontr)
    assume "find (\<lambda>(code, _). code = ucast r) (COMMON lc @ EXTRA lc) \<noteq> None"
    then obtain code b where "find (\<lambda>(code, _). code = ucast r) (COMMON lc @ EXTRA lc) = Some (code, b)"
      by fastforce
    from find_Some_mem [OF this] have "(code, b) \<in> set (COMMON lc @ EXTRA lc)" "code = ucast r" by auto
    then have "b \<in> rates lc" "speed_code lc b = ucast r" by (simp_all only: table_codes)
    with assms show False by (auto simp: codes_ok_def dest: ucast_u32_u64_inj)
  qed
  then show ?thesis by (simp add: baud_of_def ucast_back)
qed

section \<open>Configuring the device\<close>

text \<open>
  \<open>cooked\<close> is the test of \<open>VirtualPort::reassert\<close> (\<open>src/forge/pty.rs\<close>): canonical input or
  echo, CR/NL rewriting in either direction.  \<open>raw_ok\<close> is what termios(3) documents of
  \<open>cfmakeraw\<close>: it clears canonical mode, echo and ICRNL, and of the output flags OPOST alone.
  \<open>speeds_ok\<close>: a speed code that was set is read back, and setting a speed touches neither the
  discipline nor the control characters nor the two line flags \<open>configure\<close> sets.
\<close>

definition cooked :: "libc \<Rightarrow> termios \<Rightarrow> bool" where
  "cooked lc tio \<longleftrightarrow>
     c_lflag tio AND (ICANON lc OR ECHO lc) \<noteq> 0 \<or>
     c_iflag tio AND ICRNL lc \<noteq> 0 \<or>
     c_oflag tio AND ONLCR lc \<noteq> 0"

definition raw_ok :: "libc \<Rightarrow> bool" where
  "raw_ok lc \<longleftrightarrow> OPOST lc AND ONLCR lc = 0 \<and>
     (\<forall>tio. c_lflag (cfmakeraw lc tio) AND (ICANON lc OR ECHO lc) = 0 \<and>
            c_iflag (cfmakeraw lc tio) AND ICRNL lc = 0 \<and>
            c_oflag (cfmakeraw lc tio) = c_oflag tio AND NOT (OPOST lc))"

definition line_flags :: "libc \<Rightarrow> termios \<Rightarrow> flags" where
  "line_flags lc tio = c_cflag tio AND (CLOCAL lc OR CREAD lc)"

definition discipline :: "libc \<Rightarrow> termios \<Rightarrow> flags \<times> flags \<times> flags" where
  "discipline lc tio = (c_lflag tio, c_iflag tio AND ICRNL lc, c_oflag tio)"

definition speeds_ok :: "libc \<Rightarrow> bool" where
  "speeds_ok lc \<longleftrightarrow>
     (\<forall>tio. \<forall>r \<in> rates lc. cfgetospeed lc (cfsetospeed lc tio (speed_code lc r)) = speed_code lc r) \<and>
     (\<forall>tio s. discipline lc (cfsetispeed lc tio s) = discipline lc tio \<and>
        discipline lc (cfsetospeed lc tio s) = discipline lc tio) \<and>
     (\<forall>tio s. c_cc (cfsetispeed lc tio s) = c_cc tio \<and> c_cc (cfsetospeed lc tio s) = c_cc tio) \<and>
     (\<forall>tio. \<forall>r \<in> rates lc. line_flags lc (cfsetispeed lc tio (speed_code lc r)) = line_flags lc tio \<and>
        line_flags lc (cfsetospeed lc tio (speed_code lc r)) = line_flags lc tio)"

text \<open>
  A terminal as the two system calls see it: its attributes, the errno each call would fail
  with, and what the driver makes of a request (\<open>tcsetattr\<close> succeeds even when the driver
  refuses a part of it).
\<close>

record tty =
  attrs :: termios
  get_err :: "nat option"
  set_err :: "nat option"
  driver :: "termios \<Rightarrow> termios"

definition tcgetattr :: "tty \<Rightarrow> nat + termios" where
  "tcgetattr d = (case get_err d of None \<Rightarrow> Inr (attrs d) | Some e \<Rightarrow> Inl e)"

definition tcsetattr :: "tty \<Rightarrow> termios \<Rightarrow> nat + tty" where
  "tcsetattr d tio = (case set_err d of None \<Rightarrow> Inr (d\<lparr>attrs := driver d tio\<rparr>) | Some e \<Rightarrow> Inl e)"

text \<open>The attributes \<open>configure\<close> asks the driver for.\<close>

definition raw_at :: "libc \<Rightarrow> termios \<Rightarrow> speed \<Rightarrow> termios" where
  "raw_at lc tio speed =
     (let tio = cfmakeraw lc tio;
          tio = tio\<lparr>c_cflag := c_cflag tio OR (CLOCAL lc OR CREAD lc)\<rparr>;
          tio = tio\<lparr>c_cc := (c_cc tio)(VMIN lc := 0)\<rparr>;
          tio = tio\<lparr>c_cc := (c_cc tio)(VTIME lc := 0)\<rparr>;
          tio = cfsetispeed lc tio speed
      in cfsetospeed lc tio speed)"

text \<open>
  \<open>configure\<close>: the configured device and whether the read-back differed from the request
  (the warning), or the error of the call that failed.
\<close>

definition configure :: "libc \<Rightarrow> rstring \<Rightarrow> tty \<Rightarrow> speed \<Rightarrow> error + (tty \<times> bool)" where
  "configure lc path d speed =
     (case tcgetattr d of
        Inl e \<Rightarrow> Inl [SetupError, Msg (path @ chars '' is not a tty''), Os (OtherErr e)]
      | Inr tio \<Rightarrow>
          (case tcsetattr d (raw_at lc tio speed) of
             Inl e \<Rightarrow> Inl [SetupError, Msg (chars ''configure '' @ path), Os (OtherErr e)]
           | Inr d' \<Rightarrow>
               (case tcgetattr d' of
                  Inr check \<Rightarrow> Inr (d', cfgetospeed lc check \<noteq> speed)
                | Inl e \<Rightarrow> Inr (d', False))))"

text \<open>
  \<open>SerialPort::open\<close>.  \<open>opened\<close> is what open(2) returned for the path, \<open>afd_ok\<close> whether the
  runtime could register the descriptor.  A descriptor that fails a later step is closed by
  the drop of \<open>OwnedFd\<close>, so nothing of it is left in the error.
\<close>

definition serial_open ::
    "libc \<Rightarrow> rstring \<Rightarrow> u32 \<Rightarrow> tty io_result \<Rightarrow> bool \<Rightarrow> error + (tty \<times> bool)" where
  "serial_open lc path baud opened afd_ok =
     (case speed_of lc baud of
        None \<Rightarrow> Inl [Msg (chars (''baud '' @ decimal (unat baud) @ '' has no termios constant on this platform''))]
      | Some speed \<Rightarrow>
          if 0 \<in> set path then
            Inl [SetupError, Msg (chars ''device path '' @ debug_str path @ chars '' contains a NUL''),
              Msg (chars (''nul byte found in provided data at position: '' @ decimal (str_len (takeWhile (\<lambda>c. c \<noteq> 0) path))))]
          else
            (case opened of
               IoErr e \<Rightarrow> Inl [SetupError, Msg (chars ''open '' @ path), Os e]
             | IoOk d \<Rightarrow>
                 and_then (configure lc path d speed)
                   (\<lambda>dw. if afd_ok then Inr dw
                         else Inl [SetupError, Msg (chars ''AsyncFd for '' @ path)])))"

section \<open>A concrete platform\<close>

text \<open>
  The numbers of the Linux headers (asm-generic/termbits.h) and glibc's functions, which keep
  the speed in the CBAUD bits of \<open>c_cflag\<close>.
\<close>

definition linux_speed_code :: "u32 \<Rightarrow> speed" where
  "linux_speed_code r =
     (case map_of
        [(0, 0), (50, 1), (75, 2), (110, 3), (134, 4), (150, 5), (200, 6), (300, 7), (600, 8),
         (1200, 9), (1800, 10), (2400, 11), (4800, 12), (9600, 13), (19200, 14), (38400, 15),
         (57600, 4097), (115200, 4098), (230400, 4099), (460800, 4100), (500000, 4101),
         (576000, 4102), (921600, 4103), (1000000, 4104), (1152000, 4105), (1500000, 4106),
         (2000000, 4107)] r of
        Some c \<Rightarrow> c | None \<Rightarrow> 0)"

definition linux_libc :: libc where
  "linux_libc = \<lparr>ICANON = 2, ECHO = 8, ICRNL = 256, ONLCR = 4, OPOST = 1, IXON = 1024,
     IXOFF = 4096, CSIZE = 48, CS5 = 0, CS6 = 16, CS7 = 32, PARENB = 256, PARODD = 512,
     CSTOPB = 64, CRTSCTS = 2147483648, CLOCAL = 2048, CREAD = 128, VMIN = 6, VTIME = 5,
     speed_code = linux_speed_code, target_linux = True,
     cfmakeraw = (\<lambda>t. t\<lparr>c_iflag := c_iflag t AND NOT 1515, c_oflag := c_oflag t AND NOT 1,
       c_lflag := c_lflag t AND NOT 32843, c_cflag := (c_cflag t AND NOT 304) OR 48,
       c_cc := (c_cc t)(6 := 1, 5 := 0)\<rparr>),
     cfgetispeed = (\<lambda>t. c_cflag t AND 4111), cfgetospeed = (\<lambda>t. c_cflag t AND 4111),
     cfsetispeed = (\<lambda>t s. t\<lparr>c_cflag := (c_cflag t AND NOT 4111) OR s\<rparr>),
     cfsetospeed = (\<lambda>t s. t\<lparr>c_cflag := (c_cflag t AND NOT 4111) OR s\<rparr>)\<rparr>"

lemma linux_rates:
  "rates linux_libc = set [0, 50, 75, 110, 134, 150, 200, 300, 600, 1200, 1800, 2400, 4800, 9600,
     19200, 38400, 57600, 115200, 230400, 460800, 500000, 576000, 921600, 1000000, 1152000,
     1500000, 2000000]"
proof -
  have "map snd (COMMON linux_libc @ EXTRA linux_libc) = [0, 50, 75, 110, 134, 150, 200, 300, 600,
     1200, 1800, 2400, 4800, 9600, 19200, 38400, 57600, 115200, 230400, 460800, 500000, 576000,
     921600, 1000000, 1152000, 1500000, 2000000]"
    by (simp add: COMMON_def EXTRA_def linux_libc_def)
  then show ?thesis unfolding rates_def set_map [symmetric] by (rule arg_cong)
qed

lemma linux_codes:
  "map linux_speed_code [0, 50, 75, 110, 134, 150, 200, 300, 600, 1200, 1800, 2400, 4800, 9600,
     19200, 38400, 57600, 115200, 230400, 460800, 500000, 576000, 921600, 1000000, 1152000,
     1500000, 2000000] =
   [0, 1, 2, 3, 4, 5, 6, 7, 8, 9, 10, 11, 12, 13, 14, 15, 4097, 4098, 4099, 4100, 4101, 4102,
    4103, 4104, 4105, 4106, 4107]"
  by (simp add: linux_speed_code_def)

lemma linux_codes_ok: "codes_ok linux_libc"
proof -
  have "distinct (map linux_speed_code [0, 50, 75, 110, 134, 150, 200, 300, 600, 1200, 1800, 2400,
     4800, 9600, 19200, 38400, 57600, 115200, 230400, 460800, 500000, 576000, 921600, 1000000,
     1152000, 1500000, 2000000])"
    unfolding linux_codes by simp
  then have "inj_on linux_speed_code (rates linux_libc)"
    unfolding linux_rates distinct_map by blast
  then show ?thesis by (simp add: codes_ok_def linux_libc_def)
qed

lemma linux_code_bits:
  assumes "r \<in> rates linux_libc"
  shows "linux_speed_code r AND 4111 = linux_speed_code r" "linux_speed_code r AND 2176 = 0"
proof -
  have "linux_speed_code r \<in> linux_speed_code ` rates linux_libc"
    using assms by simp
  then have "linux_speed_code r \<in> set [0, 1, 2, 3, 4, 5, 6, 7, 8, 9, 10, 11, 12, 13, 14, 15, 4097,
      4098, 4099, 4100, 4101, 4102, 4103, 4104, 4105, 4106, 4107]"
    unfolding linux_rates set_map [symmetric] linux_codes .
  then show "linux_speed_code r AND 4111 = linux_speed_code r" "linux_speed_code r AND 2176 = 0"
    by auto
qed

lemma and_not_and: "(x AND NOT m) AND m = (0 :: u64)"
  by (rule bit_word_eqI) (auto simp: bit_simps)

lemma clear_mask:
  fixes x m k :: u64
  shows "m AND k = k \<Longrightarrow> (x AND NOT m) AND k = 0"
    and "m AND k = 0 \<Longrightarrow> (x AND NOT m) AND k = x AND k"
proof -
  assume "m AND k = k"
  then have "(x AND NOT m) AND k = ((x AND NOT m) AND m) AND k"
    by (simp only: and.assoc)
  then show "(x AND NOT m) AND k = 0" by (simp add: and_not_and)
next
  assume *: "m AND k = 0"
  have "\<not> bit m n \<or> \<not> bit k n" for n
    using * by (metis bit_and_iff bit_0_eq bot_apply bot_bool_def)
  then show "(x AND NOT m) AND k = x AND k"
    by (intro bit_word_eqI) (auto simp: bit_simps)
qed

lemma or_mask: "((x :: u64) OR s) AND k = (x AND k) OR (s AND k)"
  by (simp add: bit.conj_disj_distrib2)

lemma linux_masks:
  fixes x :: u64
  shows "(x AND - 32844) AND 10 = 0" "(x AND - 1516) AND 256 = 0" "(x AND - 4112) AND 4111 = 0"
    "(x AND - 4112) AND 2176 = x AND 2176"
  using clear_mask [of 32843 10 x] clear_mask [of 1515 256 x] clear_mask [of 4111 4111 x]
    clear_mask [of 4111 2176 x] by simp_all

lemma linux_raw_ok: "raw_ok linux_libc"
  by (simp add: raw_ok_def linux_libc_def linux_masks)

lemma linux_speeds_ok: "speeds_ok linux_libc"
proof -
  have s: "cfgetospeed linux_libc (cfsetospeed linux_libc tio (speed_code linux_libc r)) = speed_code linux_libc r"
    if "r \<in> rates linux_libc" for tio r
    using linux_code_bits [OF that] by (simp add: linux_libc_def or_mask linux_masks)
  have l: "line_flags linux_libc (cfsetispeed linux_libc tio (speed_code linux_libc r)) = line_flags linux_libc tio"
      "line_flags linux_libc (cfsetospeed linux_libc tio (speed_code linux_libc r)) = line_flags linux_libc tio"
    if "r \<in> rates linux_libc" for tio r
    using linux_code_bits [OF that] by (simp_all add: line_flags_def linux_libc_def or_mask linux_masks)
  have c: "discipline linux_libc (cfsetispeed linux_libc tio s) = discipline linux_libc tio"
      "discipline linux_libc (cfsetospeed linux_libc tio s) = discipline linux_libc tio" for tio s
    by (simp_all add: discipline_def linux_libc_def)
  have v: "c_cc (cfsetispeed linux_libc tio s) = c_cc tio"
      "c_cc (cfsetospeed linux_libc tio s) = c_cc tio" for tio s
    by (simp_all add: linux_libc_def)
  show ?thesis by (simp add: speeds_ok_def s l c v)
qed


section \<open>The request of \<open>configure\<close>\<close>

lemma discipline_cong:
  "discipline lc t = discipline lc u \<longleftrightarrow>
     c_lflag t = c_lflag u \<and> c_iflag t AND ICRNL lc = c_iflag u AND ICRNL lc \<and> c_oflag t = c_oflag u"
  by (auto simp: discipline_def)

lemma or_and_absorb: "((x :: u64) OR m) AND m = m"
  by (rule bit_word_eqI) (auto simp: bit_simps)

lemma raw_at_shape:
  fixes tio :: termios
  assumes "speeds_ok lc" "baud \<in> rates lc"
  defines "t \<equiv> raw_at lc tio (speed_code lc baud)"
  shows "discipline lc t = discipline lc (cfmakeraw lc tio)"
    and "line_flags lc t = CLOCAL lc OR CREAD lc"
    and "c_cc t (VMIN lc) = 0" "c_cc t (VTIME lc) = 0"
    and "cfgetospeed lc t = speed_code lc baud"
proof -
  note s = assms(1) [unfolded speeds_ok_def]
  show "discipline lc t = discipline lc (cfmakeraw lc tio)"
    using s by (simp add: t_def raw_at_def Let_def) (simp add: discipline_def)
  show "line_flags lc t = CLOCAL lc OR CREAD lc"
    using s assms(2) by (simp add: t_def raw_at_def Let_def) (simp add: line_flags_def or_and_absorb)
  show "c_cc t (VMIN lc) = 0" "c_cc t (VTIME lc) = 0"
    using s by (simp_all add: t_def raw_at_def Let_def)
  show "cfgetospeed lc t = speed_code lc baud"
    using s assms(2) by (simp add: t_def raw_at_def Let_def)
qed

section \<open>Properties\<close>

text \<open>
  Baud rates survive the trip through the platform's speed codes: whatever code
  \<open>speed_of\<close> finds for a rate, on Linux or the BSDs and for listed and unlisted rates alike,
  \<open>baud_of\<close> maps it back to that rate.
\<close>

theorem baud_round_trip:
  assumes "codes_ok lc" and "speed_of lc baud = Some speed"
  shows "baud_of lc speed = baud"
  using assms
  by (cases "baud \<in> rates lc")
     (auto simp: speed_of_listed speed_of_unlisted baud_of_code baud_of_unlisted_bsd split: if_splits)

theorem baud_round_trip_witness:
  "codes_ok linux_libc \<and> speed_of linux_libc 921600 = Some 4103 \<and> baud_of linux_libc 4103 = 921600"
proof -
  have s: "speed_of linux_libc 921600 = Some 4103"
    by (simp add: speed_of_def COMMON_def EXTRA_def linux_libc_def linux_speed_code_def)
  show ?thesis
    using baud_round_trip [OF linux_codes_ok s] s linux_codes_ok by simp
qed

text \<open>
  Opening a port either hands the driver a raw line or fails as the exit code promises.
  On success the driver was asked for: no canonical mode, no echo, no CR rewriting, no output
  processing, CLOCAL and CREAD set, VMIN and VTIME 0 and the requested speed; and the warning
  is given exactly when the read-back shows another speed.  Every failure for a listed rate
  (a NUL in the path, open, not a tty, refused attributes, registration) carries \<open>SetupError\<close>.
\<close>

theorem open_requests_raw_line:
  assumes "raw_ok lc" and "speeds_ok lc" and "baud \<in> rates lc"
  shows "case serial_open lc path baud opened afd_ok of
      Inr (d', warned) \<Rightarrow>
        (\<exists>d request. opened = IoOk d \<and> attrs d' = driver d request \<and>
           c_lflag request AND (ICANON lc OR ECHO lc) = 0 \<and>
           c_iflag request AND ICRNL lc = 0 \<and>
           c_oflag request = c_oflag (attrs d) AND NOT (OPOST lc) \<and>
           line_flags lc request = CLOCAL lc OR CREAD lc \<and>
           c_cc request (VMIN lc) = 0 \<and> c_cc request (VTIME lc) = 0 \<and>
           cfgetospeed lc request = speed_code lc baud \<and>
           warned = (cfgetospeed lc (attrs d') \<noteq> speed_code lc baud))
    | Inl e \<Rightarrow> is_setup e"
proof (cases opened)
  case (IoErr e)
  then show ?thesis using assms(3) by (simp add: serial_open_def speed_of_listed)
next
  case (IoOk d)
  let ?req = "raw_at lc (attrs d) (speed_code lc baud)"
  have "discipline lc ?req = discipline lc (cfmakeraw lc (attrs d))"
    by (rule raw_at_shape(1) [OF assms(2,3)])
  then have l: "c_lflag ?req AND (ICANON lc OR ECHO lc) = 0" "c_iflag ?req AND ICRNL lc = 0"
      "c_oflag ?req = c_oflag (attrs d) AND NOT (OPOST lc)"
    using assms(1) by (simp_all add: discipline_cong raw_ok_def)
  note facts = l raw_at_shape(2-5) [OF assms(2,3), of "attrs d"]
  show ?thesis
  proof (cases "get_err d"; cases "set_err d"; cases "0 \<in> set path"; cases afd_ok)
    assume "get_err d = None" "set_err d = None" "0 \<notin> set path" afd_ok
    then have "serial_open lc path baud opened afd_ok =
        Inr (d\<lparr>attrs := driver d ?req\<rparr>, cfgetospeed lc (driver d ?req) \<noteq> speed_code lc baud)"
      using assms(3) IoOk
      by (simp add: serial_open_def speed_of_listed configure_def tcgetattr_def tcsetattr_def)
    then show ?thesis using IoOk facts by auto
  qed (use assms(3) IoOk in \<open>simp_all add: serial_open_def speed_of_listed configure_def
         tcgetattr_def tcsetattr_def\<close>)
qed

text \<open>A tty whose driver grants every request, at attributes a shell would leave.\<close>

definition cooked_tio :: termios where
  "cooked_tio = \<lparr>c_iflag = 256, c_oflag = 5, c_cflag = 191, c_lflag = 35387, c_cc = (\<lambda>_. 1),
     c_ispeed = 15, c_ospeed = 15\<rparr>"

definition plain_tty :: "termios \<Rightarrow> tty" where
  "plain_tty t = \<lparr>attrs = t, get_err = None, set_err = None, driver = (\<lambda>r. r)\<rparr>"

theorem open_requests_raw_line_witness:
  "raw_ok linux_libc \<and> speeds_ok linux_libc \<and> 115200 \<in> rates linux_libc \<and>
   \<not> isl (serial_open linux_libc (chars ''/dev/ttyUSB0'') 115200 (IoOk (plain_tty cooked_tio)) True) \<and>
   (\<exists>d' warned. serial_open linux_libc (chars ''/dev/ttyUSB0'') 115200 (IoOk (plain_tty cooked_tio)) True =
      Inr (d', warned) \<and> warned = (cfgetospeed linux_libc (attrs d') \<noteq> speed_code linux_libc 115200))"
proof -
  let ?r = "serial_open linux_libc (chars ''/dev/ttyUSB0'') 115200 (IoOk (plain_tty cooked_tio)) True"
  have r: "115200 \<in> rates linux_libc" by (simp add: linux_rates)
  have "\<not> isl ?r"
    by (simp add: serial_open_def speed_of_listed [OF r] configure_def tcgetattr_def tcsetattr_def plain_tty_def)
  moreover note open_requests_raw_line [where path = "chars ''/dev/ttyUSB0''" and
    opened = "IoOk (plain_tty cooked_tio)" and afd_ok = True, OF linux_raw_ok linux_speeds_ok r]
  ultimately show ?thesis
    using linux_raw_ok linux_speeds_ok r by (cases ?r) (auto split: prod.splits)
qed

end
