(* ===== verification/Settings.thy ===== *)
theory Settings
  imports Telnet Serial
begin

text \<open>
  Line settings between termios and RFC2217: the second half of \<open>src/forge/rfc2217.rs\<close>
  (\<open>PortSettings\<close>).  The abstract counterpart is the state of an RFC2217 server, which changes
  one parameter per subnegotiation; the lemmas show that the frames of \<open>commands_to\<close> carry a
  server from the old settings to the new ones and that \<open>from_termios\<close> reads back what a
  consumer set.
\<close>

record port_settings =
  ps_baud :: u32
  ps_data_bits :: u8
  ps_parity :: u8
  ps_stop_bits :: u8
  ps_flow :: u8

definition UNSET :: port_settings where
  "UNSET = \<lparr>ps_baud = 0, ps_data_bits = 8, ps_parity = 1, ps_stop_bits = 1, ps_flow = 1\<rparr>"

definition from_termios :: "libc \<Rightarrow> termios \<Rightarrow> port_settings" where
  "from_termios lc tio =
     \<lparr>ps_baud = baud_of lc (cfgetospeed lc tio),
      ps_data_bits =
        (let size = c_cflag tio AND CSIZE lc in
         if size = CS5 lc then 5 else if size = CS6 lc then 6 else if size = CS7 lc then 7 else 8),
      ps_parity =
        (if c_cflag tio AND PARENB lc = 0 then 1
         else if c_cflag tio AND PARODD lc \<noteq> 0 then 2 else 3),
      ps_stop_bits = (if c_cflag tio AND CSTOPB lc \<noteq> 0 then 2 else 1),
      ps_flow =
        (if c_cflag tio AND CRTSCTS lc \<noteq> 0 then 3
         else if c_iflag tio AND (IXON lc OR IXOFF lc) \<noteq> 0 then 2 else 1)\<rparr>"

definition commands_to :: "port_settings \<Rightarrow> port_settings \<Rightarrow> bytes list" where
  "commands_to a b =
     (if ps_baud b \<noteq> ps_baud a then [subneg SET_BAUDRATE (u32_to_be (ps_baud b))] else []) @
     (if ps_data_bits b \<noteq> ps_data_bits a then [subneg SET_DATASIZE [ps_data_bits b]] else []) @
     (if ps_parity b \<noteq> ps_parity a then [subneg SET_PARITY [ps_parity b]] else []) @
     (if ps_stop_bits b \<noteq> ps_stop_bits a then [subneg SET_STOPSIZE [ps_stop_bits b]] else []) @
     (if ps_flow b \<noteq> ps_flow a then [subneg SET_CONTROL [ps_flow b]] else [])"

definition describe :: "port_settings \<Rightarrow> string" where
  "describe s =
     decimal (unat (ps_baud s)) @ '' '' @ decimal (unat (ps_data_bits s)) @
     (if ps_parity s = 2 then ''O'' else if ps_parity s = 3 then ''E'' else ''N'') @
     decimal (unat (ps_stop_bits s)) @
     (if ps_flow s = 2 then '' xon/xoff'' else if ps_flow s = 3 then '' rts/cts'' else '''')"

section \<open>An RFC2217 server\<close>

text \<open>
  What the peer makes of a COM-PORT subnegotiation, from RFC 2217: the parameter replaces the
  current one, and the value 0 is a query that changes nothing.  \<open>bodies\<close> collects the
  subnegotiations a telnet receiver completes while it reads a stream.
\<close>

definition server_set :: "bytes \<Rightarrow> port_settings \<Rightarrow> port_settings" where
  "server_set body s =
     (case body of
        [opt, cmd, a, b, c, d] \<Rightarrow>
          if opt = OPT_COM_PORT \<and> cmd = SET_BAUDRATE \<and> u32_from_be a b c d \<noteq> 0
          then s\<lparr>ps_baud := u32_from_be a b c d\<rparr> else s
      | [opt, cmd, v] \<Rightarrow>
          if opt \<noteq> OPT_COM_PORT \<or> v = 0 then s
          else if cmd = SET_DATASIZE then s\<lparr>ps_data_bits := v\<rparr>
          else if cmd = SET_PARITY then s\<lparr>ps_parity := v\<rparr>
          else if cmd = SET_STOPSIZE then s\<lparr>ps_stop_bits := v\<rparr>
          else if cmd = SET_CONTROL then s\<lparr>ps_flow := v\<rparr>
          else s
      | _ \<Rightarrow> s)"

fun bodies :: "telnet \<Rightarrow> bytes \<Rightarrow> bytes list" where
  "bodies t [] = []"
| "bodies t (b # bs) =
     (if tstate t = SubIac \<and> b = SE then [sub t] else []) @
     bodies (fst (decode_byte b (t, no_output))) bs"

lemma bodies_append: "bodies t (xs @ ys) = bodies t xs @ bodies (fst (decode t xs)) ys"
  by (induction xs arbitrary: t) (auto simp: decode_Cons split: prod.splits)

lemma bodies_escape_data: "tstate t = Data \<Longrightarrow> bodies t (escape d) = []"
proof (induction d)
  case (Cons b d)
  have self: "t\<lparr>tstate := Data\<rparr> = t" using Cons.prems by simp
  from Cons show ?case by (auto simp: decode_byte_def self)
qed simp

lemma bodies_escape_sub: "tstate t = Sub \<Longrightarrow> bodies t (escape bs) = []"
proof (induction bs arbitrary: t)
  case (Cons b bs)
  have "bodies (t\<lparr>sub := sub t @ [b]\<rparr>) (escape bs) = []" using Cons by simp
  moreover have self: "t\<lparr>sub := sub t @ [IAC], tstate := Sub\<rparr> = t\<lparr>sub := sub t @ [IAC]\<rparr>"
    using Cons.prems by simp
  ultimately show ?case using Cons.prems by (auto simp: decode_byte_def self)
qed simp

primrec frame_bodies :: "frame \<Rightarrow> bytes list" where
  "frame_bodies (Payload d) = []"
| "frame_bodies (Negotiation cmd opt) = []"
| "frame_bodies (Subnegotiation bs) = [bs]"

lemma bodies_frame:
  assumes "tstate t = Data" "sub t = []" "frame_ok f"
  shows "bodies t (encode_frame f) = frame_bodies f"
proof (cases f)
  case (Payload d)
  with assms show ?thesis by (simp add: bodies_escape_data)
next
  case (Negotiation cmd opt)
  with assms show ?thesis by (auto simp: decode_byte_def)
next
  case (Subnegotiation bs)
  let ?s = "t\<lparr>tstate := Sub\<rparr>"
  have o: "decode t [IAC, SB] = (?s, no_output)" "bodies t [IAC, SB] = []"
    using assms by (simp_all add: decode_Cons decode_byte_def)
  have b: "decode ?s (escape bs) = (?s\<lparr>sub := bs\<rparr>, no_output)" "bodies ?s (escape bs) = []"
    using decode_sub_body [of ?s bs] assms by (simp_all add: bodies_escape_sub)
  have "bodies (?s\<lparr>sub := bs\<rparr>) [IAC, SE] = [bs]"
    by (simp add: decode_byte_def)
  with o b Subnegotiation show ?thesis
    using bodies_append [of t "[IAC, SB]" "escape bs @ [IAC, SE]"] by (simp add: bodies_append)
qed

lemma bodies_frames:
  assumes "tstate t = Data" "sub t = []" "list_all frame_ok fs"
  shows "bodies t (concat (map encode_frame fs)) = concat (map frame_bodies fs)"
  using assms
proof (induction fs arbitrary: t)
  case (Cons f fs)
  obtain t' o' where f: "interp_frame f t = (t', o')" by fastforce
  with interp_frame_keeps Cons.prems have "tstate t' = Data" "sub t' = []" by fastforce+
  with Cons f show ?case by (simp add: bodies_append bodies_frame decode_frame)
qed simp

section \<open>The commands as frames\<close>

definition command_frames :: "port_settings \<Rightarrow> port_settings \<Rightarrow> frame list" where
  "command_frames a b = map Subnegotiation
     ((if ps_baud b \<noteq> ps_baud a then [OPT_COM_PORT # SET_BAUDRATE # u32_to_be (ps_baud b)] else []) @
      (if ps_data_bits b \<noteq> ps_data_bits a then [[OPT_COM_PORT, SET_DATASIZE, ps_data_bits b]] else []) @
      (if ps_parity b \<noteq> ps_parity a then [[OPT_COM_PORT, SET_PARITY, ps_parity b]] else []) @
      (if ps_stop_bits b \<noteq> ps_stop_bits a then [[OPT_COM_PORT, SET_STOPSIZE, ps_stop_bits b]] else []) @
      (if ps_flow b \<noteq> ps_flow a then [[OPT_COM_PORT, SET_CONTROL, ps_flow b]] else []))"

lemma commands_to_frames: "commands_to a b = map encode_frame (command_frames a b)"
  by (simp add: commands_to_def command_frames_def subneg_frame del: encode_frame.simps)

lemma command_frames_ok: "list_all frame_ok (command_frames a b)"
  by (simp add: command_frames_def)

lemma commands_to_self [simp]: "commands_to a a = []"
  by (simp add: commands_to_def)

lemma commands_to_Nil_iff: "commands_to a b = [] \<longleftrightarrow> a = b"
  by (auto simp: commands_to_def)

lemma server_set_baud:
  "server_set (OPT_COM_PORT # SET_BAUDRATE # u32_to_be w) s = (if w = 0 then s else s\<lparr>ps_baud := w\<rparr>)"
  by (simp add: server_set_def u32_to_be_def u32_be_roundtrip)

lemma server_set_byte:
  "v \<noteq> 0 \<Longrightarrow> server_set [OPT_COM_PORT, SET_DATASIZE, v] s = s\<lparr>ps_data_bits := v\<rparr>"
  "v \<noteq> 0 \<Longrightarrow> server_set [OPT_COM_PORT, SET_PARITY, v] s = s\<lparr>ps_parity := v\<rparr>"
  "v \<noteq> 0 \<Longrightarrow> server_set [OPT_COM_PORT, SET_STOPSIZE, v] s = s\<lparr>ps_stop_bits := v\<rparr>"
  "v \<noteq> 0 \<Longrightarrow> server_set [OPT_COM_PORT, SET_CONTROL, v] s = s\<lparr>ps_flow := v\<rparr>"
  by (simp_all add: server_set_def)

text \<open>The settings \<open>from_termios\<close> can produce.\<close>

definition settings_ok :: "port_settings \<Rightarrow> bool" where
  "settings_ok s \<longleftrightarrow> ps_data_bits s \<in> {5, 6, 7, 8} \<and> ps_parity s \<in> {1, 2, 3} \<and>
     ps_stop_bits s \<in> {1, 2} \<and> ps_flow s \<in> {1, 2, 3}"

lemma settings_ok_from_termios [wf_intros]: "settings_ok (from_termios lc tio)"
  by (simp add: settings_ok_def from_termios_def Let_def)

lemma settings_ok_UNSET [wf_intros]: "settings_ok UNSET"
  by (simp add: settings_ok_def UNSET_def)

lemma settings_ok_nonzero:
  "settings_ok s \<Longrightarrow> ps_data_bits s \<noteq> 0 \<and> ps_parity s \<noteq> 0 \<and> ps_stop_bits s \<noteq> 0 \<and> ps_flow s \<noteq> 0"
  by (auto simp: settings_ok_def)

text \<open>The settings a server at \<open>a\<close> ends in after the commands for \<open>b\<close>.\<close>

definition agreed :: "port_settings \<Rightarrow> port_settings \<Rightarrow> port_settings" where
  "agreed a b = (if ps_baud b = 0 then b\<lparr>ps_baud := ps_baud a\<rparr> else b)"

lemma server_commands:
  assumes "settings_ok b"
  shows "fold server_set (concat (map frame_bodies (command_frames a b))) a = agreed a b"
  using settings_ok_nonzero [OF assms]
  by (simp add: command_frames_def server_set_baud server_set_byte agreed_def)


section \<open>What a consumer sets\<close>

text \<open>
  \<open>stty_to s\<close> is the attribute change a consumer makes when it asks for the settings \<open>s\<close>
  (as \<open>stty\<close> or pyserial do): the size, parity, stop and flow bits, then the speed.  \<open>cs8\<close> is
  the size code of eight bits.  \<open>flags_ok\<close> says that the masks of the platform do not overlap,
  that the size codes lie in \<open>CSIZE\<close> and that a speed change leaves the masks alone.
\<close>

definition line_masks :: "libc \<Rightarrow> flags" where
  "line_masks lc = CSIZE lc OR PARENB lc OR PARODD lc OR CSTOPB lc OR CRTSCTS lc"

definition size_code :: "libc \<Rightarrow> flags \<Rightarrow> u8 \<Rightarrow> flags" where
  "size_code lc cs8 n = (if n = 5 then CS5 lc else if n = 6 then CS6 lc else if n = 7 then CS7 lc else cs8)"

definition line_bits :: "libc \<Rightarrow> flags \<Rightarrow> port_settings \<Rightarrow> flags" where
  "line_bits lc cs8 s =
     size_code lc cs8 (ps_data_bits s) OR
     ((if ps_parity s = 1 then 0 else PARENB lc) OR
      ((if ps_parity s = 2 then PARODD lc else 0) OR
       ((if ps_stop_bits s = 2 then CSTOPB lc else 0) OR
        (if ps_flow s = 3 then CRTSCTS lc else 0))))"

definition stty_to :: "libc \<Rightarrow> flags \<Rightarrow> port_settings \<Rightarrow> termios \<Rightarrow> termios" where
  "stty_to lc cs8 s tio = cfsetospeed lc
     (tio\<lparr>c_cflag := (c_cflag tio AND NOT (line_masks lc)) OR line_bits lc cs8 s,
          c_iflag := (c_iflag tio AND NOT (IXON lc OR IXOFF lc)) OR
            (if ps_flow s = 2 then IXON lc OR IXOFF lc else 0)\<rparr>)
     (speed_code lc (ps_baud s))"

definition flags_ok :: "libc \<Rightarrow> flags \<Rightarrow> bool" where
  "flags_ok lc cs8 \<longleftrightarrow>
     distinct [CS5 lc, CS6 lc, CS7 lc, cs8] \<and>
     list_all (\<lambda>c. c AND CSIZE lc = c \<and> c AND PARENB lc = 0 \<and> c AND PARODD lc = 0 \<and>
       c AND CSTOPB lc = 0 \<and> c AND CRTSCTS lc = 0) [CS5 lc, CS6 lc, CS7 lc, cs8] \<and>
     list_all (\<lambda>m. m \<noteq> 0) [PARENB lc, PARODD lc, CSTOPB lc, CRTSCTS lc, IXON lc OR IXOFF lc] \<and>
     sorted_wrt (\<lambda>m n. m AND n = 0 \<and> n AND m = 0)
       [CSIZE lc, PARENB lc, PARODD lc, CSTOPB lc, CRTSCTS lc] \<and>
     (\<forall>tio. \<forall>r \<in> rates lc. c_cflag (cfsetospeed lc tio (speed_code lc r)) AND line_masks lc = c_cflag tio AND line_masks lc) \<and>
     (\<forall>tio. \<forall>r \<in> rates lc. c_iflag (cfsetospeed lc tio (speed_code lc r)) AND (IXON lc OR IXOFF lc)
        = c_iflag tio AND (IXON lc OR IXOFF lc))"

lemma line_masks_absorb:
  "line_masks lc AND CSIZE lc = CSIZE lc" "line_masks lc AND PARENB lc = PARENB lc"
  "line_masks lc AND PARODD lc = PARODD lc" "line_masks lc AND CSTOPB lc = CSTOPB lc"
  "line_masks lc AND CRTSCTS lc = CRTSCTS lc"
  by (rule bit_word_eqI; auto simp: line_masks_def bit_simps)+

lemma masked_eq:
  fixes m k x y :: u64
  assumes "m AND k = k" "x AND m = y AND m"
  shows "x AND k = y AND k"
proof -
  have "x AND k = (x AND m) AND k" "y AND k = (y AND m) AND k"
    using assms(1) by (simp_all only: and.assoc)
  with assms(2) show ?thesis by simp
qed

lemma stty_flags:
  assumes "flags_ok lc cs8" "ps_baud s \<in> rates lc" "line_masks lc AND k = k"
  shows "c_cflag (stty_to lc cs8 s tio) AND k = line_bits lc cs8 s AND k"
proof -
  have "c_cflag (stty_to lc cs8 s tio) AND k =
      ((c_cflag tio AND NOT (line_masks lc)) OR line_bits lc cs8 s) AND k"
    by (rule masked_eq [OF assms(3)])
       (use assms(1,2) in \<open>simp add: flags_ok_def stty_to_def\<close>)
  then show ?thesis using assms(3) by (simp add: or_mask clear_mask)
qed

lemma clear_then_set: "(((x :: u64) AND NOT m) OR (if b then m else 0)) AND m = (if b then m else 0)"
  by (cases b) (simp_all add: or_and_absorb and_not_and)

lemma stty_iflag:
  assumes "flags_ok lc cs8" "ps_baud s \<in> rates lc"
  shows "c_iflag (stty_to lc cs8 s tio) AND (IXON lc OR IXOFF lc) =
    (if ps_flow s = 2 then IXON lc OR IXOFF lc else 0)"
proof -
  have "c_iflag (stty_to lc cs8 s tio) AND (IXON lc OR IXOFF lc) =
      ((c_iflag tio AND NOT (IXON lc OR IXOFF lc)) OR
       (if ps_flow s = 2 then IXON lc OR IXOFF lc else 0)) AND (IXON lc OR IXOFF lc)"
    using assms by (simp add: flags_ok_def stty_to_def)
  then show ?thesis by (simp only: clear_then_set)
qed

lemma flags_sizes:
  assumes "flags_ok lc cs8" "c \<in> set [CS5 lc, CS6 lc, CS7 lc, cs8]"
  shows "c AND CSIZE lc = c" "c AND PARENB lc = 0" "c AND PARODD lc = 0" "c AND CSTOPB lc = 0"
    "c AND CRTSCTS lc = 0"
proof -
  have "list_all (\<lambda>c. c AND CSIZE lc = c \<and> c AND PARENB lc = 0 \<and> c AND PARODD lc = 0 \<and>
       c AND CSTOPB lc = 0 \<and> c AND CRTSCTS lc = 0) [CS5 lc, CS6 lc, CS7 lc, cs8]"
    using assms(1) unfolding flags_ok_def by blast
  with assms(2) show "c AND CSIZE lc = c" "c AND PARENB lc = 0" "c AND PARODD lc = 0"
    "c AND CSTOPB lc = 0" "c AND CRTSCTS lc = 0"
    unfolding list_all_iff by blast+
qed

lemma flags_disjoint:
  assumes "flags_ok lc cs8"
  shows "PARENB lc AND CSIZE lc = 0" "PARODD lc AND CSIZE lc = 0" "CSTOPB lc AND CSIZE lc = 0"
    "CRTSCTS lc AND CSIZE lc = 0" "PARODD lc AND PARENB lc = 0" "CSTOPB lc AND PARENB lc = 0"
    "CRTSCTS lc AND PARENB lc = 0" "PARENB lc AND PARODD lc = 0" "CSTOPB lc AND PARODD lc = 0"
    "CRTSCTS lc AND PARODD lc = 0" "PARENB lc AND CSTOPB lc = 0" "PARODD lc AND CSTOPB lc = 0"
    "CRTSCTS lc AND CSTOPB lc = 0" "PARENB lc AND CRTSCTS lc = 0" "PARODD lc AND CRTSCTS lc = 0"
    "CSTOPB lc AND CRTSCTS lc = 0"
proof -
  have "sorted_wrt (\<lambda>m n. m AND n = 0 \<and> n AND m = 0)
       [CSIZE lc, PARENB lc, PARODD lc, CSTOPB lc, CRTSCTS lc]"
    using assms unfolding flags_ok_def by blast
  then show "PARENB lc AND CSIZE lc = 0" "PARODD lc AND CSIZE lc = 0" "CSTOPB lc AND CSIZE lc = 0"
    "CRTSCTS lc AND CSIZE lc = 0" "PARODD lc AND PARENB lc = 0" "CSTOPB lc AND PARENB lc = 0"
    "CRTSCTS lc AND PARENB lc = 0" "PARENB lc AND PARODD lc = 0" "CSTOPB lc AND PARODD lc = 0"
    "CRTSCTS lc AND PARODD lc = 0" "PARENB lc AND CSTOPB lc = 0" "PARODD lc AND CSTOPB lc = 0"
    "CRTSCTS lc AND CSTOPB lc = 0" "PARENB lc AND CRTSCTS lc = 0" "PARODD lc AND CRTSCTS lc = 0"
    "CSTOPB lc AND CRTSCTS lc = 0"
    unfolding sorted_wrt.simps list.set by blast+
qed

lemma size_code_masks:
  assumes "flags_ok lc cs8"
  shows "size_code lc cs8 n AND CSIZE lc = size_code lc cs8 n" "size_code lc cs8 n AND PARENB lc = 0"
    "size_code lc cs8 n AND PARODD lc = 0" "size_code lc cs8 n AND CSTOPB lc = 0"
    "size_code lc cs8 n AND CRTSCTS lc = 0"
proof -
  have "size_code lc cs8 n \<in> set [CS5 lc, CS6 lc, CS7 lc, cs8]"
    by (simp add: size_code_def)
  from flags_sizes [OF assms this] show "size_code lc cs8 n AND CSIZE lc = size_code lc cs8 n"
    "size_code lc cs8 n AND PARENB lc = 0" "size_code lc cs8 n AND PARODD lc = 0"
    "size_code lc cs8 n AND CSTOPB lc = 0" "size_code lc cs8 n AND CRTSCTS lc = 0" by blast+
qed

lemma if_and: "(if b then x else 0) AND k = (if b then x AND k else (0 :: u64))"
  "(if b then 0 else x) AND k = (if b then 0 else x AND k)"
  by simp_all

lemma line_bits_masks:
  assumes "flags_ok lc cs8"
  shows "line_bits lc cs8 s AND CSIZE lc = size_code lc cs8 (ps_data_bits s)"
    "line_bits lc cs8 s AND PARENB lc = (if ps_parity s = 1 then 0 else PARENB lc)"
    "line_bits lc cs8 s AND PARODD lc = (if ps_parity s = 2 then PARODD lc else 0)"
    "line_bits lc cs8 s AND CSTOPB lc = (if ps_stop_bits s = 2 then CSTOPB lc else 0)"
    "line_bits lc cs8 s AND CRTSCTS lc = (if ps_flow s = 3 then CRTSCTS lc else 0)"
  unfolding line_bits_def or_mask if_and size_code_masks [OF assms] flags_disjoint [OF assms] and.idem
  by (simp_all only: if_cancel or.left_neutral or.right_neutral)

lemma flags_distinct:
  assumes "flags_ok lc cs8"
  shows "distinct [CS5 lc, CS6 lc, CS7 lc, cs8]" "PARENB lc \<noteq> 0" "PARODD lc \<noteq> 0" "CSTOPB lc \<noteq> 0"
    "CRTSCTS lc \<noteq> 0" "IXON lc OR IXOFF lc \<noteq> 0"
proof -
  show "distinct [CS5 lc, CS6 lc, CS7 lc, cs8]"
    using assms unfolding flags_ok_def by blast
  have "list_all (\<lambda>m. m \<noteq> 0) [PARENB lc, PARODD lc, CSTOPB lc, CRTSCTS lc, IXON lc OR IXOFF lc]"
    using assms unfolding flags_ok_def by blast
  then show "PARENB lc \<noteq> 0" "PARODD lc \<noteq> 0" "CSTOPB lc \<noteq> 0" "CRTSCTS lc \<noteq> 0"
    "IXON lc OR IXOFF lc \<noteq> 0"
    unfolding list.pred_inject by blast+
qed

lemma from_termios_stty:
  assumes "flags_ok lc cs8" "ps_baud s \<in> rates lc" "settings_ok s"
    "codes_ok lc" "speeds_ok lc"
  shows "from_termios lc (stty_to lc cs8 s tio) = s"
proof -
  note m = stty_flags [OF assms(1,2), where tio = tio]
  note bits = line_bits_masks [OF assms(1), where s = s]
  note ok = assms(3) [unfolded settings_ok_def]
  note ne = flags_distinct [OF assms(1)]
  let ?t = "stty_to lc cs8 s tio"
  have "cfgetospeed lc ?t = speed_code lc (ps_baud s)"
    using assms(2,5) unfolding stty_to_def speeds_ok_def by blast
  then have b: "ps_baud (from_termios lc ?t) = ps_baud s"
    using baud_of_code [OF assms(4,2)] by (simp add: from_termios_def)
  have "c_cflag ?t AND CSIZE lc = size_code lc cs8 (ps_data_bits s)"
    using m [OF line_masks_absorb(1)] bits(1) by simp
  with ok ne(1) have d: "ps_data_bits (from_termios lc ?t) = ps_data_bits s"
    by (auto simp: from_termios_def Let_def size_code_def)
  have "c_cflag ?t AND PARENB lc = (if ps_parity s = 1 then 0 else PARENB lc)"
    "c_cflag ?t AND PARODD lc = (if ps_parity s = 2 then PARODD lc else 0)"
    using m [OF line_masks_absorb(2)] m [OF line_masks_absorb(3)] bits(2,3) by simp_all
  with ok ne(2,3) have p: "ps_parity (from_termios lc ?t) = ps_parity s"
    by (auto simp: from_termios_def)
  have "c_cflag ?t AND CSTOPB lc = (if ps_stop_bits s = 2 then CSTOPB lc else 0)"
    using m [OF line_masks_absorb(4)] bits(4) by simp
  with ok ne(4) have st: "ps_stop_bits (from_termios lc ?t) = ps_stop_bits s"
    by (auto simp: from_termios_def)
  have "c_cflag ?t AND CRTSCTS lc = (if ps_flow s = 3 then CRTSCTS lc else 0)"
    "c_iflag ?t AND (IXON lc OR IXOFF lc) = (if ps_flow s = 2 then IXON lc OR IXOFF lc else 0)"
    using m [OF line_masks_absorb(5)] bits(5) stty_iflag [OF assms(1,2)] by simp_all
  with ok ne(5,6) have f: "ps_flow (from_termios lc ?t) = ps_flow s"
    by (auto simp: from_termios_def)
  from b d p st f show ?thesis by simp
qed

lemma linux_flags_ok: "flags_ok linux_libc 48"
proof -
  let ?lc = linux_libc
  have m: "line_masks ?lc = 2147484528" "IXON ?lc OR IXOFF ?lc = 5120"
    by (simp_all add: line_masks_def linux_libc_def)
  have z: "(x AND - 4112) AND 2147484528 = x AND (2147484528 :: u64)" for x
    using clear_mask(2) [of 4111 2147484528 x] by simp
  have s: "linux_speed_code r AND 2147484528 = 0" if "r \<in> rates ?lc" for r
  proof -
    have "linux_speed_code r AND 2147484528 = (linux_speed_code r AND 4111) AND 2147484528"
      using linux_code_bits(1) [OF that] by simp
    also have "\<dots> = linux_speed_code r AND (4111 AND 2147484528)"
      by (simp only: and.assoc)
    finally show ?thesis by simp
  qed
  have c: "c_cflag (cfsetospeed ?lc tio (speed_code ?lc r)) AND line_masks ?lc = c_cflag tio AND line_masks ?lc"
    if "r \<in> rates ?lc" for tio r
    unfolding m using s [OF that] by (simp add: linux_libc_def or_mask z)
  have i: "c_iflag (cfsetospeed ?lc tio x) = c_iflag tio" for tio x
    by (simp add: linux_libc_def)
  show ?thesis
    unfolding flags_ok_def using c i by (simp add: linux_libc_def)
qed

section \<open>Properties\<close>

text \<open>
  (C11) The commands for a settings change refine the peer's state change: an RFC2217 server at
  the old settings that reads the program's bytes for \<open>commands_to\<close> completes exactly the
  subnegotiations that leave it at the new settings (at its old speed when the port's speed is
  unset, which the protocol reads as a query), and no byte of the commands reaches its data.
\<close>

theorem commands_refine_settings:
  assumes "settings_ok new" and "tstate t = Data" and "sub t = []"
  shows "fold server_set (bodies t (concat (commands_to old new))) old = agreed old new \<and>
    data (snd (decode t (concat (commands_to old new)))) = []"
proof -
  let ?fs = "command_frames old new"
  have "bodies t (concat (commands_to old new)) = concat (map frame_bodies ?fs)"
    unfolding commands_to_frames by (rule bodies_frames [OF assms(2,3) command_frames_ok])
  moreover have "decode t (concat (commands_to old new)) = interp_frames ?fs t"
    unfolding commands_to_frames by (rule decode_frames [OF assms(2,3) command_frames_ok])
  moreover have "concat (map payload ?fs) = []"
    by (simp add: command_frames_def)
  ultimately show ?thesis
    using server_commands [OF assms(1)] by (simp add: data_interp_frames)
qed

definition fast_even :: port_settings where
  "fast_even = \<lparr>ps_baud = 16711935, ps_data_bits = 7, ps_parity = 3, ps_stop_bits = 2, ps_flow = 1\<rparr>"

theorem commands_refine_settings_witness:
  "settings_ok fast_even \<and> telnet_wf telnet_new \<and>
   fold server_set (bodies telnet_new (concat (commands_to UNSET fast_even))) UNSET = fast_even"
proof -
  have h: "settings_ok fast_even" "tstate telnet_new = Data" "sub telnet_new = []"
    by (simp_all add: settings_ok_def fast_even_def telnet_new_def)
  have "agreed UNSET fast_even = fast_even" by (simp add: agreed_def fast_even_def)
  with commands_refine_settings [OF h, of UNSET] h(1) show ?thesis
    by (simp add: telnet_wf_new)
qed

text \<open>
  An idle port is silent on the wire: the number of commands is the number of settings
  that differ, so there are none exactly when the settings are equal.
\<close>

theorem one_command_per_change:
  "length (commands_to old new) = length (filter id
      [ps_baud new \<noteq> ps_baud old, ps_data_bits new \<noteq> ps_data_bits old,
       ps_parity new \<noteq> ps_parity old, ps_stop_bits new \<noteq> ps_stop_bits old,
       ps_flow new \<noteq> ps_flow old]) \<and>
   (commands_to old new = [] \<longleftrightarrow> old = new)"
  by (simp add: commands_to_Nil_iff) (simp add: commands_to_def)



end
