(* ===== verification/Binary64.thy ===== *)
theory Binary64
  imports Complex_Main Text "HOL-Library.Log_Nat"
begin

text \<open>
  The part of Rust's \<open>f64\<close> and \<open>std::time\<close> that \<open>src/forge/wire.rs\<close> computes with.  A finite
  double is the rational it denotes (the sign of a zero is never observed by the program); every
  arithmetic operation rounds its exact result to nearest, ties to even, with gradual underflow
  and overflow to infinity, as IEEE 754 and Rust prescribe.  A \<open>Duration\<close> is a number of
  nanoseconds below \<open>2 ^ 64\<close> seconds and an \<open>Instant\<close> one below \<open>2 ^ 63\<close> seconds; the
  operations that panic on overflow return \<open>None\<close>.
\<close>

section \<open>Rounding\<close>

datatype f64 = NaN | Infinity bool | Finite rat

text \<open>Round to the nearest integer, ties to even.\<close>

definition rne :: "rat \<Rightarrow> int" where
  "rne y = (let n = \<lfloor>y\<rfloor>; r = y - of_int n in
     if r < 1 / 2 then n else if r > 1 / 2 then n + 1 else if even n then n else n + 1)"

text \<open>The exponent \<open>e\<close> with \<open>2 ^ e \<le> x < 2 ^ (e + 1)\<close>, for positive \<open>x\<close>.\<close>

definition exponent :: "rat \<Rightarrow> int" where
  "exponent x =
     (if x \<ge> 1 then int (floorlog 2 (nat \<lfloor>x\<rfloor>)) - 1
      else - int (floorlog 2 (nat (\<lceil>1 / x\<rceil> - 1))))"

definition ulp :: "rat \<Rightarrow> rat" where
  "ulp x = 2 powi (max (exponent x) (-1022) - 52)"

definition round64 :: "rat \<Rightarrow> f64" where
  "round64 x =
     (if x = 0 then Finite 0
      else let v = of_int (rne (\<bar>x\<bar> / ulp \<bar>x\<bar>)) * ulp \<bar>x\<bar> in
        if v \<ge> 2 ^ 1024 then Infinity (x < 0) else Finite (sgn x * v))"

definition add64 :: "rat \<Rightarrow> rat \<Rightarrow> f64" where
  "add64 x y = round64 (x + y)"

definition mul64 :: "rat \<Rightarrow> rat \<Rightarrow> f64" where
  "mul64 x y = round64 (x * y)"

definition div64 :: "rat \<Rightarrow> rat \<Rightarrow> f64" where
  "div64 x y = (if y = 0 then (if x = 0 then NaN else Infinity (x < 0)) else round64 (x / y))"

section \<open>Durations and instants\<close>

type_synonym duration = nat
type_synonym instant = nat

abbreviation DUR_LIMIT :: nat where "DUR_LIMIT \<equiv> 2 ^ 64 * 10 ^ 9"
abbreviation INSTANT_LIMIT :: nat where "INSTANT_LIMIT \<equiv> 2 ^ 63 * 10 ^ 9"

definition dur_add :: "duration \<Rightarrow> duration \<Rightarrow> duration option" where
  "dur_add a b = (if a + b < DUR_LIMIT then Some (a + b) else None)"

definition dur_mul :: "duration \<Rightarrow> u32 \<Rightarrow> duration option" where
  "dur_mul a n = (if a * unat n < DUR_LIMIT then Some (a * unat n) else None)"

definition instant_add :: "instant \<Rightarrow> duration \<Rightarrow> instant option" where
  "instant_add t d = (if t + d < INSTANT_LIMIT then Some (t + d) else None)"

definition from_secs_f64 :: "f64 \<Rightarrow> duration option" where
  "from_secs_f64 s =
     (case s of
        Finite x \<Rightarrow>
          if x < 0 then None
          else (let n = nat (rne (x * 10 ^ 9)) in if n < DUR_LIMIT then Some n else None)
      | _ \<Rightarrow> None)"

text \<open>\<open>as_secs_f64\<close> and \<open>mul_f64\<close>: the whole seconds and the nanoseconds are converted apart.\<close>

definition as_secs_f64 :: "duration \<Rightarrow> f64" where
  "as_secs_f64 d =
     (case (round64 (of_nat (d div 10 ^ 9)), div64 (of_nat (d mod 10 ^ 9)) (10 ^ 9)) of
        (Finite s, Finite n) \<Rightarrow> add64 s n
      | _ \<Rightarrow> NaN)"

definition mul_f64 :: "duration \<Rightarrow> rat \<Rightarrow> duration option" where
  "mul_f64 d r = (case as_secs_f64 d of Finite s \<Rightarrow> from_secs_f64 (mul64 r s) | _ \<Rightarrow> None)"

section \<open>Accuracy of rounding\<close>

lemma rne_error: "\<bar>of_int (rne y) - y\<bar> \<le> 1 / 2"
proof -
  have "of_int \<lfloor>y\<rfloor> \<le> y" "y < of_int \<lfloor>y\<rfloor> + 1" by linarith+
  then show ?thesis by (simp add: rne_def Let_def)
qed

lemma rne_of_int [simp]: "rne (of_int n) = n"
  by (simp add: rne_def)

lemma rne_le: "y < of_int n + 1 / 2 \<Longrightarrow> rne y \<le> n"
proof -
  assume "y < of_int n + 1 / 2"
  moreover have "of_int (rne y) \<le> y + 1 / 2" using rne_error [of y] by linarith
  ultimately have "of_int (rne y) < (of_int (n + 1) :: rat)" by simp
  then show ?thesis by linarith
qed

lemma rne_nonneg: "0 \<le> y \<Longrightarrow> 0 \<le> rne y"
proof -
  assume "0 \<le> y"
  then have "0 \<le> \<lfloor>y\<rfloor>" by simp
  then show ?thesis by (simp add: rne_def Let_def)
qed

lemma exponent_lower:
  assumes "0 < x"
  shows "2 powi exponent x \<le> x"
proof (cases "x \<ge> 1")
  case True
  let ?n = "nat \<lfloor>x\<rfloor>" and ?l = "floorlog 2 (nat \<lfloor>x\<rfloor>)"
  from True have n: "0 < ?n" by simp
  then have "2 ^ (?l - 1) \<le> ?n" and l: "0 < ?l"
    using floorlog_bounds [of ?n 2] by (simp_all add: floorlog_def)
  then have "(2 :: rat) ^ (?l - 1) \<le> of_nat ?n"
    by (metis of_nat_le_iff of_nat_numeral of_nat_power)
  also have "\<dots> \<le> x" using True by simp
  finally have "(2 :: rat) ^ (?l - 1) \<le> x" .
  moreover have "exponent x = int (?l - 1)" using True l by (simp add: exponent_def)
  ultimately show ?thesis by simp
next
  case False
  let ?m = "floorlog 2 (nat (\<lceil>1 / x\<rceil> - 1))"
  let ?k = "nat (\<lceil>1 / x\<rceil> - 1)"
  have "1 < 1 / x" using assms False by simp
  then have c: "1 < \<lceil>1 / x\<rceil>" by linarith
  then have "0 < ?k" by simp
  then have "?k < 2 ^ ?m" using floorlog_bounds [of ?k 2] by simp
  then have "\<lceil>1 / x\<rceil> \<le> 2 ^ ?m" using c by (simp add: nat_less_iff)
  then have "1 / x \<le> 2 ^ ?m" by (metis ceiling_le_iff of_int_numeral of_int_power)
  then have "1 \<le> 2 ^ ?m * x" using assms by (simp add: field_simps)
  then have "inverse (2 ^ ?m) \<le> x" by (simp add: field_simps)
  then show ?thesis using False by (simp add: exponent_def power_int_minus)
qed

lemma ulp_pos: "0 < ulp x"
  by (simp add: ulp_def)

lemma ulp_bound:
  assumes "0 < x"
  shows "ulp x \<le> x / 2 ^ 52 + 1 / 10 ^ 30"
proof (cases "exponent x \<ge> -1022")
  case True
  then have "ulp x = 2 powi exponent x / 2 ^ 52"
    by (simp add: ulp_def power_int_diff)
  also have "\<dots> \<le> x / 2 ^ 52"
    using exponent_lower [OF assms] by (intro divide_right_mono) simp_all
  finally show ?thesis by (rule order_trans) simp
next
  case False
  then have "ulp x = 2 powi (-1074)" by (simp add: ulp_def)
  also have "\<dots> \<le> 2 powi (-100)" by (rule power_int_increasing) simp_all
  also have "\<dots> \<le> 1 / 10 ^ 30" by simp
  also have "\<dots> \<le> x / 2 ^ 52 + 1 / 10 ^ 30" using assms by simp
  finally show ?thesis .
qed

lemma round64_error:
  assumes "0 \<le> x" "round64 x = Finite v"
  shows "\<bar>v - x\<bar> \<le> x / 2 ^ 53 + 1 / 10 ^ 30"
proof (cases "x = 0")
  case True
  with assms show ?thesis by (simp add: round64_def)
next
  case False
  with assms have x: "0 < x" by simp
  let ?u = "ulp x"
  from x assms(2) have v: "v = of_int (rne (x / ?u)) * ?u"
    by (simp add: round64_def Let_def split: if_splits)
  have "\<bar>of_int (rne (x / ?u)) - x / ?u\<bar> * ?u \<le> 1 / 2 * ?u"
    using rne_error [of "x / ?u"] ulp_pos [of x] by (intro mult_right_mono) simp_all
  moreover have "\<bar>of_int (rne (x / ?u)) - x / ?u\<bar> * ?u = \<bar>v - x\<bar>"
  proof -
    have "\<bar>of_int (rne (x / ?u)) - x / ?u\<bar> * ?u = \<bar>(of_int (rne (x / ?u)) - x / ?u) * ?u\<bar>"
      using ulp_pos [of x] by (simp add: abs_mult)
    also have "(of_int (rne (x / ?u)) - x / ?u) * ?u = v - x"
      using ulp_pos [of x] by (simp add: v left_diff_distrib)
    finally show ?thesis .
  qed
  ultimately have "\<bar>v - x\<bar> \<le> ?u / 2" by simp
  also have "\<dots> \<le> x / 2 ^ 53 + 1 / 10 ^ 30" using ulp_bound [OF x] x by simp
  finally show ?thesis .
qed

lemma round64_nonneg: "0 \<le> x \<Longrightarrow> round64 x = Finite v \<Longrightarrow> 0 \<le> v"
  using rne_nonneg [of "x / ulp x"] ulp_pos [of x]
  by (auto simp: round64_def Let_def sgn_if split: if_splits)

lemma round64_finite:
  assumes "0 \<le> x" "x \<le> 2 ^ 1000"
  obtains v where "round64 x = Finite v" "0 \<le> v" "\<bar>v - x\<bar> \<le> x / 2 ^ 53 + 1 / 10 ^ 30"
proof (cases "x = 0")
  case True
  then have "round64 x = Finite 0" by (simp add: round64_def)
  with True that show ?thesis by simp
next
  case False
  with assms have x: "0 < x" by simp
  let ?u = "ulp x"
  have "of_int (rne (x / ?u)) \<le> x / ?u + 1 / 2"
    using rne_error [of "x / ?u"] by linarith
  then have "of_int (rne (x / ?u)) * ?u \<le> (x / ?u + 1 / 2) * ?u"
    by (rule mult_right_mono) (simp add: ulp_pos less_imp_le)
  also have "\<dots> = x + ?u / 2" using ulp_pos [of x] by (simp add: field_simps)
  also have "\<dots> \<le> x + (x / 2 ^ 52 + 1 / 10 ^ 30) / 2" using ulp_bound [OF x] by simp
  also have "\<dots> \<le> 4 * 2 ^ 1000"
  proof -
    have "x + (y + z) / 2 \<le> 4 * a" if "0 \<le> x" "x \<le> a" "y \<le> x" "z \<le> a" for y z a :: rat
      using that by (simp add: field_simps)
    from this [OF assms] show ?thesis using x by simp
  qed
  also have "\<dots> < 2 ^ 1024" by simp
  finally have "round64 x = Finite (of_int (rne (x / ?u)) * ?u)"
    using x by (simp add: round64_def Let_def)
  with that round64_nonneg [OF assms(1)] round64_error [OF assms(1)] show ?thesis by blast
qed


section \<open>Scaling a duration by a fraction\<close>

text \<open>
  For durations below about 13 days the three roundings of \<open>mul_f64\<close> stay far below half a
  nanosecond, so a factor below 1 never lengthens the duration.
\<close>

lemma round64_upper:
  assumes "0 \<le> x" "x \<le> 2 ^ 1000"
  obtains v where "round64 x = Finite v" "0 \<le> v" "v \<le> x + x / 2 ^ 53 + 1 / 10 ^ 30"
proof -
  from round64_finite [OF assms] obtain v where
    v: "round64 x = Finite v" "0 \<le> v" "\<bar>v - x\<bar> \<le> x / 2 ^ 53 + 1 / 10 ^ 30" .
  from abs_le_D1 [OF v(3)] have "v \<le> x + x / 2 ^ 53 + 1 / 10 ^ 30" by (simp only: add.assoc diff_le_eq add.commute)
  with v(1,2) that show ?thesis by blast
qed

lemma as_secs_f64_upper:
  assumes "d \<le> 2 ^ 50"
  obtains J where "as_secs_f64 d = Finite J" "0 \<le> J" "J * 10 ^ 9 \<le> of_nat d + 3 / 10"
proof -
  define s n where "s = (of_nat (d div 10 ^ 9) :: rat)" and "n = (of_nat (d mod 10 ^ 9) :: rat) / 10 ^ 9"
  have d: "(of_nat d :: rat) = s * 10 ^ 9 + n * 10 ^ 9"
  proof -
    have "(of_nat d :: rat) = of_nat (d div 10 ^ 9 * 10 ^ 9 + d mod 10 ^ 9)" by simp
    then show ?thesis by (simp only: of_nat_add of_nat_mult s_def n_def) simp
  qed
  have sn: "0 \<le> s" "0 \<le> n" by (simp_all add: s_def n_def)
  have "(of_nat d :: rat) \<le> of_nat (2 ^ 50)" using assms by (simp only: of_nat_le_iff)
  with d have x: "(s + n) * 10 ^ 9 \<le> 2 ^ 50" by (simp add: algebra_simps)
  with sn have b: "s \<le> 2 ^ 50" "n \<le> 2 ^ 50" by (simp_all add: field_simps)
  have le: "s \<le> 2 ^ 1000" "n \<le> 2 ^ 1000"
    using b by (simp_all add: order_trans [OF b(1)] order_trans [OF b(2)])
  from round64_upper [OF sn(1) le(1)] obtain S where
    S: "round64 s = Finite S" "0 \<le> S" "S \<le> s + s / 2 ^ 53 + 1 / 10 ^ 30" .
  from round64_upper [OF sn(2) le(2)] obtain N where
    N: "round64 n = Finite N" "0 \<le> N" "N \<le> n + n / 2 ^ 53 + 1 / 10 ^ 30" .
  have SN: "S + N \<le> (s + n) + (s + n) / 2 ^ 53 + 2 / 10 ^ 30"
    using S(3) N(3) by (simp add: field_simps)
  then have SN2: "(S + N) * 10 ^ 9 \<le> (s + n) * 10 ^ 9 + 126 / 1000"
    using x by (simp add: field_simps)
  then have "S + N \<le> 2 ^ 51" using x by (simp add: field_simps)
  then have "S + N \<le> 2 ^ 1000" by (rule order_trans) simp
  from round64_upper [OF _ this] S(2) N(2) obtain J where
    J: "round64 (S + N) = Finite J" "0 \<le> J" "J \<le> (S + N) + (S + N) / 2 ^ 53 + 1 / 10 ^ 30" by auto
  have "J * 10 ^ 9 \<le> (S + N) * 10 ^ 9 + 126 / 1000"
    using J(3) SN2 x by (simp add: field_simps)
  with SN2 d have "J * 10 ^ 9 \<le> of_nat d + 3 / 10" by (simp add: field_simps)
  moreover have "as_secs_f64 d = Finite J"
    using S(1) N(1) J(1) by (simp add: as_secs_f64_def add64_def div64_def s_def n_def)
  ultimately show ?thesis using that J(2) by blast
qed

lemma mul_f64_le:
  assumes "d \<le> 2 ^ 50" "0 \<le> f" "f \<le> 1 - 1 / 2 ^ 53"
  obtains n where "mul_f64 d f = Some n" "n \<le> d"
proof -
  from as_secs_f64_upper [OF assms(1)] obtain J where
    J: "as_secs_f64 d = Finite J" "0 \<le> J" "J * 10 ^ 9 \<le> of_nat d + 3 / 10" .
  have dd: "(of_nat d :: rat) \<le> 2 ^ 50"
    using assms(1) by (metis of_nat_le_iff of_nat_numeral of_nat_power)
  have f: "f * J \<le> (1 - 1 / 2 ^ 53) * J" using assms(3) J(2) by (rule mult_right_mono)
  then have fJ: "f * J \<le> J" using J(2) by (simp add: algebra_simps)
  have "J \<le> 2 ^ 51" using J(3) dd by (simp add: field_simps)
  with fJ have "f * J \<le> 2 ^ 51" by simp
  then have "f * J \<le> 2 ^ 1000" by (rule order_trans) simp
  from round64_upper [OF _ this] assms(2) J(2) obtain P where
    P: "round64 (f * J) = Finite P" "0 \<le> P" "P \<le> f * J + f * J / 2 ^ 53 + 1 / 10 ^ 30" by auto
  note P(3)
  also have "f * J + f * J / 2 ^ 53 + 1 / 10 ^ 30 \<le> J + 1 / 10 ^ 30"
    using f J(2) by (simp add: field_simps)
  finally have "P * 10 ^ 9 < of_int (int d) + 1 / 2" using J(3) by (simp add: field_simps)
  then have le: "rne (P * 10 ^ 9) \<le> int d" by (rule rne_le)
  then have "nat (rne (P * 10 ^ 9)) \<le> d" by simp
  moreover have "d < DUR_LIMIT" using assms(1) by simp
  ultimately have "mul_f64 d f = Some (nat (rne (P * 10 ^ 9)))"
    using J(1) P(1,2) by (simp add: mul_f64_def mul64_def from_secs_f64_def)
  with \<open>nat (rne (P * 10 ^ 9)) \<le> d\<close> that show ?thesis by blast
qed

end
