(* ===== verification/Rng.thy ===== *)
theory Rng
  imports Binary64
begin

unbundle bit_operations_syntax

text \<open>
  The generator of \<open>src/forge/wire.rs\<close> (\<open>Rng\<close>): splitmix64 seeding, xorshift64* steps and the
  53-bit fraction.  The lemmas show that its state is never the fixed point 0, that every step
  and the seeding mix are injective, and that a sample lies in \<open>[0, 1)\<close>.
\<close>

abbreviation GOLDEN :: u64 where "GOLDEN \<equiv> 0x9E3779B97F4A7C15"

definition splitmix :: "u64 \<Rightarrow> u64" where
  "splitmix seed =
     (let z = seed + GOLDEN;
          z = (z XOR drop_bit 30 z) * 0xBF58476D1CE4E5B9;
          z = (z XOR drop_bit 27 z) * 0x94D049BB133111EB
      in z XOR drop_bit 31 z)"

definition rng_new :: "u64 \<Rightarrow> u64" where
  "rng_new seed = (let z = splitmix seed in if z = 0 then 1 else z)"

definition rng_next :: "u64 \<Rightarrow> u64 \<times> u64" where
  "rng_next s =
     (let x = s;
          x = x XOR drop_bit 12 x;
          x = x XOR push_bit 25 x;
          x = x XOR drop_bit 27 x
      in (x * 0x2545F4914F6CDD1D, x))"

definition rng_f64 :: "u64 \<Rightarrow> rat \<times> u64" where
  "rng_f64 s = (case rng_next s of (n, s') \<Rightarrow> (of_nat (unat (drop_bit 11 n)) * (1 / 2 ^ 53), s'))"

section \<open>Injectivity of the mixing steps\<close>

lemma drop_bit_fixed:
  fixes z :: u64
  assumes "z = drop_bit n z" "0 < n"
  shows "z = 0"
proof (rule bit_word_eqI)
  fix k
  have step: "bit z j \<Longrightarrow> bit z (j + n)" for j
    by (subst (asm) assms(1)) (simp add: bit_drop_bit_eq add.commute)
  have "bit z k \<Longrightarrow> bit z (k + m * n)" for m
  proof (induction m)
    case (Suc m)
    then have "bit z (k + m * n + n)" using step by blast
    then show ?case by (simp add: algebra_simps)
  qed simp
  moreover have "\<not> bit z (k + 64 * n)"
    using assms(2) bit_imp_le_length [of z "k + 64 * n"] by auto
  ultimately show "bit z k = bit (0 :: u64) k" by auto
qed

lemma push_bit_fixed:
  fixes z :: u64
  assumes "z = push_bit n z" "0 < n"
  shows "z = 0"
proof (rule bit_word_eqI)
  fix k
  have "\<not> bit z k"
  proof (induction k rule: less_induct)
    case (less k)
    show ?case
    proof
      assume "bit z k"
      then have "bit (push_bit n z) k" using assms(1) by simp
      then have "n \<le> k" "bit z (k - n)" by (simp_all add: bit_push_bit_iff)
      with less.IH [of "k - n"] assms(2) show False by simp
    qed
  qed
  then show "bit z k = bit (0 :: u64) k" by simp
qed

lemma xor_eq_shift:
  fixes a b x y :: u64
  assumes "x XOR a = y XOR b"
  shows "x XOR y = a XOR b"
proof -
  have "x XOR y = x XOR ((y XOR b) XOR b)" by (simp only: word_xor_self_cancel)
  also have "\<dots> = (x XOR x) XOR a XOR b" by (simp only: assms [symmetric] xor.assoc)
  finally show ?thesis by simp
qed

lemma xor_zero_eq: "x XOR y = (0 :: u64) \<Longrightarrow> x = y"
  using word_xor_self_cancel [of x y] by simp

lemma xorshift_right_inj:
  fixes x y :: u64
  assumes "x XOR drop_bit n x = y XOR drop_bit n y" "0 < n"
  shows "x = y"
proof -
  have "x XOR y = drop_bit n (x XOR y)"
    unfolding drop_bit_xor by (rule xor_eq_shift [OF assms(1)])
  from xor_zero_eq [OF drop_bit_fixed [OF this assms(2)]] show ?thesis .
qed

lemma xorshift_left_inj:
  fixes x y :: u64
  assumes "x XOR push_bit n x = y XOR push_bit n y" "0 < n"
  shows "x = y"
proof -
  have "x XOR y = push_bit n (x XOR y)"
    unfolding push_bit_xor by (rule xor_eq_shift [OF assms(1)])
  from xor_zero_eq [OF push_bit_fixed [OF this assms(2)]] show ?thesis .
qed

lemma mult_unit_inj:
  assumes "c * d = (1 :: u64)" "x * c = y * c"
  shows "x = y"
proof -
  have "x = x * c * d" "y = y * c * d" using assms(1) by (simp_all add: mult.assoc)
  with assms(2) show ?thesis by simp
qed

lemma mix_units:
  "GOLDEN * 17428512612931826493 = 1"
  "(0xBF58476D1CE4E5B9 :: u64) * 10871156337175269513 = 1"
  "(0x94D049BB133111EB :: u64) * 3573116690164977347 = 1"
  by simp_all

lemma splitmix_inj: "splitmix a = splitmix b \<Longrightarrow> a = b"
  unfolding splitmix_def Let_def
  by (drule xorshift_right_inj, rule zero_less_numeral, drule mult_unit_inj [OF mix_units(3)],
      drule xorshift_right_inj, rule zero_less_numeral, drule mult_unit_inj [OF mix_units(2)],
      drule xorshift_right_inj, rule zero_less_numeral, erule add_right_imp_eq)

lemma rng_new_eq_imp:
  assumes "rng_new a = rng_new b"
  shows "a = b \<or> rng_new a = 1"
  using assms splitmix_inj [of a b] by (auto simp: rng_new_def Let_def split: if_splits)

lemma rng_new_nonzero [wf_intros]: "rng_new s \<noteq> 0"
  by (simp add: rng_new_def Let_def)

lemma rng_next_inj: "snd (rng_next a) = snd (rng_next b) \<Longrightarrow> a = b"
  unfolding rng_next_def Let_def snd_conv
  by (drule xorshift_right_inj, rule zero_less_numeral, drule xorshift_left_inj, rule zero_less_numeral,
      drule xorshift_right_inj, rule zero_less_numeral, assumption)

lemma rng_next_nonzero [wf_intros]: "s \<noteq> 0 \<Longrightarrow> snd (rng_next s) \<noteq> 0"
proof
  assume "snd (rng_next s) = 0"
  moreover have "snd (rng_next 0) = 0" by (simp add: rng_next_def)
  ultimately have "s = 0" using rng_next_inj [of s 0] by simp
  moreover assume "s \<noteq> 0"
  ultimately show False by simp
qed

lemma rng_f64_bounds:
  assumes "rng_f64 s = (f, s')"
  shows "0 \<le> f" "f \<le> 1 - 1 / 2 ^ 53" "f < 1"
proof -
  define n where "n = unat (drop_bit 11 (fst (rng_next s)))"
  have f: "f = of_nat n / 2 ^ 53"
    using assms by (auto simp: rng_f64_def n_def split: prod.splits)
  have "n < 2 ^ 53"
    using unsigned_less [of "fst (rng_next s)", where 'a = nat]
    by (simp add: n_def drop_bit_eq_div unat_div div_less_iff_less_mult)
  then have "n \<le> 2 ^ 53 - 1" by simp
  then have "(of_nat n :: rat) \<le> of_nat (2 ^ 53 - 1)" by (simp only: of_nat_le_iff)
  then show "f \<le> 1 - 1 / 2 ^ 53" "0 \<le> f" "f < 1" by (simp_all add: f field_simps)
qed

lemma rng_f64_state: "snd (rng_f64 s) = snd (rng_next s)"
  by (simp add: rng_f64_def split: prod.splits)

end
