(* ===== verification/Wire.thy ===== *)
theory Wire
  imports Rng "HOL-Library.Monad_Syntax"
begin

unbundle bit_operations_syntax

text \<open>
  The wire model of \<open>src/forge/wire.rs\<close>: \<open>WireSpec\<close>, one direction of a wire (\<open>Wire\<close>) with its
  pacing cursor and generator, the planner \<open>plan\<close>, and the three tasks that carry out its
  schedule.  \<open>None\<close> is a panic.  Time is a number of nanoseconds; \<open>now\<close> is an argument
  wherever the code reads the clock.
\<close>

section \<open>Configuration\<close>

record wire_spec =
  spec_baud :: "u32 option"
  spec_latency :: "duration option"
  spec_jitter :: "duration option"
  spec_drop :: "rat option"
  spec_corrupt :: "rat option"
  spec_seed :: "u64 option"

definition default_spec :: wire_spec where
  "default_spec = \<lparr>spec_baud = None, spec_latency = None, spec_jitter = None, spec_drop = None,
     spec_corrupt = None, spec_seed = None\<rparr>"

text \<open>\<open>subsec\<close>: the sub-second nanoseconds of the clock, \<open>pid\<close> the process id.\<close>

definition resolve_seed :: "u32 \<Rightarrow> u32 \<Rightarrow> wire_spec \<Rightarrow> wire_spec" where
  "resolve_seed subsec pid spec =
     (let stochastic = spec_drop spec \<noteq> None \<or> spec_corrupt spec \<noteq> None \<or> spec_jitter spec \<noteq> None
      in if stochastic \<and> spec_seed spec = None
         then spec\<lparr>spec_seed := Some (ucast subsec XOR push_bit 32 (ucast pid))\<rparr>
         else spec)"

section \<open>One direction\<close>

record cell =
  cell_data :: bytes
  due :: instant

record wire =
  byte_time :: "duration option"
  cell_bytes :: nat
  latency :: duration
  jitter :: duration
  drop_p :: rat
  corrupt_p :: rat
  rng :: u64
  cursor :: instant

definition wire_byte_time :: "wire_spec \<Rightarrow> duration option option" where
  "wire_byte_time spec =
     (case spec_baud spec of
        None \<Rightarrow> Some None
      | Some b \<Rightarrow> map_option Some (from_secs_f64 (div64 10 (of_nat (unat b)))))"

definition wire_cell_bytes :: "wire_spec \<Rightarrow> nat" where
  "wire_cell_bytes spec =
     (case spec_baud spec of Some b \<Rightarrow> max 1 ((unat b div 10) div 200) | None \<Rightarrow> 2 ^ 64 - 1)"

definition wire_new :: "wire_spec \<Rightarrow> u64 \<Rightarrow> instant \<Rightarrow> wire option" where
  "wire_new spec direction now =
     do {
       bt \<leftarrow> wire_byte_time spec;
       Some \<lparr>byte_time = bt, cell_bytes = wire_cell_bytes spec,
         latency = (case spec_latency spec of None \<Rightarrow> 0 | Some d \<Rightarrow> d),
         jitter = (case spec_jitter spec of None \<Rightarrow> 0 | Some d \<Rightarrow> d),
         drop_p = (case spec_drop spec of None \<Rightarrow> 0 | Some p \<Rightarrow> p),
         corrupt_p = (case spec_corrupt spec of None \<Rightarrow> 0 | Some p \<Rightarrow> p),
         rng = rng_new ((case spec_seed spec of None \<Rightarrow> 0 | Some s \<Rightarrow> s) + direction * GOLDEN),
         cursor = now\<rparr>
     }"

definition build_pair_nth :: "wire_spec \<Rightarrow> u64 \<Rightarrow> instant \<Rightarrow> (wire \<times> wire) option" where
  "build_pair_nth spec session now =
     do {
       let base = session * 2;
       there \<leftarrow> wire_new spec base now;
       back_wire \<leftarrow> wire_new spec (base + 1) now;
       Some (there, back_wire)
     }"

definition build_pair :: "wire_spec \<Rightarrow> instant \<Rightarrow> (wire \<times> wire) option" where
  "build_pair spec now = build_pair_nth spec 0 now"

section \<open>Faults\<close>

text \<open>
  One byte through the closure of \<open>transform\<close>: each test samples the generator only when its
  probability is positive.
\<close>

definition corrupt_byte :: "wire \<Rightarrow> u8 \<Rightarrow> u64 \<Rightarrow> u8 option \<times> u64" where
  "corrupt_byte w b r =
     (if corrupt_p w > 0 then
        (case rng_f64 r of (f, r) \<Rightarrow>
           if f < corrupt_p w then
             (case rng_next r of (n, r) \<Rightarrow> (Some (b XOR push_bit (unat (n mod 8)) 1), r))
           else (Some b, r))
      else (Some b, r))"

definition transform_byte :: "wire \<Rightarrow> u8 \<Rightarrow> u64 \<Rightarrow> u8 option \<times> u64" where
  "transform_byte w b r =
     (if drop_p w > 0 then
        (case rng_f64 r of (f, r) \<Rightarrow> if f < drop_p w then (None, r) else corrupt_byte w b r)
      else corrupt_byte w b r)"

fun transform_bytes :: "wire \<Rightarrow> bytes \<Rightarrow> u64 \<Rightarrow> bytes \<times> u64" where
  "transform_bytes w [] r = ([], r)"
| "transform_bytes w (b # bs) r =
     (case transform_byte w b r of
        (out, r) \<Rightarrow> (case transform_bytes w bs r of
           (outs, r) \<Rightarrow> (case out of None \<Rightarrow> outs | Some c \<Rightarrow> c # outs, r)))"

definition transform :: "wire \<Rightarrow> bytes \<Rightarrow> bytes \<times> wire" where
  "transform w chunk =
     (if drop_p w = 0 \<and> corrupt_p w = 0 then (chunk, w)
      else (case transform_bytes w chunk (rng w) of (out, r) \<Rightarrow> (out, w\<lparr>rng := r\<rparr>)))"

definition jitter_sample :: "wire \<Rightarrow> (duration \<times> wire) option" where
  "jitter_sample w =
     (if jitter w = 0 then Some (0, w)
      else (case rng_f64 (rng w) of
         (f, r) \<Rightarrow> map_option (\<lambda>d. (d, w\<lparr>rng := r\<rparr>)) (mul_f64 (jitter w) f)))"

section \<open>Planning\<close>

text \<open>\<open>slice::chunks\<close>: pieces of \<open>n\<close> elements, the last one possibly shorter.\<close>

function chunks :: "nat \<Rightarrow> 'a list \<Rightarrow> 'a list list" where
  "chunks n xs = (if n = 0 \<or> xs = [] then [] else take n xs # chunks n (drop n xs))"
  by pat_completeness auto
termination
  by (relation "measure (\<lambda>(n, xs). length xs)") auto

declare chunks.simps [simp del]

fun plan_chunks :: "wire \<Rightarrow> duration \<Rightarrow> bytes list \<Rightarrow> (wire \<times> cell list) option" where
  "plan_chunks w lat [] = Some (w, [])"
| "plan_chunks w lat (chunk # rest) =
     do {
       cur \<leftarrow> (case byte_time w of
                 None \<Rightarrow> Some (cursor w)
               | Some bt \<Rightarrow> do { d \<leftarrow> dur_mul bt (of_nat (length chunk)); instant_add (cursor w) d });
       let (out, w) = transform (w\<lparr>cursor := cur\<rparr>) chunk;
       cells \<leftarrow> (if out = [] then Some []
                 else do { t \<leftarrow> instant_add cur lat; Some [\<lparr>cell_data = out, due = t\<rparr>] });
       (w, more) \<leftarrow> plan_chunks w lat rest;
       Some (w, cells @ more)
     }"

definition plan :: "wire \<Rightarrow> instant \<Rightarrow> bytes \<Rightarrow> (wire \<times> cell list) option" where
  "plan w now d =
     do {
       let w = (if cursor w < now then w\<lparr>cursor := now\<rparr> else w);
       (j, w) \<leftarrow> jitter_sample w;
       lat \<leftarrow> dur_add (latency w) j;
       plan_chunks w lat (chunks (cell_bytes w) d)
     }"

section \<open>Faults: what can happen to a byte\<close>

lemma concat_chunks [simp]: "0 < n \<Longrightarrow> concat (chunks n xs) = xs"
  by (induction n xs rule: chunks.induct) (subst chunks.simps, auto)

lemma chunks_bounds: "c \<in> set (chunks n xs) \<Longrightarrow> c \<noteq> [] \<and> length c \<le> n"
proof (induction n xs rule: chunks.induct)
  case (1 n xs)
  from "1.prems" have ne: "n \<noteq> 0" "xs \<noteq> []"
    and "c = take n xs \<or> c \<in> set (chunks n (drop n xs))"
    by (subst (asm) chunks.simps; auto split: if_splits)+
  then show ?case using "1.IH" by auto
qed

text \<open>
  The noise of a line as a relation: bytes vanish, arrive, or arrive with one bit flipped;
  nothing is reordered, doubled or invented.
\<close>

inductive noise :: "bytes \<Rightarrow> bytes \<Rightarrow> bool" where
  noise_Nil: "noise [] []"
| noise_drop: "noise bs cs \<Longrightarrow> noise (b # bs) cs"
| noise_keep: "noise bs cs \<Longrightarrow> noise (b # bs) (b # cs)"
| noise_flip: "noise bs cs \<Longrightarrow> k < 8 \<Longrightarrow> noise (b # bs) ((b XOR push_bit k 1) # cs)"

lemmas noise_intros = noise_Nil noise_drop noise_keep noise_flip

inductive_cases noise_NilE: "noise [] cs"

definition one_bit_off :: "u8 \<Rightarrow> u8 \<Rightarrow> bool" where
  "one_bit_off b c \<longleftrightarrow> (\<exists>k < 8. c = b XOR push_bit k 1)"

lemma noise_flip_off: "noise bs cs \<Longrightarrow> one_bit_off b c \<Longrightarrow> noise (b # bs) (c # cs)"
  unfolding one_bit_off_def using noise_flip by blast

lemma mod8_less: "unat (n mod 8 :: u64) < 8"
  by (simp add: unat_mod)

lemma corrupt_byte_cases:
  obtains (same) "fst (corrupt_byte w b r) = Some b"
  | (flipped) c where "fst (corrupt_byte w b r) = Some c" "one_bit_off b c" "corrupt_p w > 0"
proof (cases "fst (corrupt_byte w b r) = Some b")
  case False
  then have "corrupt_p w > 0"
    "\<exists>n. fst (corrupt_byte w b r) = Some (b XOR push_bit (unat (n mod 8 :: u64)) 1)"
    by (auto simp: corrupt_byte_def split: prod.splits if_splits)
  with flipped mod8_less show ?thesis by (auto simp: one_bit_off_def)
qed (rule same)

lemma transform_byte_cases:
  obtains (dropped) "fst (transform_byte w b r) = None" "drop_p w > 0"
  | (same) "fst (transform_byte w b r) = Some b"
  | (flipped) c where "fst (transform_byte w b r) = Some c" "one_bit_off b c" "corrupt_p w > 0"
proof (cases "fst (transform_byte w b r)")
  case None
  then have "drop_p w > 0"
    by (cases rule: corrupt_byte_cases [of w b "if drop_p w > 0 then snd (rng_f64 r) else r"])
       (auto simp: transform_byte_def split: prod.splits if_splits)
  with None dropped show ?thesis by blast
next
  case (Some c)
  let ?r = "if drop_p w > 0 then snd (rng_f64 r) else r"
  from Some have "fst (corrupt_byte w b ?r) = Some c"
    by (auto simp: transform_byte_def split: prod.splits if_splits)
  with Some same flipped show ?thesis
    by (cases rule: corrupt_byte_cases [of w b ?r]) auto
qed

lemma transform_bytes_append:
  "transform_bytes w (xs @ ys) r =
     (case transform_bytes w xs r of (o1, r1) \<Rightarrow>
        (case transform_bytes w ys r1 of (o2, r2) \<Rightarrow> (o1 @ o2, r2)))"
  by (induction xs arbitrary: r) (auto split: prod.splits option.splits)

lemma transform_bytes_cong:
  "drop_p v = drop_p w \<Longrightarrow> corrupt_p v = corrupt_p w \<Longrightarrow> transform_bytes v xs r = transform_bytes w xs r"
  by (induction xs arbitrary: r)
     (simp_all add: transform_byte_def corrupt_byte_def split: prod.splits)

lemma transform_bytes_clean:
  "drop_p w = 0 \<Longrightarrow> corrupt_p w = 0 \<Longrightarrow> transform_bytes w xs r = (xs, r)"
  by (induction xs arbitrary: r) (simp_all add: transform_byte_def corrupt_byte_def)

lemma transform_eq:
  "transform w xs = (fst (transform_bytes w xs (rng w)), w\<lparr>rng := snd (transform_bytes w xs (rng w))\<rparr>)"
  by (simp add: transform_def transform_bytes_clean split: prod.splits)

lemma transform_bytes_noise: "noise xs (fst (transform_bytes w xs r))"
proof (induction xs arbitrary: r)
  case (Cons b xs)
  note IH = Cons.IH [of "snd (transform_byte w b r)"]
  show ?case
    by (cases rule: transform_byte_cases [of w b r])
       (use IH in \<open>auto split: prod.splits intro: noise_intros noise_flip_off\<close>)
qed (simp add: noise_Nil)

lemma transform_bytes_lossless:
  assumes "drop_p w \<le> 0"
  shows "list_all2 (\<lambda>b c. c = b \<or> one_bit_off b c \<and> corrupt_p w > 0) xs (fst (transform_bytes w xs r))"
proof (induction xs arbitrary: r)
  case (Cons b xs)
  note IH = Cons.IH [of "snd (transform_byte w b r)"]
  show ?case
    by (cases rule: transform_byte_cases [of w b r]) (use IH assms in \<open>auto split: prod.splits\<close>)
qed simp

lemma corrupt_byte_all:
  assumes "corrupt_p w \<ge> 1"
  shows "\<exists>c. fst (corrupt_byte w b r) = Some c \<and> one_bit_off b c"
proof -
  obtain f r' where f: "rng_f64 r = (f, r')" by fastforce
  with assms rng_f64_bounds(3) [OF f] have "f < corrupt_p w" "corrupt_p w > 0" by simp_all
  with f mod8_less show ?thesis
    by (auto simp: corrupt_byte_def one_bit_off_def split: prod.splits)
qed

lemma transform_bytes_all_corrupt:
  assumes "drop_p w \<le> 0" "corrupt_p w \<ge> 1"
  shows "list_all2 one_bit_off xs (fst (transform_bytes w xs r))"
proof (induction xs arbitrary: r)
  case (Cons b xs)
  note IH = Cons.IH [of "snd (transform_byte w b r)"]
  from corrupt_byte_all [OF assms(2), of b r] assms(1) IH show ?case
    by (auto simp: transform_byte_def split: prod.splits)
qed simp

lemma transform_bytes_all_dropped:
  assumes "drop_p w \<ge> 1"
  shows "fst (transform_bytes w xs r) = []"
proof (induction xs arbitrary: r)
  case (Cons b xs)
  obtain f r' where f: "rng_f64 r = (f, r')" by fastforce
  with assms rng_f64_bounds(3) [OF f] have "f < drop_p w" "drop_p w > 0" by simp_all
  with f Cons.IH [of r'] show ?case
    by (auto simp: transform_byte_def split: prod.splits)
qed simp


section \<open>The schedule\<close>

text \<open>Line time one byte takes; an unthrottled line takes none.\<close>

definition line_time :: "wire \<Rightarrow> nat" where
  "line_time w = (case byte_time w of None \<Rightarrow> 0 | Some bt \<Rightarrow> bt)"

definition wire_wf :: "wire \<Rightarrow> bool" where
  "wire_wf w \<longleftrightarrow> 0 < cell_bytes w \<and> (byte_time w \<noteq> None \<longrightarrow> cell_bytes w < 2 ^ 32)"

text \<open>Everything of a wire that planning never changes.\<close>

definition same_line :: "wire \<Rightarrow> wire \<Rightarrow> bool" where
  "same_line w w' \<longleftrightarrow> byte_time w' = byte_time w \<and> cell_bytes w' = cell_bytes w \<and>
     latency w' = latency w \<and> jitter w' = jitter w \<and> drop_p w' = drop_p w \<and> corrupt_p w' = corrupt_p w"

lemma same_line_refl [simp]: "same_line w w"
  and same_line_trans: "same_line u v \<Longrightarrow> same_line v w \<Longrightarrow> same_line u w"
  and same_line_updates [simp]:
    "same_line w (w'\<lparr>cursor := c\<rparr>) = same_line w w'" "same_line w (w'\<lparr>rng := r\<rparr>) = same_line w w'"
  by (auto simp: same_line_def)

lemma same_line_keeps:
  assumes "same_line w w'"
  shows "line_time w' = line_time w" "wire_wf w' = wire_wf w" "latency w' = latency w" "jitter w' = jitter w"
    "transform_bytes w' xs r = transform_bytes w xs r"
  using assms transform_bytes_cong [of w' w xs r]
  by (simp_all add: same_line_def line_time_def wire_wf_def)

lemma of_nat_len: "n < 2 ^ 32 \<Longrightarrow> unat (of_nat n :: u32) = n"
  by (simp add: unsigned_of_nat take_bit_nat_eq_self)

definition line_cursor :: "wire \<Rightarrow> nat \<Rightarrow> instant option" where
  "line_cursor w n = (case byte_time w of
      None \<Rightarrow> Some (cursor w)
    | Some bt \<Rightarrow> do { d \<leftarrow> dur_mul bt (of_nat n); instant_add (cursor w) d })"

lemma line_cursor_eq:
  assumes "n < 2 ^ 32 \<or> byte_time w = None" "line_cursor w n = Some c"
  shows "c = cursor w + line_time w * n"
  using assms
  by (auto simp: line_cursor_def line_time_def dur_mul_def instant_add_def of_nat_len
      split: option.splits if_splits bind_splits)

text \<open>What one call of the loop body and the rest of the loop produce, taken apart.\<close>

lemma plan_chunks_ConsE:
  assumes "plan_chunks w lat (chunk # rest) = Some (w', cells)"
  obtains cur out w1 more where
    "line_cursor w (length chunk) = Some cur"
    "out = fst (transform_bytes w chunk (rng w))"
    "w1 = w\<lparr>cursor := cur, rng := snd (transform_bytes w chunk (rng w))\<rparr>"
    "plan_chunks w1 lat rest = Some (w', more)"
    "cells = (if out = [] then more else \<lparr>cell_data = out, due = cur + lat\<rparr> # more)"
    "out \<noteq> [] \<longrightarrow> cur + lat < INSTANT_LIMIT"
proof -
  from assms obtain cur where cur: "line_cursor w (length chunk) = Some cur"
    by (auto simp: line_cursor_def split: bind_splits)
  let ?w = "w\<lparr>cursor := cur\<rparr>"
  have c: "transform_bytes ?w chunk r = transform_bytes w chunk r" for r
    by (rule transform_bytes_cong) simp_all
  let ?out = "fst (transform_bytes w chunk (rng w))"
  let ?w1 = "w\<lparr>cursor := cur, rng := snd (transform_bytes w chunk (rng w))\<rparr>"
  have t: "transform ?w chunk = (?out, ?w1)"
    using c by (simp add: transform_eq)
  from assms cur [unfolded line_cursor_def] t obtain more where
    "plan_chunks ?w1 lat rest = Some (w', more)"
    "cells = (if ?out = [] then more else \<lparr>cell_data = ?out, due = cur + lat\<rparr> # more)"
    "?out \<noteq> [] \<longrightarrow> cur + lat < INSTANT_LIMIT"
    by (auto simp: instant_add_def split: bind_splits if_splits)
  with that cur show ?thesis by blast
qed

definition cell_ok :: "wire \<Rightarrow> cell \<Rightarrow> bool" where
  "cell_ok w c \<longleftrightarrow> cell_data c \<noteq> [] \<and> length (cell_data c) \<le> cell_bytes w"

lemma length_transform_bytes: "length (fst (transform_bytes w xs r)) \<le> length xs"
proof (induction xs arbitrary: r)
  case (Cons b xs)
  from Cons.IH [of "snd (transform_byte w b r)"] show ?case
    by (auto split: prod.splits option.splits)
qed simp

lemma plan_chunks_spec:
  assumes "plan_chunks w lat cs = Some (w', cells)"
    and "\<forall>c \<in> set cs. length c \<le> cell_bytes w" and "wire_wf w"
  shows "same_line w w'"
    and "concat (map cell_data cells) = fst (transform_bytes w (concat cs) (rng w))"
    and "rng w' = snd (transform_bytes w (concat cs) (rng w))"
    and "cursor w' = cursor w + line_time w * length (concat cs)"
    and "sorted (map due cells)"
    and "\<forall>c \<in> set cells. cell_ok w c \<and> cursor w + lat \<le> due c \<and> due c \<le> cursor w' + lat"
proof -
  have "same_line w w' \<and>
    concat (map cell_data cells) = fst (transform_bytes w (concat cs) (rng w)) \<and>
    rng w' = snd (transform_bytes w (concat cs) (rng w)) \<and>
    cursor w' = cursor w + line_time w * length (concat cs) \<and>
    sorted (map due cells) \<and>
    (\<forall>c \<in> set cells. cell_ok w c \<and> cursor w + lat \<le> due c \<and> due c \<le> cursor w' + lat)"
    using assms
  proof (induction cs arbitrary: w w' cells)
    case Nil
    then show ?case by simp
  next
    case (Cons chunk rest)
    from Cons.prems(1) obtain cur out w1 more where
      p: "line_cursor w (length chunk) = Some cur"
        "out = fst (transform_bytes w chunk (rng w))"
        "w1 = w\<lparr>cursor := cur, rng := snd (transform_bytes w chunk (rng w))\<rparr>"
        "plan_chunks w1 lat rest = Some (w', more)"
        "cells = (if out = [] then more else \<lparr>cell_data = out, due = cur + lat\<rparr> # more)"
      by (rule plan_chunks_ConsE)
    have "length chunk < 2 ^ 32 \<or> byte_time w = None"
      using Cons.prems(2,3) by (auto simp: wire_wf_def)
    from line_cursor_eq [OF this p(1)] have cur: "cur = cursor w + line_time w * length chunk" .
    have s: "same_line w w1" by (simp add: p(3))
    note k = same_line_keeps [OF s]
    have cb: "cell_bytes w1 = cell_bytes w" by (simp add: p(3))
    have w1: "\<forall>c \<in> set rest. length c \<le> cell_bytes w1" "wire_wf w1"
      using Cons.prems(2,3) k(2) by (simp_all add: p(3))
    note IH = Cons.IH [OF p(4) w1]
    have "length out \<le> cell_bytes w"
      using length_transform_bytes [of w chunk "rng w"] Cons.prems(2) p(2) by fastforce
    then have ok: "\<forall>c \<in> set cells. cell_ok w c"
      using IH cb p(5) by (auto simp: cell_ok_def)
    have tr: "fst (transform_bytes w (concat (chunk # rest)) (rng w)) = out @ fst (transform_bytes w (concat rest) (rng w1))"
      "snd (transform_bytes w (concat (chunk # rest)) (rng w)) = snd (transform_bytes w (concat rest) (rng w1))"
      by (simp_all add: transform_bytes_append p(2,3) split: prod.splits)
    have cu: "cursor w' = cursor w + line_time w * length (concat (chunk # rest))"
      using IH k(1) by (simp add: p(3) cur algebra_simps)
    have lo: "cursor w \<le> cur" "cursor w1 = cur" by (simp_all add: cur p(3))
    have due: "\<forall>c \<in> set cells. cursor w + lat \<le> due c \<and> due c \<le> cursor w' + lat"
      using IH p(5) lo by (auto split: if_splits)
    have "sorted (map due cells)"
      using IH p(5) lo by auto
    with IH ok tr cu due s show ?case
      using k(5) p(5) by (auto intro: same_line_trans)
  qed
  then show "same_line w w'"
    and "concat (map cell_data cells) = fst (transform_bytes w (concat cs) (rng w))"
    and "rng w' = snd (transform_bytes w (concat cs) (rng w))"
    and "cursor w' = cursor w + line_time w * length (concat cs)"
    and "sorted (map due cells)"
    and "\<forall>c \<in> set cells. cell_ok w c \<and> cursor w + lat \<le> due c \<and> due c \<le> cursor w' + lat"
    by blast+
qed


section \<open>One call of the planner\<close>

text \<open>The wire when the schedule of a call starts: an idle line restarts from now.\<close>

definition woken :: "wire \<Rightarrow> instant \<Rightarrow> wire" where
  "woken w now = (if cursor w < now then w\<lparr>cursor := now\<rparr> else w)"

lemma woken_simps [simp]:
  "cursor (woken w now) = max (cursor w) now" "rng (woken w now) = rng w"
  "same_line w (woken w now)" "jitter (woken w now) = jitter w"
  by (auto simp: woken_def)

lemma jitter_sample_cases:
  assumes "jitter_sample w = Some (j, w')"
  obtains "jitter w = 0" "j = 0" "w' = w"
  | f r where "jitter w \<noteq> 0" "rng_f64 (rng w) = (f, r)" "mul_f64 (jitter w) f = Some j" "w' = w\<lparr>rng := r\<rparr>"
  using assms by (auto simp: jitter_sample_def split: if_splits prod.splits)

lemma jitter_sample_le:
  assumes "jitter_sample w = Some (j, w')" "jitter w \<le> 2 ^ 50"
  shows "j \<le> jitter w"
  using assms(1)
proof (cases rule: jitter_sample_cases)
  case 1
  then show ?thesis by simp
next
  case (2 f r)
  then show ?thesis
    using mul_f64_le [OF assms(2) rng_f64_bounds(1,2) [OF 2(2)]] by force
qed

lemma jitter_sample_frame:
  assumes "jitter_sample w = Some (j, w')"
  shows "same_line w w' \<and> cursor w' = cursor w"
  using assms by (cases rule: jitter_sample_cases) auto

lemma plan_split:
  assumes "plan w now d = Some (w', cells)"
  obtains j wj where "jitter_sample (woken w now) = Some (j, wj)" "latency w + j < DUR_LIMIT"
    "plan_chunks wj (latency w + j) (chunks (cell_bytes w) d) = Some (w', cells)"
    "same_line w wj" "cursor wj = max (cursor w) now"
proof -
  from assms obtain j wj lat where
    j: "jitter_sample (woken w now) = Some (j, wj)" and lat: "dur_add (latency wj) j = Some lat"
    and p: "plan_chunks wj lat (chunks (cell_bytes wj) d) = Some (w', cells)"
    by (auto simp: plan_def woken_def Let_def split: bind_splits)
  from jitter_sample_frame [OF j] have f: "same_line w wj" "cursor wj = max (cursor w) now"
    by (auto intro: same_line_trans [of w "woken w now"])
  then have "latency wj = latency w" "cell_bytes wj = cell_bytes w" by (simp_all add: same_line_def)
  with that j lat p f show ?thesis by (auto simp: dur_add_def split: if_splits)
qed

lemma plan_spec:
  assumes "plan w now d = Some (w', cells)" "wire_wf w"
  obtains j r where
    "same_line w w'" "jitter w \<le> 2 ^ 50 \<longrightarrow> j \<le> jitter w"
    "jitter w = 0 \<longrightarrow> r = rng w"
    "concat (map cell_data cells) = fst (transform_bytes w d r)"
    "cursor w' = max (cursor w) now + line_time w * length d"
    "sorted (map due cells)"
    "\<forall>c \<in> set cells. cell_ok w c \<and> max (cursor w) now + (latency w + j) \<le> due c \<and>
       due c \<le> cursor w' + (latency w + j)"
proof -
  from assms(1) obtain j wj where
    j: "jitter_sample (woken w now) = Some (j, wj)"
    and p: "plan_chunks wj (latency w + j) (chunks (cell_bytes w) d) = Some (w', cells)"
    and f: "same_line w wj" "cursor wj = max (cursor w) now"
    by (rule plan_split)
  note k = same_line_keeps [OF f(1)]
  have cb: "0 < cell_bytes w" "cell_bytes wj = cell_bytes w"
    using assms(2) f(1) by (simp_all add: wire_wf_def same_line_def)
  have ch: "\<forall>c \<in> set (chunks (cell_bytes w) d). length c \<le> cell_bytes wj" "wire_wf wj"
    using chunks_bounds cb(2) k(2) assms(2) by fastforce+
  note spec = plan_chunks_spec [OF p ch]
  have jz: "jitter w = 0 \<longrightarrow> rng wj = rng w"
    using j by (auto elim: jitter_sample_cases)
  have jl: "jitter w \<le> 2 ^ 50 \<longrightarrow> j \<le> jitter w"
    using jitter_sample_le [OF j] by simp
  have co: "cell_ok wj c = cell_ok w c" for c using cb(2) by (simp add: cell_ok_def)
  show ?thesis
  proof (rule that [of j "rng wj"])
    show "same_line w w'" using same_line_trans [OF f(1) spec(1)] .
    show "concat (map cell_data cells) = fst (transform_bytes w d (rng wj))"
      using spec(2) cb(1) k(5) by simp
    show "cursor w' = max (cursor w) now + line_time w * length d"
      using spec(4) cb(1) k(1) f(2) by simp
    show "\<forall>c \<in> set cells. cell_ok w c \<and> max (cursor w) now + (latency w + j) \<le> due c \<and>
       due c \<le> cursor w' + (latency w + j)"
      using spec(6) f(2) co by simp
  qed (use jl jz spec(5) in auto)
qed

section \<open>Totality\<close>

lemma plan_chunks_total:
  assumes "wire_wf w" "\<forall>c \<in> set cs. length c \<le> cell_bytes w"
    and "line_time w * cell_bytes w < DUR_LIMIT \<or> byte_time w = None"
    and "cursor w + line_time w * length (concat cs) + lat < INSTANT_LIMIT"
  shows "plan_chunks w lat cs \<noteq> None"
  using assms
proof (induction cs arbitrary: w)
  case (Cons chunk rest)
  let ?n = "length chunk"
  have n: "?n \<le> cell_bytes w" using Cons.prems(2) by simp
  have cur: "(case byte_time w of None \<Rightarrow> Some (cursor w)
      | Some bt \<Rightarrow> do { d \<leftarrow> dur_mul bt (of_nat ?n); instant_add (cursor w) d }) =
      Some (cursor w + line_time w * ?n)"
  proof (cases "byte_time w")
    case None
    then show ?thesis by (simp add: line_time_def)
  next
    case (Some bt)
    have "bt * ?n \<le> bt * cell_bytes w" using n by simp
    moreover have "bt * cell_bytes w < DUR_LIMIT" using Cons.prems(3) Some by (simp add: line_time_def)
    moreover have "unat (of_nat ?n :: u32) = ?n"
      using Cons.prems(1) n Some by (intro of_nat_len) (simp add: wire_wf_def)
    ultimately show ?thesis
      using Cons.prems(4) Some by (simp add: dur_mul_def instant_add_def line_time_def algebra_simps)
  qed
  let ?w = "w\<lparr>cursor := cursor w + line_time w * ?n\<rparr>"
  obtain out w1 where t: "transform ?w chunk = (out, w1)" by fastforce
  then obtain r where w1: "w1 = ?w\<lparr>rng := r\<rparr>" unfolding transform_eq by blast
  have k: "byte_time w1 = byte_time w" "cell_bytes w1 = cell_bytes w" "line_time w1 = line_time w"
    "wire_wf w1 = wire_wf w" "cursor w1 = cursor w + line_time w * ?n"
    by (simp_all add: w1 line_time_def wire_wf_def)
  have "plan_chunks w1 lat rest \<noteq> None"
    by (rule Cons.IH) (use Cons.prems k in \<open>simp_all add: algebra_simps\<close>)
  moreover have "cursor w + line_time w * ?n + lat < INSTANT_LIMIT"
    using Cons.prems(4) by (simp add: algebra_simps)
  ultimately show ?case
    using cur t by (auto simp: instant_add_def)
qed simp

lemma plan_total:
  assumes "wire_wf w" "jitter w \<le> 2 ^ 50"
    and "line_time w * cell_bytes w < DUR_LIMIT \<or> byte_time w = None"
    and "max (cursor w) now + line_time w * length d + latency w + jitter w < INSTANT_LIMIT"
  shows "plan w now d \<noteq> None"
proof -
  let ?u = "woken w now"
  have "jitter_sample ?u \<noteq> None"
  proof (cases "jitter w = 0")
    case False
    obtain f r where f: "rng_f64 (rng ?u) = (f, r)" by fastforce
    from mul_f64_le [OF assms(2) rng_f64_bounds(1,2) [OF f]] obtain n where "mul_f64 (jitter w) f = Some n" .
    with False f show ?thesis by (simp add: jitter_sample_def)
  qed (simp add: jitter_sample_def)
  then obtain j wj where j: "jitter_sample ?u = Some (j, wj)" by force
  from jitter_sample_frame [OF j] have f: "same_line w wj" "cursor wj = max (cursor w) now"
    by (auto intro: same_line_trans [of w ?u])
  then have s: "latency wj = latency w" "cell_bytes wj = cell_bytes w" "byte_time wj = byte_time w"
    by (simp_all add: same_line_def)
  have jl: "j \<le> jitter w" using jitter_sample_le [OF j] assms(2) by simp
  have "latency w + j < DUR_LIMIT" using assms(4) jl by simp
  moreover have "plan_chunks wj (latency w + j) (chunks (cell_bytes w) d) \<noteq> None"
  proof (rule plan_chunks_total)
    show "\<forall>c \<in> set (chunks (cell_bytes w) d). length c \<le> cell_bytes wj"
      using chunks_bounds s(2) by fastforce
    have "concat (chunks (cell_bytes w) d) = d" using assms(1) by (simp add: wire_wf_def)
    then show "cursor wj + line_time wj * length (concat (chunks (cell_bytes w) d)) + (latency w + j) < INSTANT_LIMIT"
      using assms(4) jl f(2) same_line_keeps(1) [OF f(1)] by simp
  qed (use assms s same_line_keeps [OF f(1)] in auto)
  ultimately show ?thesis
    using j s by (auto simp: plan_def woken_def Let_def dur_add_def)
qed

end
