(* ===== verification/Wire_Laws.thy ===== *)
theory Wire_Laws
  imports Wire
begin

unbundle bit_operations_syntax

text \<open>
  What the wire model promises (the semantics its module documentation lists): transparency
  without faults, the noise it may add, the schedule of a call, the line rate over any run of
  calls, totality, and the independence of the random streams.
\<close>

section \<open>Wires as the program builds them\<close>

lemma wire_newE:
  assumes "wire_new spec dir now = Some w"
  obtains bt where "wire_byte_time spec = Some bt" "byte_time w = bt" "cell_bytes w = wire_cell_bytes spec"
    "rng w = rng_new ((case spec_seed spec of None \<Rightarrow> 0 | Some s \<Rightarrow> s) + dir * GOLDEN)" "cursor w = now"
    "latency w = (case spec_latency spec of None \<Rightarrow> 0 | Some d \<Rightarrow> d)"
    "jitter w = (case spec_jitter spec of None \<Rightarrow> 0 | Some d \<Rightarrow> d)"
    "drop_p w = (case spec_drop spec of None \<Rightarrow> 0 | Some p \<Rightarrow> p)"
    "corrupt_p w = (case spec_corrupt spec of None \<Rightarrow> 0 | Some p \<Rightarrow> p)"
  using assms by (auto simp: wire_new_def split: bind_splits)

lemma wire_wf_new [wf_intros]:
  assumes "wire_new spec dir now = Some w"
  shows "wire_wf w"
proof -
  from assms obtain bt where bt: "wire_byte_time spec = Some bt" "byte_time w = bt"
    "cell_bytes w = wire_cell_bytes spec" by (rule wire_newE)
  show ?thesis
  proof (cases "spec_baud spec")
    case None
    with bt show ?thesis by (simp add: wire_wf_def wire_cell_bytes_def wire_byte_time_def)
  next
    case (Some b)
    have "unat b < 2 ^ 32" using unsigned_less [of b, where 'a = nat] by simp
    then have "unat b div 10 div 200 < 2 ^ 32" by (meson div_le_dividend le_less_trans)
    with bt Some show ?thesis by (simp add: wire_wf_def wire_cell_bytes_def)
  qed
qed

lemma wire_wf_plan [wf_intros]:
  "plan w now d = Some (w', cells) \<Longrightarrow> wire_wf w \<Longrightarrow> wire_wf w'"
  by (erule plan_spec, assumption) (simp add: same_line_keeps)

section \<open>The line rate\<close>

lemma byte_time_total:
  assumes "b \<noteq> 0"
  obtains bt where "from_secs_f64 (div64 10 (of_nat (unat (b :: u32)))) = Some bt"
    "\<bar>of_nat bt - 10 ^ 10 / of_nat (unat b)\<bar> \<le> 1 / 2 + (1 / 10 ^ 5 :: rat)"
proof -
  define n :: rat where "n = of_nat (unat b)"
  have n0: "unat b > 0" using assms by (simp add: unat_gt_0)
  then have "1 \<le> unat b" by simp
  then have n: "1 \<le> n" unfolding n_def by (metis of_nat_1 of_nat_le_iff)
  define x where "x = 10 / n"
  have x: "0 \<le> x" "x \<le> 10" using n by (simp_all add: x_def field_simps)
  from x(2) have "x \<le> 2 ^ 1000" by (rule order_trans) simp
  from round64_finite [OF x(1) this] obtain v where
    v: "round64 x = Finite v" "0 \<le> v" "\<bar>v - x\<bar> \<le> x / 2 ^ 53 + 1 / 10 ^ 30" .
  have e: "x / 2 ^ 53 + 1 / 10 ^ 30 \<le> 1 / 10 ^ 14" using x(2) by simp
  have vx: "\<bar>v * 10 ^ 9 - x * 10 ^ 9\<bar> \<le> 1 / 10 ^ 5"
  proof -
    have "\<bar>v * 10 ^ 9 - x * 10 ^ 9\<bar> = \<bar>v - x\<bar> * 10 ^ 9"
      unfolding left_diff_distrib [symmetric] abs_mult by simp
    also have "\<dots> \<le> 1 / 10 ^ 14 * 10 ^ 9"
      using order_trans [OF v(3) e] by (intro mult_right_mono) simp_all
    finally show ?thesis by simp
  qed
  define m where "m = rne (v * 10 ^ 9)"
  have m: "\<bar>of_int m - v * 10 ^ 9\<bar> \<le> 1 / 2" unfolding m_def by (rule rne_error)
  have m0: "0 \<le> m" using v(2) by (simp add: m_def rne_nonneg)
  have "m \<le> 10 ^ 11"
  proof -
    have "v * 10 ^ 9 \<le> 10 ^ 10 + 1" using abs_le_D1 [OF vx] x by simp
    then show ?thesis unfolding m_def by (intro rne_le) simp
  qed
  then have "nat m < DUR_LIMIT" by simp
  moreover have "div64 10 (of_nat (unat b)) = Finite v"
    using n v(1) unfolding n_def [symmetric] div64_def x_def by simp
  ultimately have "from_secs_f64 (div64 10 (of_nat (unat b))) = Some (nat m)"
    using v(2) by (simp add: from_secs_f64_def m_def)
  moreover have "\<bar>of_nat (nat m) - 10 ^ 10 / n\<bar> \<le> 1 / 2 + 1 / 10 ^ 5"
  proof -
    have "10 ^ 10 / n = x * 10 ^ 9" by (simp add: x_def)
    moreover have "\<bar>of_int m - x * 10 ^ 9\<bar> \<le> 1 / 2 + 1 / 10 ^ 5" using m vx by linarith
    ultimately show ?thesis using m0 by simp
  qed
  ultimately show ?thesis using that n_def by blast
qed

lemma byte_time_zero: "from_secs_f64 (div64 10 0) = None"
  by (simp add: from_secs_f64_def div64_def)

section \<open>How much a schedule delivers by a deadline\<close>

definition delivered_by :: "instant \<Rightarrow> cell list \<Rightarrow> nat" where
  "delivered_by T cells = sum_list (map (\<lambda>c. length (cell_data c)) (filter (\<lambda>c. due c \<le> T) cells))"

lemma delivered_by_simps [simp]:
  "delivered_by T [] = 0"
  "delivered_by T (c # cs) = (if due c \<le> T then length (cell_data c) else 0) + delivered_by T cs"
  "delivered_by T (cs @ ds) = delivered_by T cs + delivered_by T ds"
  by (simp_all add: delivered_by_def)

text \<open>
  \<open>within_rate lt c0 n c1 cells\<close>: the schedule started at cursor \<open>c0\<close>, took \<open>n\<close> bytes and
  left the cursor at \<open>c1\<close>, and never delivers more than a line of \<open>lt\<close> per byte could.
\<close>

definition within_rate :: "nat \<Rightarrow> instant \<Rightarrow> nat \<Rightarrow> instant \<Rightarrow> cell list \<Rightarrow> bool" where
  "within_rate lt c0 n c1 cells \<longleftrightarrow> c0 + lt * n \<le> c1 \<and> (\<forall>T. delivered_by T cells \<le> n) \<and>
     (\<forall>T. delivered_by T cells = 0 \<or> c0 + lt * delivered_by T cells \<le> T)"

lemma within_rateD:
  "within_rate lt c0 n c1 cells \<Longrightarrow> delivered_by T cells = 0 \<or> c0 + lt * delivered_by T cells \<le> T"
  by (simp add: within_rate_def)

lemma within_rate_append:
  assumes "within_rate lt c0 m c1 xs" "within_rate lt c1' n c2 ys" "c1 \<le> c1'"
  shows "within_rate lt c0 (m + n) c2 (xs @ ys)"
  unfolding within_rate_def
proof (intro conjI allI)
  have a: "c0 + lt * m \<le> c1'" using assms by (simp add: within_rate_def)
  then show "c0 + lt * (m + n) \<le> c2"
    using assms(2) by (simp add: within_rate_def algebra_simps)
  fix T
  show "delivered_by T (xs @ ys) \<le> m + n"
    using assms by (simp add: within_rate_def add_mono)
  show "delivered_by T (xs @ ys) = 0 \<or> c0 + lt * delivered_by T (xs @ ys) \<le> T"
  proof (cases "delivered_by T ys = 0")
    case True
    then show ?thesis using assms(1) by (simp add: within_rate_def)
  next
    case False
    then have "c1' + lt * delivered_by T ys \<le> T"
      using within_rateD [OF assms(2), of T] by simp
    moreover have "lt * delivered_by T xs \<le> lt * m"
      using assms(1) by (simp add: within_rate_def)
    ultimately have "c0 + (lt * delivered_by T xs + lt * delivered_by T ys) \<le> T"
      using a by linarith
    then show ?thesis by (simp add: distrib_left)
  qed
qed

lemma within_rate_chunks:
  assumes "plan_chunks w lat cs = Some (w', cells)"
    and "\<forall>c \<in> set cs. length c \<le> cell_bytes w" and "wire_wf w"
  shows "within_rate (line_time w) (cursor w) (length (concat cs)) (cursor w') cells"
  using assms
proof (induction cs arbitrary: w cells)
  case Nil
  then show ?case by (simp add: within_rate_def)
next
  case (Cons chunk rest)
  from Cons.prems(1) obtain cur out w1 more where
    p: "line_cursor w (length chunk) = Some cur"
      "out = fst (transform_bytes w chunk (rng w))"
      "w1 = w\<lparr>cursor := cur, rng := snd (transform_bytes w chunk (rng w))\<rparr>"
      "plan_chunks w1 lat rest = Some (w', more)"
      "cells = (if out = [] then more else \<lparr>cell_data = out, due = cur + lat\<rparr> # more)"
    by (rule plan_chunks_ConsE)
  have "length chunk < 2 ^ 32 \<or> byte_time w = None"
    using Cons.prems(2,3) by (auto simp: wire_wf_def)
  from line_cursor_eq [OF this p(1)] have cur: "cur = cursor w + line_time w * length chunk" .
  have s: "same_line w w1" and cb: "cell_bytes w1 = cell_bytes w" by (simp_all add: p(3))
  have "within_rate (line_time w1) (cursor w1) (length (concat rest)) (cursor w') more"
    by (rule Cons.IH [OF p(4)]) (use Cons.prems cb same_line_keeps(2) [OF s] in auto)
  then have rest: "within_rate (line_time w) cur (length (concat rest)) (cursor w') more"
    using same_line_keeps(1) [OF s] by (simp add: p(3))
  have l: "length out \<le> length chunk"
    using length_transform_bytes p(2) by simp
  then have lo: "line_time w * length out \<le> line_time w * length chunk" by simp
  have first: "within_rate (line_time w) (cursor w) (length chunk) cur
      (if out = [] then [] else [\<lparr>cell_data = out, due = cur + lat\<rparr>])"
    using l lo cur by (auto simp: within_rate_def intro: order_trans [of _ cur])
  have "cells = (if out = [] then [] else [\<lparr>cell_data = out, due = cur + lat\<rparr>]) @ more"
    using p(5) by simp
  with within_rate_append [OF first rest] show ?case by simp
qed

lemma within_rate_plan:
  assumes "plan w now d = Some (w', cells)" "wire_wf w"
  shows "within_rate (line_time w) (max (cursor w) now) (length d) (cursor w') cells"
proof -
  from assms(1) obtain j wj where
    p: "plan_chunks wj (latency w + j) (chunks (cell_bytes w) d) = Some (w', cells)"
    and f: "same_line w wj" "cursor wj = max (cursor w) now"
    by (rule plan_split)
  have cb: "0 < cell_bytes w" "cell_bytes wj = cell_bytes w"
    using assms(2) f(1) by (simp_all add: wire_wf_def same_line_def)
  have "\<forall>c \<in> set (chunks (cell_bytes w) d). length c \<le> cell_bytes wj" "wire_wf wj"
    using chunks_bounds cb(2) same_line_keeps(2) [OF f(1)] assms(2) by fastforce+
  from within_rate_chunks [OF p this] f cb same_line_keeps(1) [OF f(1)] show ?thesis by simp
qed

text \<open>A run of the wire: the chunks its task reads, each at the time it is planned.\<close>

fun plan_run :: "wire \<Rightarrow> (instant \<times> bytes) list \<Rightarrow> (wire \<times> cell list) option" where
  "plan_run w [] = Some (w, [])"
| "plan_run w ((now, d) # rest) =
     do {
       (w, cells) \<leftarrow> plan w now d;
       (w, more) \<leftarrow> plan_run w rest;
       Some (w, cells @ more)
     }"

lemma within_rate_run:
  assumes "plan_run w reads = Some (w', cells)" "wire_wf w"
  shows "within_rate (line_time w) (cursor w) (length (concat (map snd reads))) (cursor w') cells"
  using assms
proof (induction reads arbitrary: w cells)
  case Nil
  then show ?case by (simp add: within_rate_def)
next
  case (Cons r reads)
  obtain now d where r: "r = (now, d)" by fastforce
  with Cons.prems(1) obtain w1 xs more where
    p: "plan w now d = Some (w1, xs)" "plan_run w1 reads = Some (w', more)" "cells = xs @ more"
    by (auto split: bind_splits)
  from plan_spec [OF p(1) Cons.prems(2)] have s: "same_line w w1" .
  have first: "within_rate (line_time w) (max (cursor w) now) (length d) (cursor w1) xs"
    by (rule within_rate_plan [OF p(1) Cons.prems(2)])
  have rest: "within_rate (line_time w) (cursor w1) (length (concat (map snd reads))) (cursor w') more"
    using Cons.IH [OF p(2)] Cons.prems(2) same_line_keeps [OF s] by simp
  have z: "within_rate (line_time w) (cursor w) 0 (cursor w) []" by (simp add: within_rate_def)
  from within_rate_append [OF z within_rate_append [OF first rest]]
  show ?case by (simp add: p(3) r)
qed


section \<open>Properties\<close>

text \<open>
  (C40) The line rate of \<open>--baud-sim\<close>.  Without the flag the line is infinitely fast; with a
  positive rate the time per byte is ten bits of it, to within half a nanosecond (and the
  rounding of the quotient); with rate 0 the quotient is infinite and building the wires panics.
\<close>

theorem line_rate:
  "case spec_baud spec of
     None \<Rightarrow> wire_byte_time spec = Some None
   | Some b \<Rightarrow>
       if b = 0 then build_pair_nth spec session now = None
       else \<exists>bt. wire_byte_time spec = Some (Some bt) \<and>
              \<bar>of_nat bt - 10 ^ 10 / of_nat (unat b)\<bar> \<le> 1 / 2 + (1 / 10 ^ 5 :: rat)"
proof (cases "spec_baud spec")
  case None
  then show ?thesis by (simp add: wire_byte_time_def)
next
  case (Some b)
  show ?thesis
  proof (cases "b = 0")
    case True
    with Some show ?thesis
      by (simp add: build_pair_nth_def wire_new_def wire_byte_time_def byte_time_zero Let_def)
  next
    case False
    from byte_time_total [OF False] Some False show ?thesis
      by (auto simp: wire_byte_time_def)
  qed
qed

lemma plan_identity:
  assumes "wire_new default_spec dir t0 = Some w" and "t0 \<le> now" and "now < INSTANT_LIMIT"
    and "d \<noteq> []" and "length d < 2 ^ 63"
  shows "plan w now d = Some (w\<lparr>cursor := now\<rparr>, [\<lparr>cell_data = d, due = now\<rparr>])"
proof -
  from assms(1) have w: "byte_time w = None" "cell_bytes w = 2 ^ 64 - 1" "latency w = 0" "jitter w = 0"
    "drop_p w = 0" "corrupt_p w = 0" "cursor w = t0"
    by (auto simp: wire_byte_time_def wire_cell_bytes_def default_spec_def elim!: wire_newE)
  have u: "(if cursor w < now then w\<lparr>cursor := now\<rparr> else w) = w\<lparr>cursor := now\<rparr>"
    using w(7) assms(2) by simp
  have "chunks (cell_bytes w) d = [d]"
  proof -
    have "take (cell_bytes w) d = d" "drop (cell_bytes w) d = []" using w(2) assms(5) by simp_all
    then show ?thesis
      using assms(4) w(2) by (subst chunks.simps) (simp, subst chunks.simps, simp)
  qed
  then show ?thesis
    using w assms(3,4) unfolding plan_def u
    by (simp add: jitter_sample_def dur_add_def transform_def instant_add_def)
qed

text \<open>
  The identity wire is transparent and immediate: a wire built from the default
  configuration turns every nonempty read into one cell with exactly the bytes read, due now,
  and stays an identity wire.
\<close>

theorem identity_wire:
  assumes "wire_new default_spec dir t0 = Some w" and "t0 \<le> now" and "now < INSTANT_LIMIT"
    and "d \<noteq> []" and "length d < 2 ^ 63"
  shows "plan w now d = Some (w\<lparr>cursor := now\<rparr>, [\<lparr>cell_data = d, due = now\<rparr>])"
  by (rule plan_identity [OF assms])

theorem identity_wire_witness:
  "\<exists>w. wire_new default_spec 0 5 = Some w \<and>
     plan w 7 [1, 255, 0] = Some (w\<lparr>cursor := 7\<rparr>, [\<lparr>cell_data = [1, 255, 0], due = 7\<rparr>])"
proof -
  obtain w where w: "wire_new default_spec 0 5 = Some w"
    by (simp add: wire_new_def wire_byte_time_def default_spec_def)
  from identity_wire [OF w, of 7 "[1, 255, 0]"] w show ?thesis by simp
qed

text \<open>A throttled, delayed and faulty wire: 9600 baud, 5 ms latency, 2 ms jitter.\<close>

definition slow_wire :: wire where
  "slow_wire = \<lparr>byte_time = Some 1041667, cell_bytes = 4, latency = 5000000, jitter = 2000000,
     drop_p = 1 / 1000, corrupt_p = 1 / 1000, rng = 42, cursor = 0\<rparr>"

lemma slow_wire_wf: "wire_wf slow_wire" "jitter slow_wire \<le> 2 ^ 50"
  by (simp_all add: wire_wf_def slow_wire_def)

lemma slow_wire_plans:
  assumes "now \<le> 10 ^ 12" "length d \<le> 10 ^ 6"
  shows "plan slow_wire now d \<noteq> None"
proof (rule plan_total [OF slow_wire_wf])
  have "1041667 * length d \<le> 1041667 * 10 ^ 6" using assms(2) by simp
  with assms(1) show "max (cursor slow_wire) now + line_time slow_wire * length d + latency slow_wire +
    jitter slow_wire < INSTANT_LIMIT"
    by (simp add: slow_wire_def line_time_def)
qed (simp add: slow_wire_def line_time_def)



lemma plan_faults:
  assumes "plan w now d = Some (w', cells)" and "wire_wf w"
  shows "noise d (concat (map cell_data cells)) \<and>
    (drop_p w \<le> 0 \<longrightarrow> length (concat (map cell_data cells)) = length d) \<and>
    (drop_p w \<le> 0 \<and> corrupt_p w \<le> 0 \<longrightarrow> concat (map cell_data cells) = d)"
proof -
  from assms obtain r where r: "concat (map cell_data cells) = fst (transform_bytes w d r)"
    by (rule plan_spec)
  have l: "drop_p w \<le> 0 \<longrightarrow> list_all2 (\<lambda>b c. c = b \<or> one_bit_off b c \<and> corrupt_p w > 0) d
      (fst (transform_bytes w d r))"
    using transform_bytes_lossless by blast
  have e: "list_all2 (\<lambda>b c. c = b \<or> one_bit_off b c \<and> corrupt_p w > 0) xs ys \<Longrightarrow> corrupt_p w \<le> 0 \<Longrightarrow> ys = xs"
    for xs ys by (induction rule: list_all2_induct) auto
  show ?thesis
    unfolding r using transform_bytes_noise l e by (auto dest: list_all2_lengthD)
qed

text \<open>
  What a wire may do to the bytes: of any read, each byte is dropped, delivered, or
  delivered with exactly one bit flipped, in order, nothing doubled or invented.  Without drops
  no byte is lost, and without faults the delivered bytes are the bytes read.
\<close>

theorem plan_noise:
  assumes "plan w now d = Some (w', cells)" and "wire_wf w"
  shows "noise d (concat (map cell_data cells)) \<and>
    (drop_p w \<le> 0 \<longrightarrow> length (concat (map cell_data cells)) = length d) \<and>
    (drop_p w \<le> 0 \<and> corrupt_p w \<le> 0 \<longrightarrow> concat (map cell_data cells) = d)"
  by (rule plan_faults [OF assms])

theorem plan_noise_witness:
  "\<exists>w' cells. plan (slow_wire\<lparr>drop_p := 0\<rparr>) 0 [7, 8, 9, 10, 11] = Some (w', cells) \<and>
     noise [7, 8, 9, 10, 11] (concat (map cell_data cells)) \<and> length (concat (map cell_data cells)) = 5"
proof -
  let ?w = "slow_wire\<lparr>drop_p := 0\<rparr>"
  have w: "wire_wf ?w" by (simp add: wire_wf_def slow_wire_def)
  have "plan ?w 0 [7, 8, 9, 10, 11] \<noteq> None"
    by (rule plan_total [OF w]) (simp_all add: slow_wire_def line_time_def)
  then obtain w' cells where p: "plan ?w 0 [7, 8, 9, 10, 11] = Some (w', cells)" by force
  from plan_noise [OF p w] p show ?thesis by simp
qed

text \<open>
  The extremes of the two probabilities: with \<open>--corrupt 1\<close> every byte arrives with exactly
  one bit flipped; with \<open>--drop 1\<close> nothing is delivered, but the line is occupied all the same.
\<close>

theorem certain_faults:
  assumes "plan w now d = Some (w', cells)" and "wire_wf w"
  shows "(drop_p w = 0 \<and> corrupt_p w = 1 \<longrightarrow> list_all2 one_bit_off d (concat (map cell_data cells))) \<and>
    (drop_p w = 1 \<longrightarrow> cells = [] \<and> cursor w' = max (cursor w) now + line_time w * length d)"
proof -
  from assms obtain r where r: "concat (map cell_data cells) = fst (transform_bytes w d r)"
    and c: "cursor w' = max (cursor w) now + line_time w * length d"
    and ok: "\<forall>c \<in> set cells. cell_ok w c"
    by (rule plan_spec) blast
  have "drop_p w = 1 \<longrightarrow> concat (map cell_data cells) = []"
    unfolding r using transform_bytes_all_dropped [of w d r] by simp
  then have "drop_p w = 1 \<longrightarrow> cells = []"
    using ok by (cases cells) (auto simp: cell_ok_def)
  then show ?thesis
    unfolding r using transform_bytes_all_corrupt [of w d r] c by simp
qed

theorem certain_faults_witness:
  "\<exists>w' cells. plan (slow_wire\<lparr>drop_p := 1\<rparr>) 10 [1, 2, 3] = Some (w', cells) \<and> cells = [] \<and>
     cursor w' = 10 + 1041667 * 3"
proof -
  let ?w = "slow_wire\<lparr>drop_p := 1\<rparr>"
  have w: "wire_wf ?w" by (simp add: wire_wf_def slow_wire_def)
  have "plan ?w 10 [1, 2, 3] \<noteq> None"
    by (rule plan_total [OF w]) (simp_all add: slow_wire_def line_time_def)
  then obtain w' cells where p: "plan ?w 10 [1, 2, 3] = Some (w', cells)" by force
  from certain_faults [OF p w] p show ?thesis by (simp add: slow_wire_def line_time_def)
qed

text \<open>
  Never faster than the line: over any sequence of reads, whenever they come, the number of
  bytes due by a time \<open>T\<close>, times the time per byte, fits between the start of the wire and \<open>T\<close>.
  In particular an idle spell buys no burst.
\<close>

theorem never_faster_than_the_line:
  assumes "plan_run w reads = Some (w', cells)" and "wire_wf w"
  shows "line_time w * delivered_by T cells \<le> T - cursor w"
  using within_rateD [OF within_rate_run [OF assms], of T] by auto

theorem never_faster_than_the_line_witness:
  "\<exists>w' cells. plan_run slow_wire [(0, [1, 2, 3, 4, 5])] = Some (w', cells) \<and>
     1041667 * delivered_by 9000000 cells \<le> 9000000"
proof -
  have "plan slow_wire 0 [1, 2, 3, 4, 5] \<noteq> None" by (rule slow_wire_plans) simp_all
  then obtain w' cells where p: "plan_run slow_wire [(0, [1, 2, 3, 4, 5])] = Some (w', cells)" by force
  from never_faster_than_the_line [OF p slow_wire_wf(1), of 9000000] p show ?thesis
    by (auto simp: slow_wire_def line_time_def)
qed

text \<open>
  (C38) Planning does not panic: as long as the clock, the line time of the read and the delays
  stay within the range of an \<open>Instant\<close> and the jitter below 13 days, every call returns a
  schedule.
\<close>

theorem plan_never_panics:
  assumes "wire_wf w" and "jitter w \<le> 2 ^ 50" and "line_time w * cell_bytes w < DUR_LIMIT \<or> byte_time w = None"
    and "max (cursor w) now + line_time w * length d + latency w + jitter w < INSTANT_LIMIT"
  shows "\<exists>w' cells. plan w now d = Some (w', cells)"
  using plan_total [OF assms] by force

theorem plan_never_panics_witness: "\<exists>w' cells. plan slow_wire 77 [1, 2] = Some (w', cells)"
  by (rule plan_never_panics [OF slow_wire_wf]) (simp_all add: slow_wire_def line_time_def)

text \<open>
  One seed, independent streams: wires built from one specification for different
  directions or sessions start their generators in different states, except for the two seeds
  whose mix is 0 or 1, which share the state 1.
\<close>

theorem streams_differ:
  assumes "wire_new spec d t = Some w" and "wire_new spec d' t' = Some w'" and "d \<noteq> d'"
  shows "rng w \<noteq> rng w' \<or> rng w = 1"
proof -
  have r: "rng w = rng_new ((case spec_seed spec of None \<Rightarrow> 0 | Some s \<Rightarrow> s) + d * GOLDEN)"
    "rng w' = rng_new ((case spec_seed spec of None \<Rightarrow> 0 | Some s \<Rightarrow> s) + d' * GOLDEN)"
    using assms(1,2) by (auto elim!: wire_newE)
  have "d * GOLDEN \<noteq> d' * GOLDEN"
    using mult_unit_inj [OF mix_units(1)] assms(3) by blast
  then show ?thesis unfolding r using rng_new_eq_imp by fastforce
qed

theorem streams_differ_witness:
  "\<exists>w w'. wire_new default_spec 0 0 = Some w \<and> wire_new default_spec 1 0 = Some w' \<and>
     (rng w \<noteq> rng w' \<or> rng w = 1)"
proof -
  obtain w w' where "wire_new default_spec 0 0 = Some w" "wire_new default_spec 1 0 = Some w'"
    by (simp add: wire_new_def wire_byte_time_def default_spec_def)
  with streams_differ [of default_spec 0 0 w 1 0 w'] show ?thesis by auto
qed

text \<open>
  The generator never gets stuck: from any seed, the state after any number of steps is
  not the fixed point 0 of xorshift, and no two states have the same successor.
\<close>

theorem generator_never_stuck:
  "((\<lambda>s. snd (rng_next s)) ^^ n) (rng_new seed) \<noteq> 0 \<and> inj (\<lambda>s. snd (rng_next s))"
proof
  show "((\<lambda>s. snd (rng_next s)) ^^ n) (rng_new seed) \<noteq> 0"
    by (induction n) (simp_all add: rng_new_nonzero rng_next_nonzero)
  show "inj (\<lambda>s. snd (rng_next s))" by (rule injI) (rule rng_next_inj)
qed

end
