(* ===== verification/Pty.thy ===== *)
theory Pty
  imports Settings
begin

unbundle bit_operations_syntax

text \<open>
  The virtual port of \<open>src/forge/pty.rs\<close>: creation, the two nonblocking descriptor loops and
  the termios watchdog.  System calls are outcomes the kernel hands in: the loops run over a
  list of them and are \<open>Waiting\<close> when the list is used up; the terminal is the \<open>tty\<close> of the
  theory Serial.
\<close>

section \<open>The descriptor loops\<close>

text \<open>
  One turn of a loop: the outcome of waiting for readiness (an error ends the loop) and what the
  system call then returned.
\<close>

type_synonym 'a turn = "io_error option \<times> 'a io_result"

datatype 'a progress = Done 'a | Waiting | Panicked

fun read_fd :: "bytes turn list \<Rightarrow> bytes io_result progress" where
  "read_fd [] = Waiting"
| "read_fd ((Some e, _) # _) = Done (IoErr e)"
| "read_fd ((None, IoOk bs) # _) = Done (IoOk bs)"
| "read_fd ((None, IoErr e) # rest) = (if e = WouldBlock then read_fd rest else Done (IoErr e))"

text \<open>\<open>write_all_fd\<close>: what the kernel accepted, and how the call ended.\<close>

fun write_all_fd :: "nat turn list \<Rightarrow> bytes \<Rightarrow> bytes \<times> unit io_result progress" where
  "write_all_fd turns [] = ([], Done (IoOk ()))"
| "write_all_fd [] (b # bs) = ([], Waiting)"
| "write_all_fd ((Some e, _) # _) (b # bs) = ([], Done (IoErr e))"
| "write_all_fd ((None, IoOk n) # rest) (b # bs) =
     (if n > length (b # bs) then ([], Panicked)
      else apfst (\<lambda>sent. take n (b # bs) @ sent) (write_all_fd rest (drop n (b # bs))))"
| "write_all_fd ((None, IoErr e) # rest) (b # bs) =
     (if e = WouldBlock then write_all_fd rest (b # bs) else ([], Done (IoErr e)))"

section \<open>Ports\<close>

record virtual_port =
  master_fd :: nat
  slave_fd :: nat
  slave_tty :: tty

text \<open>
  \<open>create\<close>: \<open>opened\<close> is the outcome of openpty(3), the two descriptors and the terminal behind
  them, or the errno that was found afterwards, which \<open>strerror\<close> prints; \<open>name\<close> is that of
  ptsname_r(3); \<open>afd_ok\<close> whether the runtime could register the master.  The second component
  lists the descriptors closed on the way out.
\<close>

definition create ::
    "(int \<Rightarrow> rstring) \<Rightarrow> (nat \<times> nat \<times> tty, int option) sum \<Rightarrow> nat + rstring \<Rightarrow> bool \<Rightarrow>
     (error + (virtual_port \<times> rstring)) \<times> nat list" where
  "create strerror opened name afd_ok =
     (case opened of
        Inr errno \<Rightarrow>
          (let detail = (case errno of
               Some code \<Rightarrow> if code > 0 then chars '' ('' @ strerror code @ chars '')'' else []
             | None \<Rightarrow> [])
           in (Inl [SetupError, Msg (chars ''openpty failed'' @ detail @ chars '' '' @ [0x2014] @
                 chars '' the system may be out of ptys (macOS: sysctl kern.tty.ptmx_max)'')], []))
      | Inl (master, slave, device) \<Rightarrow>
          (case name of
             Inl rc \<Rightarrow> (Inl [SetupError, Msg (chars (''ptsname_r on pty master (errno '' @ decimal rc @ '')'')),
                 Os (OtherErr rc)], [master, slave])
           | Inr path \<Rightarrow>
               if afd_ok
               then (Inr (\<lparr>master_fd = master, slave_fd = slave, slave_tty = device\<rparr>, path), [])
               else (Inl [SetupError, Msg (chars ''AsyncFd for pty master'')], [master, slave])))"

text \<open>The attributes openpty is given: \<open>cfmakeraw\<close> of a zeroed struct.\<close>

definition zeroed :: termios where
  "zeroed = \<lparr>c_iflag = 0, c_oflag = 0, c_cflag = 0, c_lflag = 0, c_cc = (\<lambda>_. 0), c_ispeed = 0, c_ospeed = 0\<rparr>"

definition create_termios :: "libc \<Rightarrow> termios" where
  "create_termios lc = cfmakeraw lc zeroed"

definition port_termios :: "virtual_port \<Rightarrow> termios option" where
  "port_termios port = (case tcgetattr (slave_tty port) of Inl _ \<Rightarrow> None | Inr tio \<Rightarrow> Some tio)"

section \<open>The termios watchdog\<close>

definition reassert_request :: "libc \<Rightarrow> bool \<Rightarrow> termios \<Rightarrow> termios" where
  "reassert_request lc reset_line_params tio =
     (let cflag = c_cflag tio; ispeed = cfgetispeed lc tio; ospeed = cfgetospeed lc tio;
          tio = cfmakeraw lc tio
      in if reset_line_params then tio
         else cfsetospeed lc (cfsetispeed lc (tio\<lparr>c_cflag := cflag\<rparr>) ispeed) ospeed)"

definition reassert :: "libc \<Rightarrow> bool \<Rightarrow> virtual_port \<Rightarrow> bool \<times> virtual_port" where
  "reassert lc reset_line_params port =
     (case tcgetattr (slave_tty port) of
        Inl _ \<Rightarrow> (False, port)
      | Inr tio \<Rightarrow>
          if \<not> cooked lc tio then (False, port)
          else (case tcsetattr (slave_tty port) (reassert_request lc reset_line_params tio) of
                  Inl _ \<Rightarrow> (False, port)
                | Inr d \<Rightarrow> (True, port\<lparr>slave_tty := d\<rparr>)))"

definition reassert_raw_if_needed :: "libc \<Rightarrow> virtual_port \<Rightarrow> bool \<times> virtual_port" where
  "reassert_raw_if_needed lc port = reassert lc True port"

definition reassert_line_discipline_if_needed :: "libc \<Rightarrow> virtual_port \<Rightarrow> bool \<times> virtual_port" where
  "reassert_line_discipline_if_needed lc port = reassert lc False port"

section \<open>The write loop\<close>

lemma write_all_prefix: "write_all_fd turns d = (sent, r) \<Longrightarrow> \<exists>rest. d = sent @ rest"
proof (induction turns d arbitrary: sent r rule: write_all_fd.induct)
  case (4 n turns b bs)
  show ?case
  proof (cases "n > length (b # bs)")
    case False
    obtain s r' where w: "write_all_fd turns (drop n (b # bs)) = (s, r')" by fastforce
    with "4.IH" [OF False w] obtain rest where "drop n (b # bs) = s @ rest" by blast
    moreover have "sent = take n (b # bs) @ s" using "4.prems" False w by simp
    ultimately have "b # bs = sent @ rest" by (metis append_assoc append_take_drop_id)
    then show ?thesis by blast
  qed (use "4.prems" in simp)
qed (auto split: if_splits)

lemma write_all_complete: "write_all_fd turns d = (sent, Done (IoOk ())) \<Longrightarrow> sent = d"
proof (induction turns d arbitrary: sent rule: write_all_fd.induct)
  case (4 n turns b bs)
  show ?case
  proof (cases "n > length (b # bs)")
    case False
    obtain s r' where w: "write_all_fd turns (drop n (b # bs)) = (s, r')" by fastforce
    with "4.prems" False have s: "sent = take n (b # bs) @ s" "r' = Done (IoOk ())" by simp_all
    with "4.IH" [OF False] w have "s = drop n (b # bs)" by simp
    with s(1) show ?thesis by simp
  qed (use "4.prems" in simp)
qed (auto split: if_splits)

lemma write_all_panic:
  "write_all_fd turns d = (sent, r) \<Longrightarrow>
   r = Panicked \<longrightarrow> (\<exists>n. (None, IoOk n) \<in> set turns \<and> length d - length sent < n)"
proof (induction turns d arbitrary: sent r rule: write_all_fd.induct)
  case (4 n turns b bs)
  show ?case
  proof (cases "n > length (b # bs)")
    case True
    with "4.prems" show ?thesis by auto
  next
    case False
    obtain s r' where w: "write_all_fd turns (drop n (b # bs)) = (s, r')" by fastforce
    with "4.prems" False have s: "sent = take n (b # bs) @ s" "r = r'" by simp_all
    have "length (b # bs) - length sent = length (drop n (b # bs)) - length s"
      using s(1) False by simp
    with "4.IH" [OF False w] s(2) show ?thesis by (metis list.set_intros(2))
  qed
qed (auto split: if_splits)

text \<open>Turns in which the kernel keeps its word: no errors, never more than was asked for.\<close>

definition turn_ok :: "nat turn \<Rightarrow> bool" where
  "turn_ok t \<longleftrightarrow> fst t = None \<and> (\<forall>e. snd t = IoErr e \<longrightarrow> e = WouldBlock)"

definition accepted :: "nat turn list \<Rightarrow> nat" where
  "accepted turns = length (filter (\<lambda>t. \<exists>n > 0. snd t = IoOk n) turns)"

lemma write_all_progress:
  assumes "list_all turn_ok turns" "length d \<le> accepted turns"
  shows "snd (write_all_fd turns d) = Done (IoOk ()) \<or> snd (write_all_fd turns d) = Panicked"
  using assms
proof (induction turns d rule: write_all_fd.induct)
  case (4 n turns b bs)
  show ?case
  proof (cases "n > length (b # bs)")
    case False
    have "length (drop n (b # bs)) \<le> accepted turns"
      using "4.prems"(2) by (cases n) (auto simp: accepted_def)
    from "4.IH" [OF False _ this] "4.prems"(1) False show ?thesis by simp
  qed simp
next
  case (5 e turns b bs)
  then have "e = WouldBlock" by (simp add: turn_ok_def)
  with 5 show ?case by (simp add: accepted_def)
qed (auto simp: accepted_def turn_ok_def)

section \<open>The watchdog\<close>

text \<open>
  \<open>speed_restore_ok\<close>: setting the speeds read from the same attributes changes nothing in
  \<open>c_cflag\<close> (where Linux keeps them) and reads back.
\<close>

definition speed_restore_ok :: "libc \<Rightarrow> bool" where
  "speed_restore_ok lc \<longleftrightarrow>
     (\<forall>t u. c_cflag t = c_cflag u \<longrightarrow>
        c_cflag (cfsetispeed lc t (cfgetispeed lc u)) = c_cflag t \<and>
        c_cflag (cfsetospeed lc t (cfgetospeed lc u)) = c_cflag t \<and>
        cfgetospeed lc (cfsetospeed lc t (cfgetospeed lc u)) = cfgetospeed lc u)"

definition grants :: "tty \<Rightarrow> bool" where
  "grants d \<longleftrightarrow> get_err d = None \<and> set_err d = None \<and> (\<forall>t. driver d t = t)"

lemma reassert_grants:
  assumes "grants (slave_tty port)"
  shows "reassert lc reset port =
    (if cooked lc (attrs (slave_tty port))
     then (True, port\<lparr>slave_tty := (slave_tty port)\<lparr>attrs := reassert_request lc reset (attrs (slave_tty port))\<rparr>\<rparr>)
     else (False, port))"
  using assms by (simp add: reassert_def grants_def tcgetattr_def tcsetattr_def)

lemma request_discipline:
  assumes "speeds_ok lc"
  shows "discipline lc (reassert_request lc reset tio) = discipline lc (cfmakeraw lc tio)"
proof -
  have s: "discipline lc (cfsetispeed lc t s) = discipline lc t"
    "discipline lc (cfsetospeed lc t s) = discipline lc t" for t s
    using assms unfolding speeds_ok_def by blast+
  have "discipline lc (t\<lparr>c_cflag := c\<rparr>) = discipline lc t" for t c
    by (simp add: discipline_def)
  with s show ?thesis by (simp add: reassert_request_def Let_def)
qed

lemma request_line_params:
  assumes "speed_restore_ok lc"
  shows "c_cflag (reassert_request lc False tio) = c_cflag tio"
    and "cfgetospeed lc (reassert_request lc False tio) = cfgetospeed lc tio"
proof -
  let ?t = "(cfmakeraw lc tio)\<lparr>c_cflag := c_cflag tio\<rparr>"
  let ?i = "cfsetispeed lc ?t (cfgetispeed lc tio)"
  have s: "c_cflag t = c_cflag u \<Longrightarrow>
      c_cflag (cfsetispeed lc t (cfgetispeed lc u)) = c_cflag t \<and>
      c_cflag (cfsetospeed lc t (cfgetospeed lc u)) = c_cflag t \<and>
      cfgetospeed lc (cfsetospeed lc t (cfgetospeed lc u)) = cfgetospeed lc u" for t u
    using assms unfolding speed_restore_ok_def by blast
  have r: "reassert_request lc False tio = cfsetospeed lc ?i (cfgetospeed lc tio)"
    by (simp add: reassert_request_def Let_def)
  have "c_cflag ?t = c_cflag tio" by simp
  from s [OF this] have "c_cflag ?i = c_cflag tio" by simp
  from s [OF this] this show "c_cflag (reassert_request lc False tio) = c_cflag tio"
    and "cfgetospeed lc (reassert_request lc False tio) = cfgetospeed lc tio"
    unfolding r by simp_all
qed

lemma from_termios_cflag:
  assumes "c_cflag t = c_cflag u" "cfgetospeed lc t = cfgetospeed lc u"
  shows "ps_baud (from_termios lc t) = ps_baud (from_termios lc u) \<and>
    ps_data_bits (from_termios lc t) = ps_data_bits (from_termios lc u) \<and>
    ps_parity (from_termios lc t) = ps_parity (from_termios lc u) \<and>
    ps_stop_bits (from_termios lc t) = ps_stop_bits (from_termios lc u) \<and>
    (ps_flow (from_termios lc t) = 3 \<longleftrightarrow> ps_flow (from_termios lc u) = 3)"
  unfolding from_termios_def port_settings.simps assms by simp

lemma linux_speed_restore_ok: "speed_restore_ok linux_libc"
proof -
  have r: "(x AND - 4112) OR (x AND 4111) = (x :: u64)" for x
  proof -
    have "(x AND NOT 4111) OR (x AND 4111) = x"
      by (rule bit_word_eqI) (auto simp: bit_simps)
    then show ?thesis by simp
  qed
  show ?thesis
    by (simp add: speed_restore_ok_def linux_libc_def r or_mask linux_masks)
qed


section \<open>Properties\<close>

text \<open>
  Writing to a port: whatever the kernel does turn by turn, what it accepted is a prefix of
  the data, in order; success means all of it was accepted; a panic needs a kernel that claims
  more bytes than it was given; and as soon as there are as many accepting turns as bytes, with
  any number of refused ones between them, the call is over.
\<close>

theorem write_all_delivers:
  assumes "write_all_fd turns d = (sent, r)"
  shows "(\<exists>rest. d = sent @ rest) \<and>
    (r = Done (IoOk ()) \<longrightarrow> sent = d) \<and>
    (list_all turn_ok turns \<and> length d \<le> accepted turns \<longrightarrow> r = Done (IoOk ()) \<or> r = Panicked) \<and>
    (r = Panicked \<longrightarrow> (\<exists>n. (None, IoOk n) \<in> set turns \<and> length d - length sent < n))"
proof -
  have "r = Panicked \<longrightarrow> (\<exists>n. (None, IoOk n) \<in> set turns \<and> length d - length sent < n)"
    by (rule write_all_panic [OF assms])
  with write_all_prefix [OF assms] write_all_complete [of turns d sent] write_all_progress [of turns d] assms
  show ?thesis by auto
qed

theorem write_all_delivers_witness:
  "write_all_fd [(None, IoOk 1), (None, IoErr WouldBlock), (None, IoOk 2)] [10, 20, 30] = ([10, 20, 30], Done (IoOk ())) \<and>
   (\<exists>rest. [10, 20, 30] = ([10, 20, 30] :: bytes) @ rest)"
proof -
  have w: "write_all_fd [(None, IoOk 1), (None, IoErr WouldBlock), (None, IoOk 2)] [10, 20, 30] =
      ([10, 20, 30], Done (IoOk ()))"
    by (simp add: numeral_2_eq_2)
  from write_all_delivers [OF w] w show ?thesis by blast
qed

text \<open>
  Creating a port leaks nothing: every failure carries \<open>SetupError\<close> and has closed both
  descriptors openpty gave; success closes neither, so the port keeps the slave open for its
  whole life.
\<close>

theorem create_owns_or_closes:
  "case create strerror opened name afd_ok of
     (Inr (port, path), closed) \<Rightarrow>
       closed = [] \<and> name = Inr path \<and> opened = Inl (master_fd port, slave_fd port, slave_tty port)
   | (Inl e, closed) \<Rightarrow>
       is_setup e \<and> closed = (case opened of Inl (master, slave, _) \<Rightarrow> [master, slave] | Inr _ \<Rightarrow> [])"
  by (auto simp: create_def Let_def split: sum.splits option.splits)

text \<open>
  The watchdog restores transparency: on a terminal that grants requests it acts exactly
  when the consumer left the slave cooked, and after it has acted there is no canonical mode, no
  echo, no CR rewriting on input and no output processing.
\<close>

theorem reassert_restores_raw:
  assumes "raw_ok lc" and "speeds_ok lc" and "grants (slave_tty port)"
  shows "case reassert lc reset port of
      (acted, port') \<Rightarrow>
        acted = cooked lc (attrs (slave_tty port)) \<and> (\<not> acted \<longrightarrow> port' = port) \<and>
        (acted \<longrightarrow> c_lflag (attrs (slave_tty port')) AND (ICANON lc OR ECHO lc) = 0 \<and>
                  c_iflag (attrs (slave_tty port')) AND ICRNL lc = 0 \<and>
                  c_oflag (attrs (slave_tty port')) AND OPOST lc = 0)"
proof -
  have "(x AND NOT m) AND m = (0 :: u64)" for x m by (rule and_not_and)
  then show ?thesis
    using request_discipline [OF assms(2), of reset "attrs (slave_tty port)"] assms(1)
    by (simp add: reassert_grants [OF assms(3)] discipline_cong raw_ok_def)
qed

definition plain_port :: "termios \<Rightarrow> virtual_port" where
  "plain_port t = \<lparr>master_fd = 3, slave_fd = 4, slave_tty = plain_tty t\<rparr>"

lemma plain_port_grants [simp]: "grants (slave_tty (plain_port t))" "attrs (slave_tty (plain_port t)) = t"
  by (simp_all add: grants_def plain_port_def plain_tty_def)

lemma cooked_tio_cooked: "cooked linux_libc cooked_tio"
  by (simp add: cooked_def linux_libc_def cooked_tio_def)

theorem reassert_restores_raw_witness:
  "fst (reassert linux_libc True (plain_port cooked_tio)) = cooked linux_libc cooked_tio \<and>
   cooked linux_libc cooked_tio"
  using reassert_restores_raw [OF linux_raw_ok linux_speeds_ok plain_port_grants(1) [of cooked_tio], of True]
    cooked_tio_cooked by (auto split: prod.splits)



text \<open>
  Software flow control does not survive it: on Linux, once the watchdog acts on a consumer
  that enabled IXON alone, the settings it relays no longer say XON/XOFF.
\<close>

theorem xon_is_lost:
  assumes "grants (slave_tty port)" and "cooked linux_libc (attrs (slave_tty port))"
    and "c_iflag (attrs (slave_tty port)) AND IXOFF linux_libc = 0"
  shows "ps_flow (from_termios linux_libc (attrs (slave_tty (snd (reassert_line_discipline_if_needed linux_libc port))))) \<noteq> 2"
proof -
  let ?tio = "attrs (slave_tty port)"
  have "(x AND NOT 1515) AND 5120 = x AND 4096" for x :: u64
  proof -
    have "(x AND NOT 1515) AND 5120 = x AND (NOT 1515 AND 5120)" by (simp only: and.assoc)
    then show ?thesis by simp
  qed
  then have "c_iflag (reassert_request linux_libc False ?tio) AND (IXON linux_libc OR IXOFF linux_libc) = 0"
    using assms(3) by (simp add: reassert_request_def linux_libc_def Let_def)
  then show ?thesis
    using assms(2) by (simp add: reassert_line_discipline_if_needed_def reassert_grants [OF assms(1)] from_termios_def)
qed

theorem xon_is_lost_witness:
  "ps_flow (from_termios linux_libc (cooked_tio\<lparr>c_iflag := 1280\<rparr>)) = 2 \<and>
   ps_flow (from_termios linux_libc (attrs (slave_tty (snd (reassert_line_discipline_if_needed linux_libc
     (plain_port (cooked_tio\<lparr>c_iflag := 1280\<rparr>))))))) \<noteq> 2"
proof
  show "ps_flow (from_termios linux_libc (cooked_tio\<lparr>c_iflag := 1280\<rparr>)) = 2"
    by (simp add: from_termios_def linux_libc_def cooked_tio_def)
  show "ps_flow (from_termios linux_libc (attrs (slave_tty (snd (reassert_line_discipline_if_needed linux_libc
     (plain_port (cooked_tio\<lparr>c_iflag := 1280\<rparr>))))))) \<noteq> 2"
    by (rule xon_is_lost) (simp_all add: cooked_def linux_libc_def cooked_tio_def)
qed

text \<open>
  The watchdog does not settle on ONLCR: \<open>cfmakeraw\<close> clears OPOST and leaves ONLCR, which is
  one of the flags the check looks at, so once a consumer has set it every later tick finds the
  port cooked again and rewrites its attributes.
\<close>

theorem onlcr_never_settles:
  assumes "raw_ok lc" and "speeds_ok lc" and "grants (slave_tty port)"
    and "c_oflag (attrs (slave_tty port)) AND ONLCR lc \<noteq> 0"
  shows "fst (reassert lc reset (((\<lambda>p. snd (reassert lc reset p)) ^^ n) port))"
proof -
  define inv where "inv p \<longleftrightarrow> grants (slave_tty p) \<and> c_oflag (attrs (slave_tty p)) AND ONLCR lc \<noteq> 0" for p :: virtual_port
  have acts: "inv p \<Longrightarrow> fst (reassert lc reset p)" for p
    by (simp add: inv_def reassert_grants cooked_def)
  have keeps: "inv p \<Longrightarrow> inv (snd (reassert lc reset p))" for p
  proof -
    assume p: "inv p"
    let ?tio = "attrs (slave_tty p)"
    have "c_oflag (reassert_request lc reset ?tio) = c_oflag ?tio AND NOT (OPOST lc)"
      using request_discipline [OF assms(2), of reset ?tio] assms(1) by (simp add: discipline_cong raw_ok_def)
    moreover have "(c_oflag ?tio AND NOT (OPOST lc)) AND ONLCR lc = c_oflag ?tio AND ONLCR lc"
      by (rule clear_mask(2)) (use assms(1) in \<open>simp add: raw_ok_def\<close>)
    ultimately show "inv (snd (reassert lc reset p))"
      using p by (simp add: inv_def reassert_grants cooked_def) (simp add: grants_def)
  qed
  have "inv (((\<lambda>p. snd (reassert lc reset p)) ^^ n) port)"
    using assms(3,4) keeps by (induction n) (simp_all add: inv_def)
  then show ?thesis by (rule acts)
qed

theorem onlcr_never_settles_witness:
  "fst (reassert linux_libc True (((\<lambda>p. snd (reassert linux_libc True p)) ^^ 100) (plain_port cooked_tio)))"
  by (rule onlcr_never_settles [OF linux_raw_ok linux_speeds_ok plain_port_grants(1)])
     (simp add: linux_libc_def cooked_tio_def)

end
