(* ===== verification/Tasks.thy ===== *)
theory Tasks
  imports Wire_Laws Pty
begin

text \<open>
  The program's tasks.  An async task is a machine that moves from one \<open>await\<close> to the next: its
  program counter says what it waits for, an event is the completion of that wait with its
  outcome and the time it completes.  A step that does not fit is \<open>None\<close>, so a run is a sequence
  of events the runtime could deliver; what the runtime promises (a sleep does not end before its
  deadline, a write completes in pieces, in order) is the guard of the step.

  All byte movers of the program are loops of one shape: read a chunk, plan it on a wire, sleep
  until each cell is due and write it.  They differ in what ends them, in their buffer and in
  where they flush, which a \<open>rules\<close> record holds, one per loop.  Here are the loop, \<open>pump\<close> of
  \<open>src/forge/wire.rs\<close>, and the laws every such loop obeys.
\<close>

section \<open>Runs of a machine\<close>

primrec run_events :: "('s \<Rightarrow> 'e \<Rightarrow> ('s \<times> 'o list) option) \<Rightarrow> 's \<Rightarrow> 'e list \<Rightarrow> ('s \<times> 'o list) option" where
  "run_events step s [] = Some (s, [])"
| "run_events step s (e # es) =
     do {
       (s, out) \<leftarrow> step s e;
       (s, outs) \<leftarrow> run_events step s es;
       Some (s, out @ outs)
     }"

lemma run_events_append:
  "run_events step s (es @ fs) =
     do {
       (s, out) \<leftarrow> run_events step s es;
       (s, outs) \<leftarrow> run_events step s fs;
       Some (s, out @ outs)
     }"
  by (induction es arbitrary: s) (auto split: bind_splits)

lemma run_events_Cons:
  "step s e = Some (s1, o1) \<Longrightarrow> run_events step s1 es = Some (s2, o2) \<Longrightarrow> run_events step s (e # es) = Some (s2, o1 @ o2)"
  by simp

lemma run_events_then:
  "run_events step s es = Some (s1, o1) \<Longrightarrow> run_events step s1 fs = Some (s2, o2) \<Longrightarrow>
   run_events step s (es @ fs) = Some (s2, o1 @ o2)"
  by (simp add: run_events_append)

text \<open>
  A machine with a history invariant: \<open>inv s es outs\<close> relates a state to the events that led there
  and to everything emitted on the way; only events that satisfy \<open>ok\<close> occur.
\<close>

locale traced =
  fixes step :: "'s \<Rightarrow> 'e \<Rightarrow> ('s \<times> 'o list) option"
    and ok :: "'e \<Rightarrow> bool"
    and inv :: "'s \<Rightarrow> 'e list \<Rightarrow> 'o list \<Rightarrow> bool"
  assumes inv_step: "inv s es outs \<Longrightarrow> ok e \<Longrightarrow> step s e = Some (s', out) \<Longrightarrow> inv s' (es @ [e]) (outs @ out)"
begin

lemma inv_run_from:
  "inv s es outs \<Longrightarrow> list_all ok fs \<Longrightarrow> run_events step s fs = Some (s', later) \<Longrightarrow> inv s' (es @ fs) (outs @ later)"
proof (induction fs arbitrary: s es outs later)
  case (Cons f fs)
  from Cons.prems(3) obtain s1 o1 o2 where
    s: "step s f = Some (s1, o1)" "run_events step s1 fs = Some (s', o2)" "later = o1 @ o2"
    by (auto split: bind_splits)
  have "inv s1 (es @ [f]) (outs @ o1)"
    using inv_step [OF Cons.prems(1) _ s(1)] Cons.prems(2) by simp
  from Cons.IH [OF this _ s(2)] Cons.prems(2) s(3) show ?case by simp
qed simp

lemma inv_run:
  assumes "inv s [] []" "list_all ok es" "run_events step s es = Some (s', outs)"
  shows "inv s' es outs"
  using inv_run_from [OF assms] by simp

end

section \<open>The forwarding loop\<close>

definition millis :: "nat \<Rightarrow> duration" where
  "millis n = n * 10 ^ 6"

datatype reaction = Pause duration | Quit

datatype flush_rule = NoFlush | FlushCells | FlushChunks

text \<open>
  \<open>buffer\<close> is the size of the read buffer; \<open>on_empty\<close> what \<open>Ok(0)\<close> leads to; a \<open>Pause\<close> after a
  write error gives up the rest of the chunk and reads on.
\<close>

record rules =
  buffer :: nat
  on_empty :: reaction
  on_read_error :: reaction
  on_write_error :: reaction
  flushing :: flush_rule

datatype task_pc = Reading | Napping instant | Sleeping "cell list" | Writing bytes "cell list"
  | FlushingCell "cell list" | FlushingChunk | Stopped | Crashed

record task =
  t_wire :: wire
  t_pc :: task_pc

datatype task_event = Got "bytes io_result" | Timer | Took nat | Failed io_error | Flushed "unit io_result"

definition react :: "reaction \<Rightarrow> instant \<Rightarrow> task_pc" where
  "react r now = (case r of Pause d \<Rightarrow> Napping (now + d) | Quit \<Rightarrow> Stopped)"

definition next_cell :: "rules \<Rightarrow> cell list \<Rightarrow> task_pc" where
  "next_cell rl cells =
     (if cells \<noteq> [] then Sleeping cells
      else if flushing rl = FlushChunks then FlushingChunk else Reading)"

definition cell_written :: "rules \<Rightarrow> cell list \<Rightarrow> task_pc" where
  "cell_written rl cells = (if flushing rl = FlushCells then FlushingCell cells else next_cell rl cells)"

definition write_rest :: "rules \<Rightarrow> bytes \<Rightarrow> cell list \<Rightarrow> task_pc" where
  "write_rest rl d cells = (if d = [] then cell_written rl cells else Writing d cells)"

definition task_step :: "rules \<Rightarrow> task \<Rightarrow> instant \<times> task_event \<Rightarrow> (task \<times> bytes) option" where
  "task_step rl t ev =
     (case ev of (now, e) \<Rightarrow>
      case (t_pc t, e) of
        (Reading, Got r) \<Rightarrow>
          (case r of
             IoErr _ \<Rightarrow> Some (t\<lparr>t_pc := react (on_read_error rl) now\<rparr>, [])
           | IoOk d \<Rightarrow>
               if length d > buffer rl then None
               else if d = [] then Some (t\<lparr>t_pc := react (on_empty rl) now\<rparr>, [])
               else (case plan (t_wire t) now d of
                       None \<Rightarrow> Some (t\<lparr>t_pc := Crashed\<rparr>, [])
                     | Some (w, cells) \<Rightarrow> Some (\<lparr>t_wire = w, t_pc = next_cell rl cells\<rparr>, [])))
      | (Napping until, Timer) \<Rightarrow> if until \<le> now then Some (t\<lparr>t_pc := Reading\<rparr>, []) else None
      | (Sleeping (c # cells), Timer) \<Rightarrow>
          if due c \<le> now then Some (t\<lparr>t_pc := write_rest rl (cell_data c) cells\<rparr>, []) else None
      | (Writing d cells, Took n) \<Rightarrow>
          if n \<le> length d then Some (t\<lparr>t_pc := write_rest rl (drop n d) cells\<rparr>, take n d) else None
      | (Writing d cells, Failed _) \<Rightarrow> Some (t\<lparr>t_pc := react (on_write_error rl) now\<rparr>, [])
      | (FlushingCell cells, Flushed _) \<Rightarrow> Some (t\<lparr>t_pc := next_cell rl cells\<rparr>, [])
      | (FlushingChunk, Flushed r) \<Rightarrow>
          Some (t\<lparr>t_pc := (case r of IoOk _ \<Rightarrow> Reading | IoErr _ \<Rightarrow> react (on_write_error rl) now)\<rparr>, [])
      | _ \<Rightarrow> None)"

definition task_run :: "rules \<Rightarrow> wire \<Rightarrow> (instant \<times> task_event) list \<Rightarrow> (task \<times> bytes) option" where
  "task_run rl w = run_events (task_step rl) \<lparr>t_wire = w, t_pc = Reading\<rparr>"

text \<open>The pump between two ports.\<close>

definition pump :: rules where
  "pump = \<lparr>buffer = 8192, on_empty = Pause (millis 50), on_read_error = Pause (millis 100),
     on_write_error = Pause (millis 100), flushing = NoFlush\<rparr>"

section \<open>What a run reads and still holds\<close>

fun reads :: "(instant \<times> task_event) list \<Rightarrow> (instant \<times> bytes) list" where
  "reads [] = []"
| "reads ((now, Got (IoOk d)) # es) = (if d = [] then reads es else (now, d) # reads es)"
| "reads (_ # es) = reads es"

definition bytes_read :: "(instant \<times> task_event) list \<Rightarrow> bytes" where
  "bytes_read es = concat (map snd (reads es))"

primrec pending_cells :: "task_pc \<Rightarrow> cell list" where
  "pending_cells Reading = []"
| "pending_cells (Napping u) = []"
| "pending_cells (Sleeping cells) = cells"
| "pending_cells (Writing d cells) = cells"
| "pending_cells (FlushingCell cells) = cells"
| "pending_cells FlushingChunk = []"
| "pending_cells Stopped = []"
| "pending_cells Crashed = []"

primrec in_write :: "task_pc \<Rightarrow> bytes" where
  "in_write Reading = []"
| "in_write (Napping u) = []"
| "in_write (Sleeping cells) = []"
| "in_write (Writing d cells) = d"
| "in_write (FlushingCell cells) = []"
| "in_write FlushingChunk = []"
| "in_write Stopped = []"
| "in_write Crashed = []"

definition held :: "task_pc \<Rightarrow> bytes" where
  "held p = in_write p @ concat (map cell_data (pending_cells p))"

definition no_write_error :: "(instant \<times> task_event) list \<Rightarrow> bool" where
  "no_write_error es \<longleftrightarrow> list_all (\<lambda>(_, e). case e of Failed _ \<Rightarrow> False | _ \<Rightarrow> True) es"

lemma reads_append [simp]: "reads (es @ fs) = reads es @ reads fs"
  by (induction es rule: reads.induct) auto

lemma pc_simps [simp]:
  "pending_cells (react r now) = []" "in_write (react r now) = []"
  "pending_cells (next_cell rl cells) = cells" "in_write (next_cell rl cells) = []"
  "pending_cells (cell_written rl cells) = cells" "in_write (cell_written rl cells) = []"
  "pending_cells (write_rest rl d cells) = cells" "in_write (write_rest rl d cells) = d"
  "react r now \<noteq> Crashed" "next_cell rl cells \<noteq> Crashed" "cell_written rl cells \<noteq> Crashed"
  "write_rest rl d cells \<noteq> Crashed"
  by (auto simp: react_def next_cell_def cell_written_def write_rest_def split: reaction.splits)

lemma held_simps [simp]: "held Reading = []" "held Stopped = []" "held (Napping u) = []"
  by (simp_all add: held_def)

text \<open>Taking a step apart.\<close>

lemma task_stepE:
  assumes "task_step rl t (now, e) = Some (t', out)"
  obtains
    (planned) d w cells where "t_pc t = Reading" "e = Got (IoOk d)" "d \<noteq> []" "length d \<le> buffer rl"
      "plan (t_wire t) now d = Some (w, cells)" "t' = \<lparr>t_wire = w, t_pc = next_cell rl cells\<rparr>" "out = []"
  | (crash) d where "t_pc t = Reading" "e = Got (IoOk d)" "d \<noteq> []" "length d \<le> buffer rl"
      "plan (t_wire t) now d = None" "t' = t\<lparr>t_pc := Crashed\<rparr>" "out = []"
  | (silent) p where "t' = t\<lparr>t_pc := p\<rparr>" "out = []" "held p = held (t_pc t)" "in_write p = in_write (t_pc t)"
      "pending_cells p = pending_cells (t_pc t)" "p \<noteq> Crashed" "t_pc t \<noteq> Crashed" "reads [(now, e)] = []" "\<And>x. e \<noteq> Failed x"
  | (wake) c cells where "t_pc t = Sleeping (c # cells)" "e = Timer" "due c \<le> now"
      "t' = t\<lparr>t_pc := write_rest rl (cell_data c) cells\<rparr>" "out = []"
  | (took) d cells n where "t_pc t = Writing d cells" "e = Took n" "n \<le> length d"
      "t' = t\<lparr>t_pc := write_rest rl (drop n d) cells\<rparr>" "out = take n d"
  | (failed) d cells x where "t_pc t = Writing d cells" "e = Failed x"
      "t' = t\<lparr>t_pc := react (on_write_error rl) now\<rparr>" "out = []"
  using assms unfolding task_step_def
  by (auto simp: held_def split: task_pc.splits task_event.splits io_result.splits if_splits option.splits list.splits prod.splits)

section \<open>The laws of a forwarding loop\<close>

lemma noise_append: "noise xs ys \<Longrightarrow> noise xs' ys' \<Longrightarrow> noise (xs @ xs') (ys @ ys')"
proof (induction rule: noise.induct)
  case (noise_flip bs cs k b)
  then show ?case unfolding append_Cons by (intro noise.noise_flip) simp_all
qed (simp_all add: noise_intros)

lemma noise_to_Nil: "noise xs []"
  by (induction xs) (simp_all add: noise_intros)

lemma noise_prefix: "noise xs zs \<Longrightarrow> zs = ys @ rest \<Longrightarrow> noise xs ys"
proof (induction arbitrary: ys rule: noise.induct)
  case (noise_drop bs cs b)
  then show ?case by (simp add: noise_intros)
next
  case (noise_keep bs cs b)
  then show ?case by (cases ys) (auto intro: noise_intros noise_to_Nil)
next
  case (noise_flip bs cs k b)
  show ?case
  proof (cases ys)
    case (Cons y ys')
    with noise_flip have "noise bs ys'" "y = b XOR push_bit k 1" by auto
    with noise.noise_flip [OF _ noise_flip.hyps(2)] Cons show ?thesis by blast
  qed (simp add: noise_to_Nil)
qed (simp add: noise_intros)

lemma plan_run_snoc:
  "plan_run w rs = Some (w1, cells) \<Longrightarrow> plan w1 now d = Some (w2, later) \<Longrightarrow>
   plan_run w (rs @ [(now, d)]) = Some (w2, cells @ later)"
proof (induction rs arbitrary: w cells)
  case (Cons r rs)
  obtain t x where r: "r = (t, x)" by fastforce
  with Cons.prems(1) obtain w' xs ys where p: "plan w t x = Some (w', xs)"
    "plan_run w' rs = Some (w1, ys)" "cells = xs @ ys" by (auto split: bind_splits)
  from Cons.IH [OF p(2) Cons.prems(2)] p(1,3) r show ?case by simp
qed simp

lemma plan_run_wf: "plan_run w rs = Some (w', cells) \<Longrightarrow> wire_wf w \<Longrightarrow> same_line w w' \<and> wire_wf w'"
proof (induction w rs arbitrary: cells rule: plan_run.induct)
  case (2 w now d rest)
  then obtain w1 xs ys where p: "plan w now d = Some (w1, xs)" "plan_run w1 rest = Some (w', ys)"
    by (auto split: bind_splits)
  have "same_line w w1" by (rule plan_spec [OF p(1) "2.prems"(2)])
  moreover have "same_line w1 w' \<and> wire_wf w'"
    by (rule "2.IH" [OF p(1) refl p(2) wire_wf_plan [OF p(1) "2.prems"(2)]])
  ultimately show ?case using same_line_trans by blast
qed simp

text \<open>
  What a run has planned and written: of the cells planned so far a first part is dealt with,
  the rest is pending; what was written is, up to bytes given up, the data of that first part,
  and none of it was written before its cell was due.
\<close>

definition forwarded :: "wire \<Rightarrow> instant \<Rightarrow> task \<Rightarrow> (instant \<times> task_event) list \<Rightarrow> bytes \<Rightarrow> bool" where
  "forwarded w0 T t es out \<longleftrightarrow>
     (\<exists>rs lost done.
        reads es = rs @ lost \<and> (t_pc t \<noteq> Crashed \<longrightarrow> lost = []) \<and>
        plan_run w0 rs = Some (t_wire t, done @ pending_cells (t_pc t)) \<and>
        length out + length (in_write (t_pc t)) \<le> delivered_by T done \<and>
        noise (concat (map snd rs)) (out @ held (t_pc t)) \<and>
        (no_write_error es \<longrightarrow>
           out @ held (t_pc t) = concat (map cell_data (done @ pending_cells (t_pc t)))) \<and>
        (t_pc t = Crashed \<longrightarrow> held (t_pc t) = []))"

lemma held_eq: "pending_cells p = pending_cells q \<Longrightarrow> in_write p = in_write q \<Longrightarrow> held p = held q"
  by (simp add: held_def)

lemma no_write_error_snoc [simp]:
  "no_write_error (es @ [(now, e)]) \<longleftrightarrow> no_write_error es \<and> (\<forall>x. e \<noteq> Failed x)"
  by (cases e) (auto simp: no_write_error_def)

lemma forwarded_step:
  assumes inv: "forwarded w0 T t es out" and wf: "wire_wf w0" and time: "now \<le> T"
    and s: "task_step rl t (now, e) = Some (t', o')"
  shows "forwarded w0 T t' (es @ [(now, e)]) (out @ o')"
proof -
  from inv obtain rs lost cs where i: "reads es = rs @ lost" "t_pc t \<noteq> Crashed \<longrightarrow> lost = []"
      "plan_run w0 rs = Some (t_wire t, cs @ pending_cells (t_pc t))"
      "length out + length (in_write (t_pc t)) \<le> delivered_by T cs"
      "noise (concat (map snd rs)) (out @ held (t_pc t))"
      "no_write_error es \<longrightarrow> out @ held (t_pc t) = concat (map cell_data (cs @ pending_cells (t_pc t)))"
    unfolding forwarded_def by blast
  show ?thesis
    using s
  proof (cases rule: task_stepE)
    case (planned d w cells)
    have ww: "wire_wf (t_wire t)" using plan_run_wf [OF i(3) wf] by blast
    have "noise (concat (map snd (rs @ [(now, d)]))) (out @ concat (map cell_data cells))"
      using noise_append [OF i(5), of d "concat (map cell_data cells)"] plan_faults [OF planned(5) ww] planned(1) by simp
    with planned i time plan_run_snoc [OF i(3) planned(5)] show ?thesis
      unfolding forwarded_def
      by (intro exI [of _ "rs @ [(now, d)]"] exI [of _ "[]"] exI [of _ cs]) (simp add: held_def)
  next
    case (crash d)
    with i show ?thesis unfolding forwarded_def
      by (intro exI [of _ rs] exI [of _ "[(now, d)]"] exI [of _ cs]) (simp add: held_def)
  next
    case (silent p)
    with i have "reads (es @ [(now, e)]) = rs" by simp
    with silent i show ?thesis unfolding forwarded_def
      by (intro exI [of _ rs] exI [of _ "[]"] exI [of _ cs]) simp
  next
    case (wake c cells)
    with i time show ?thesis unfolding forwarded_def
      by (intro exI [of _ rs] exI [of _ "[]"] exI [of _ "cs @ [c]"]) (simp add: held_def)
  next
    case (took d cells n)
    with took i show ?thesis unfolding forwarded_def
      by (intro exI [of _ rs] exI [of _ "[]"] exI [of _ cs]) (simp add: held_def take_drop_append)
  next
    case (failed d cells x)
    with i noise_prefix [OF i(5) refl] show ?thesis unfolding forwarded_def
      by (intro exI [of _ rs] exI [of _ "[]"] exI [of _ "cs @ cells"]) (simp add: held_def)
  qed
qed


text \<open>Every loop of this shape obeys the laws, whatever its rules.\<close>

interpretation forwarding: traced "task_step rl" "\<lambda>(now, e). now \<le> T"
    "\<lambda>t es out. wire_wf w0 \<longrightarrow> forwarded w0 T t es out" for rl T w0
  by unfold_locales (auto intro: forwarded_step)

lemma forwarded_start: "forwarded w tmax \<lparr>t_wire = w, t_pc = Reading\<rparr> [] []"
  unfolding forwarded_def by (intro exI [of _ "[]"]) (simp add: noise_intros no_write_error_def)

lemma task_forwarded:
  assumes "task_run rl w es = Some (t, out)" and "wire_wf w" and "list_all (\<lambda>(now, e). now \<le> T) es"
  shows "forwarded w T t es out"
  using forwarding.inv_run [OF _ assms(3) assms(1) [unfolded task_run_def], of w] forwarded_start assms(2) by blast

lemma delivered_by_take: "delivered_by T cs \<le> delivered_by T (cs @ ds)"
  by simp

lemma all_times: "\<exists>T. list_all (\<lambda>(now :: instant, e). now \<le> T) es"
proof
  show "list_all (\<lambda>(now, e). now \<le> Max (set (0 # map fst es))) es"
    by (auto simp: list_all_iff intro!: Max_ge image_eqI [of _ fst])
qed

lemma plan_run_clean:
  assumes "plan_run w rs = Some (w', cells)" "wire_wf w" "drop_p w \<le> 0" "corrupt_p w \<le> 0"
  shows "concat (map cell_data cells) = concat (map snd rs)"
  using assms
proof (induction w rs arbitrary: cells rule: plan_run.induct)
  case (2 w now d rest)
  then obtain w1 xs ys where p: "plan w now d = Some (w1, xs)" "plan_run w1 rest = Some (w', ys)"
      "cells = xs @ ys" by (auto split: bind_splits)
  have "same_line w w1" by (rule plan_spec [OF p(1) "2.prems"(2)])
  moreover have "wire_wf w1" by (rule wire_wf_plan [OF p(1) "2.prems"(2)])
  ultimately have "concat (map cell_data ys) = concat (map snd rest)"
    using "2.IH" [OF p(1) refl p(2)] "2.prems" by (simp add: same_line_def)
  with plan_faults [OF p(1) "2.prems"(2)] "2.prems" p(3) show ?case by simp
qed simp

lemma forwarded_noise:
  assumes "forwarded w tmax t es out"
  shows "noise (bytes_read es) out"
proof -
  from assms obtain rs lost where f: "reads es = rs @ lost" "noise (concat (map snd rs)) (out @ held (t_pc t))"
    unfolding forwarded_def by blast
  have "noise (bytes_read es) (out @ [])"
    using noise_append [OF noise_prefix [OF f(2) refl] noise_to_Nil [of "concat (map snd lost)"]] f(1)
    by (simp add: bytes_read_def)
  then show ?thesis by simp
qed

lemma forwarded_clean:
  assumes "forwarded w tmax t es out" "wire_wf w" "drop_p w \<le> 0" "corrupt_p w \<le> 0" "no_write_error es" "t_pc t \<noteq> Crashed"
  shows "bytes_read es = out @ held (t_pc t)"
proof -
  from assms(1,5,6) obtain cs where f: "plan_run w (reads es) = Some (t_wire t, cs @ pending_cells (t_pc t))"
    "out @ held (t_pc t) = concat (map cell_data (cs @ pending_cells (t_pc t)))"
    unfolding forwarded_def by auto
  from plan_run_clean [OF f(1) assms(2-4)] f(2) show ?thesis by (simp add: bytes_read_def)
qed

text \<open>
  (C3) What a forwarding loop writes is what it read: after any run, however the writes are split,
  the output is the input with at most the noise of the wire; on a wire without faults, as long as
  no write failed, every byte read has been written or is still held, in order, and a loop that is
  back at reading holds nothing.
\<close>

theorem forwarding_is_faithful:
  assumes "task_run rl w es = Some (t, out)" and "wire_wf w"
  shows "noise (bytes_read es) out \<and>
    (drop_p w \<le> 0 \<and> corrupt_p w \<le> 0 \<and> no_write_error es \<and> t_pc t \<noteq> Crashed \<longrightarrow>
       bytes_read es = out @ held (t_pc t) \<and> (t_pc t = Reading \<longrightarrow> out = bytes_read es))"
proof -
  from all_times obtain T where "list_all (\<lambda>(now :: instant, e). now \<le> T) es" by blast
  from task_forwarded [OF assms this] forwarded_noise forwarded_clean [OF _ assms(2)] show ?thesis by auto
qed

lemma pump_demo:
  assumes "wire_new default_spec 0 5 = Some w"
  shows "\<exists>t. task_run pump w [(7, Got (IoOk [1, 255, 0])), (8, Timer), (9, Took 1), (9, Took 2)] = Some (t, [1, 255, 0])
    \<and> t_pc t = Reading" "wire_wf w" "drop_p w = 0" "corrupt_p w = 0" "line_time w = 0"
proof -
  have "plan w 7 [1, 255, 0] = Some (w\<lparr>cursor := 7\<rparr>, [\<lparr>cell_data = [1, 255, 0], due = 7\<rparr>])"
    by (rule plan_identity [OF assms]) simp_all
  then show "\<exists>t. task_run pump w [(7, Got (IoOk [1, 255, 0])), (8, Timer), (9, Took 1), (9, Took 2)] = Some (t, [1, 255, 0])
    \<and> t_pc t = Reading"
    by (simp add: task_run_def task_step_def pump_def next_cell_def write_rest_def cell_written_def)
  show "wire_wf w" by (rule wire_wf_new [OF assms])
  show "drop_p w = 0" "corrupt_p w = 0" "line_time w = 0"
    using assms by (auto simp: default_spec_def wire_byte_time_def line_time_def elim!: wire_newE)
qed

theorem forwarding_is_faithful_witness:
  "\<exists>w t. wire_new default_spec 0 5 = Some w \<and>
     task_run pump w [(7, Got (IoOk [1, 255, 0])), (8, Timer), (9, Took 1), (9, Took 2)] = Some (t, [1, 255, 0]) \<and>
     noise (bytes_read [(7, Got (IoOk [1, 255, 0])), (8, Timer), (9, Took 1), (9, Took 2)]) [1, 255, 0]"
proof -
  obtain w where w: "wire_new default_spec 0 5 = Some w"
    by (simp add: wire_new_def wire_byte_time_def default_spec_def)
  with pump_demo [OF w] forwarding_is_faithful [of pump w _ _ "[1, 255, 0]"] show ?thesis by blast
qed

text \<open>
  (C24) The line rate holds at the far end: whatever the events, by any time the loop has written no
  more bytes than a line of this rate could have carried since the wire was idle.
\<close>

theorem written_no_faster_than_the_line:
  assumes "task_run rl w es = Some (t, out)" and "wire_wf w" and "list_all (\<lambda>(now, e). now \<le> T) es"
  shows "line_time w * length out \<le> T - cursor w"
proof -
  from task_forwarded [OF assms] obtain rs cs where f:
    "plan_run w rs = Some (t_wire t, cs @ pending_cells (t_pc t))"
    "length out + length (in_write (t_pc t)) \<le> delivered_by T cs"
    unfolding forwarded_def by blast
  let ?n = "delivered_by T (cs @ pending_cells (t_pc t))"
  have "length out \<le> ?n" using f(2) by simp
  then have "line_time w * length out \<le> line_time w * ?n" by simp
  moreover have "line_time w * ?n \<le> T - cursor w"
    using within_rateD [OF within_rate_run [OF f(1) assms(2)], of T] by auto
  ultimately show ?thesis by linarith
qed

definition brisk_wire :: wire where
  "brisk_wire = \<lparr>byte_time = Some 1000, cell_bytes = 1, latency = 0, jitter = 0, drop_p = 0, corrupt_p = 0,
     rng = 1, cursor = 0\<rparr>"

lemma brisk_plan:
  "\<exists>w. plan brisk_wire 0 [1, 2] = Some (w, [\<lparr>cell_data = [1], due = 1000\<rparr>, \<lparr>cell_data = [2], due = 2000\<rparr>])"
  by (simp add: plan_def brisk_wire_def jitter_sample_def dur_add_def chunks.simps [of "Suc 0"]
      transform_def dur_mul_def instant_add_def)

theorem written_no_faster_than_the_line_witness:
  "\<exists>t. task_run pump brisk_wire [(0, Got (IoOk [1, 2])), (1000, Timer), (1010, Took 1)] = Some (t, [1]) \<and>
     line_time brisk_wire * 1 \<le> 1500 - cursor brisk_wire \<and> line_time brisk_wire = 1000"
proof -
  from brisk_plan obtain w where
    "plan brisk_wire 0 [1, 2] = Some (w, [\<lparr>cell_data = [1], due = 1000\<rparr>, \<lparr>cell_data = [2], due = 2000\<rparr>])" by blast
  then have "\<exists>t. task_run pump brisk_wire [(0, Got (IoOk [1, 2])), (1000, Timer), (1010, Took 1)] = Some (t, [1])"
    by (simp add: task_run_def task_step_def pump_def next_cell_def write_rest_def cell_written_def)
  then obtain t where t: "task_run pump brisk_wire [(0, Got (IoOk [1, 2])), (1000, Timer), (1010, Took 1)] = Some (t, [1])"
    by blast
  have wf: "wire_wf brisk_wire" "line_time brisk_wire = 1000" by (simp_all add: wire_wf_def brisk_wire_def line_time_def)
  from written_no_faster_than_the_line [OF t wf(1), of 1500] t wf(2) show ?thesis by simp
qed

end
