(* ===== verification/Endpoint.thy ===== *)
theory Endpoint
  imports Tasks
begin

text \<open>
  Where a bridge finds its peers (\<open>src/forge/bridge.rs\<close>): the endpoint argument and its parser,
  the redial backoff, and \<open>Peers::next\<close>, which retries until a peer is there.
\<close>

section \<open>Endpoints\<close>

datatype endpoint = Dial rstring | Accept rstring

definition split_host_port :: "rstring \<Rightarrow> error + (rstring \<times> u16)" where
  "split_host_port s =
     (case rsplit_once 58 s of
        None \<Rightarrow> Inl [Msg (chars ''endpoint '' @ debug_str s @ chars '' has no :PORT'')]
      | Some (host, port) \<Rightarrow>
          (case parse_unsigned 65535 port of
             None \<Rightarrow> Inl [Msg (chars ''endpoint '' @ debug_str s @ chars '' has a bad port '' @ debug_str port @
                          chars '' (1..=65535)'')]
           | Some n \<Rightarrow>
               if n = 0 then Inl [Msg (chars ''endpoint '' @ debug_str s @ chars '' needs a real port, not 0'')]
               else Inr (host, of_nat n)))"

definition endpoint_parse :: "rstring \<Rightarrow> error + endpoint" where
  "endpoint_parse s =
     (case strip_prefix (chars ''tcp://'') s of
        Some rest \<Rightarrow>
          and_then (split_host_port rest) (\<lambda>(host, _).
            if host = [] then Inl [Msg (chars ''tcp://'' @ rest @ chars '' has no host '' @ [0x2014] @
                 chars '' dial a peer, e.g. tcp://lab-host:5557'')]
            else Inr (Dial rest))
      | None \<Rightarrow>
          (case strip_prefix (chars ''listen://'') s of
             Some rest \<Rightarrow>
               and_then (split_host_port rest) (\<lambda>(host, port).
                 Inr (Accept (if host = [] then chars ''0.0.0.0:'' @ chars (decimal (unat port)) else rest)))
           | None \<Rightarrow> Inl [Msg (chars ''unknown endpoint '' @ debug_str s @ [32, 0x2014] @
               chars '' use tcp://HOST:PORT to dial a peer or listen://[HOST]:PORT to accept one'')]))"

section \<open>Waiting for a peer\<close>

definition IDLE :: duration where
  "IDLE = millis 50"

definition RETRY :: duration where
  "RETRY = millis 100"

definition backoff :: "u32 \<Rightarrow> duration" where
  "backoff attempt =
     min (5 * 10 ^ 9) (unat (push_bit (unat (min attempt 10)) (250 :: u64)) * 10 ^ 6)"

text \<open>
  \<open>Peers::next\<close> over the outcomes of its connect or accept calls: the pauses it made and, unless
  it is still waiting, the stream.  The attempt counter is a \<open>u32\<close>, as in the code.
\<close>

fun dial_from :: "u32 \<Rightarrow> 's io_result list \<Rightarrow> duration list \<times> 's progress" where
  "dial_from attempt [] = ([], Waiting)"
| "dial_from attempt (IoOk s # rest) = ([], Done s)"
| "dial_from attempt (IoErr e # rest) = apfst ((#) (backoff attempt)) (dial_from (attempt + 1) rest)"

fun accept :: "'s io_result list \<Rightarrow> duration list \<times> 's progress" where
  "accept [] = ([], Waiting)"
| "accept (IoOk s # rest) = ([], Done s)"
| "accept (IoErr e # rest) = apfst ((#) RETRY) (accept rest)"

definition peers_next :: "endpoint \<Rightarrow> 's io_result list \<Rightarrow> duration list \<times> 's progress" where
  "peers_next peers outcomes =
     (case peers of Dial _ \<Rightarrow> dial_from 0 outcomes | Accept _ \<Rightarrow> accept outcomes)"

section \<open>Laws\<close>

declare chars_simps [simp del]

lemma backoff_values:
  "backoff 0 = 250 * 10 ^ 6" "backoff 1 = 500 * 10 ^ 6" "backoff 2 = 1000 * 10 ^ 6"
  "backoff 3 = 2000 * 10 ^ 6" "backoff 4 = 4000 * 10 ^ 6"
  by (simp_all add: backoff_def push_bit_eq_mult)

lemma backoff_cap:
  assumes "5 \<le> a"
  shows "backoff a = 5 * 10 ^ 9"
proof -
  have "5 \<le> unat (min a 10)" "unat (min a 10) \<le> 10"
    using assms by (simp_all add: word_le_nat_alt min_def)
  then have "unat (min a 10) \<in> {5, 6, 7, 8, 9, 10}" by auto
  then show ?thesis by (auto simp: backoff_def push_bit_eq_mult)
qed

lemma split_host_port_Inr_iff:
  "split_host_port s = Inr (host, p) \<longleftrightarrow>
     (\<exists>port n. s = host @ 58 # port \<and> 58 \<notin> set port \<and> parse_unsigned 65535 port = Some n \<and> n \<noteq> 0 \<and> p = of_nat n)"
proof
  assume "split_host_port s = Inr (host, p)"
  then show "\<exists>port n. s = host @ 58 # port \<and> 58 \<notin> set port \<and> parse_unsigned 65535 port = Some n \<and> n \<noteq> 0 \<and> p = of_nat n"
    by (auto simp: split_host_port_def rsplit_once_Some_iff split: option.splits if_splits)
next
  assume "\<exists>port n. s = host @ 58 # port \<and> 58 \<notin> set port \<and> parse_unsigned 65535 port = Some n \<and> n \<noteq> 0 \<and> p = of_nat n"
  then obtain port n where p: "rsplit_once 58 s = Some (host, port)" "parse_unsigned 65535 port = Some n" "n \<noteq> 0" "p = of_nat n"
    by (auto simp: rsplit_once_Some_iff)
  then show "split_host_port s = Inr (host, p)" by (simp add: split_host_port_def)
qed

lemma unat_port: "parse_unsigned 65535 port = Some n \<Longrightarrow> unat (of_nat n :: u16) = n"
  by (drule parse_unsigned_le) (simp add: unsigned_of_nat take_bit_nat_eq_self)

lemma schemes:
  "strip_prefix (chars ''tcp://'') (chars ''tcp://'' @ r) = Some r"
  "strip_prefix (chars ''listen://'') (chars ''listen://'' @ r) = Some r"
  "strip_prefix (chars ''tcp://'') (chars ''listen://'' @ r) = None"
  by (simp_all add: strip_prefix_Some_iff chars_simps)

lemma and_then_split_Inr_iff:
  "and_then (split_host_port r) (\<lambda>(host, port). f host port) = Inr e \<longleftrightarrow>
     (\<exists>host port n. r = host @ 58 # port \<and> 58 \<notin> set port \<and> parse_unsigned 65535 port = Some n \<and> 0 < n \<and>
        f host (of_nat n) = Inr e)"
  by (auto simp: and_then_Inr_iff split_host_port_Inr_iff split: prod.splits)


lemma dial_from_failures:
  "dial_from a (map IoErr es @ rest) =
     apfst ((@) (map (\<lambda>i. backoff (a + of_nat i)) [0..<length es])) (dial_from (a + of_nat (length es)) rest)"
proof (induction es arbitrary: a)
  case (Cons e es)
  have "map (\<lambda>i. backoff (a + of_nat i)) [0..<length (e # es)] =
      backoff a # map (\<lambda>i. backoff (a + 1 + of_nat i)) [0..<length es]"
    by (simp add: upt_conv_Cons map_Suc_upt [symmetric] ac_simps del: upt_Suc)
  with Cons [of "a + 1"] show ?case by (simp add: ac_simps)
qed simp

lemma accept_failures:
  "accept (map IoErr es @ rest) = apfst ((@) (replicate (length es) RETRY)) (accept rest)"
  by (induction es) (simp_all add: apfst_def map_prod_def split: prod.splits)

text \<open>
  Parsing an endpoint: the accepted arguments are exactly \<open>tcp://HOST:PORT\<close> with a host and
  \<open>listen://[HOST]:PORT\<close>, PORT a decimal number from 1 to 65535 after the last colon; an
  empty listening host becomes every interface.
\<close>

theorem endpoint_parse_accepts:
  "endpoint_parse s = Inr e \<longleftrightarrow>
     (\<exists>host port n. 58 \<notin> set port \<and> parse_unsigned 65535 port = Some n \<and> 0 < n \<and>
        (s = chars ''tcp://'' @ host @ 58 # port \<and> host \<noteq> [] \<and> e = Dial (host @ 58 # port) \<or>
         s = chars ''listen://'' @ host @ 58 # port \<and>
           e = Accept (if host = [] then chars ''0.0.0.0:'' @ chars (decimal n) else host @ 58 # port)))"
proof -
  consider (tcp) r where "s = chars ''tcp://'' @ r" | (listen) r where "s = chars ''listen://'' @ r"
    | (other) "strip_prefix (chars ''tcp://'') s = None" "strip_prefix (chars ''listen://'') s = None"
    using strip_prefix_Some_iff [of _ s] by (meson not_None_eq)
  then show ?thesis
  proof cases
    case tcp
    have "endpoint_parse s = Inr e \<longleftrightarrow> (\<exists>host port n. r = host @ 58 # port \<and> 58 \<notin> set port \<and>
        parse_unsigned 65535 port = Some n \<and> 0 < n \<and> host \<noteq> [] \<and> e = Dial r)"
      unfolding tcp endpoint_parse_def schemes option.case and_then_split_Inr_iff by auto
    moreover have "s = chars ''tcp://'' @ x \<longleftrightarrow> r = x" "s \<noteq> chars ''listen://'' @ x" for x
      unfolding tcp by (simp_all add: chars_simps)
    ultimately show ?thesis by (simp only: simp_thms) (intro iff_exI; auto)
  next
    case listen
    have "endpoint_parse s = Inr e \<longleftrightarrow> (\<exists>host port n. r = host @ 58 # port \<and> 58 \<notin> set port \<and>
        parse_unsigned 65535 port = Some n \<and> 0 < n \<and>
        e = Accept (if host = [] then chars ''0.0.0.0:'' @ chars (decimal n) else r))"
      unfolding listen endpoint_parse_def schemes option.case and_then_split_Inr_iff
      by (intro iff_exI conj_cong refl) (simp add: unat_port eq_commute)
    moreover have "s = chars ''listen://'' @ x \<longleftrightarrow> r = x" "s \<noteq> chars ''tcp://'' @ x" for x
      unfolding listen by (simp_all add: chars_simps)
    ultimately show ?thesis by (simp only: simp_thms) (intro iff_exI; auto)
  next
    case other
    then have "endpoint_parse s \<noteq> Inr e" by (simp add: endpoint_parse_def)
    with other show ?thesis by (auto simp: strip_prefix_None_iff)
  qed
qed

text \<open>
  Redialling: after \<open>n\<close> failures the peer is handed out having waited 250 ms doubling up to
  5 s, never longer per attempt; accepting pauses 100 ms per failure.
\<close>

theorem redial_schedule:
  assumes "length es < 2 ^ 32"
  shows "peers_next (Dial addr) (map IoErr es @ IoOk s # rest) =
     (map (\<lambda>i. if i < 5 then millis (250 * 2 ^ i) else millis 5000) [0..<length es], Done s) \<and>
   peers_next (Accept addr) (map IoErr es @ IoOk s # rest) = (replicate (length es) (millis 100), Done s)"
proof -
  have "backoff (of_nat i) = (if i < 5 then millis (250 * 2 ^ i) else millis 5000)" if "i < length es" for i
  proof (cases "i < 5")
    case True
    then have "i \<in> {0, 1, 2, 3, 4}" by auto
    then show ?thesis using backoff_values by (auto simp: millis_def)
  next
    case False
    have "unat (of_nat i :: u32) = i" using that assms by (simp add: of_nat_len)
    with False have "5 \<le> (of_nat i :: u32)" by (simp add: word_le_nat_alt)
    with False show ?thesis by (simp add: backoff_cap millis_def)
  qed
  then show ?thesis
    by (simp add: peers_next_def dial_from_failures accept_failures RETRY_def)
qed

theorem redial_schedule_witness:
  "peers_next (Dial addr) (map IoErr (replicate 6 (OtherErr 111)) @ IoOk s # rest) =
     (map (\<lambda>i. if i < 5 then millis (250 * 2 ^ i) else millis 5000) [0..<6], Done s)"
  using redial_schedule [of "replicate 6 (OtherErr 111)" addr s rest] by simp

end
