(* ===== verification/Rfc_Session.thy ===== *)
theory Rfc_Session
  imports Settings Endpoint
begin

text \<open>
  One RFC2217 session of a bridge (\<open>run_rfc2217_session\<close> and \<open>sync_settings\<close> of
  \<open>src/forge/bridge.rs\<close>): two tasks that share the socket's writer behind a mutex.  Each task is
  its program counter; an event completes what a task waits for, so a run is any interleaving of
  the two.  A mutex is granted only while no task holds it, a sleep ends no sooner than its
  deadline, a write is taken in pieces.  The laws say what the peer, itself a telnet endpoint,
  makes of the bytes: whole frames, every data byte in order, and each settings change before the
  data typed after it.
\<close>

section \<open>The two tasks\<close>

text \<open>What the sending task does once \<open>sync_settings\<close> is through: loop, or plan what it read.\<close>

datatype after_sync = KeepOn | Send bytes

datatype up_pc = UpSelect | UpNap instant
  | UpSyncLock "bytes list" after_sync | UpSyncWrite bytes "bytes list" after_sync
  | UpCells "cell list" | UpCellLock cell "cell list" | UpCellWrite bytes "cell list" | UpEnded

datatype down_pc = DownRead | DownReplyLock bytes bytes | DownReplyWrite bytes bytes
  | DownCells "cell list" | DownPort bytes "cell list" | DownEnded

datatype phase = Offering bytes | Running | Closed

record rfc_session =
  phase :: phase
  up :: up_pc
  down :: down_pc
  up_wire :: wire
  down_wire :: wire
  peer_telnet :: telnet
  com_ok :: bool
  last_settings :: port_settings

datatype up_event = UpGot "bytes io_result" "termios option" | UpTick "termios option" | UpTimer
  | UpLocked | UpTook nat | UpFailed

datatype down_event = DownGot "bytes io_result" | DownTimer | DownLocked | DownTook nat | DownFailed
  | PortTook nat | PortFailed

datatype rfc_event = OfferTook nat | OfferFailed | UpEv up_event | DownEv down_event

datatype sent = ToPeer bytes | ToPort bytes

definition rfc_open :: "port_settings \<Rightarrow> wire \<Rightarrow> wire \<Rightarrow> rfc_session" where
  "rfc_open pristine to_peer from_peer =
     \<lparr>phase = Offering (start telnet_new), up = UpSelect, down = DownRead, up_wire = to_peer,
      down_wire = from_peer, peer_telnet = telnet_new, com_ok = True, last_settings = pristine\<rparr>"

primrec up_holds :: "up_pc \<Rightarrow> bool" where
  "up_holds UpSelect = False" | "up_holds (UpNap t) = False" | "up_holds (UpSyncLock ms k) = False"
| "up_holds (UpSyncWrite m ms k) = True" | "up_holds (UpCells cs) = False"
| "up_holds (UpCellLock c cs) = False" | "up_holds (UpCellWrite m cs) = True" | "up_holds UpEnded = False"

primrec down_holds :: "down_pc \<Rightarrow> bool" where
  "down_holds DownRead = False" | "down_holds (DownReplyLock r d) = False"
| "down_holds (DownReplyWrite r d) = True" | "down_holds (DownCells cs) = False"
| "down_holds (DownPort m cs) = False" | "down_holds DownEnded = False"

definition writer_free :: "rfc_session \<Rightarrow> bool" where
  "writer_free s \<longleftrightarrow> \<not> up_holds (up s) \<and> \<not> down_holds (down s)"

definition over :: "rfc_session \<Rightarrow> bool" where
  "over s \<longleftrightarrow> phase s = Closed \<or> up s = UpEnded \<or> down s = DownEnded"

section \<open>Port to peer\<close>

text \<open>A panic in \<open>plan\<close> ends the task, and with it the session.\<close>

definition up_cells :: "cell list \<Rightarrow> up_pc" where
  "up_cells cells = (if cells = [] then UpSelect else UpCells cells)"

definition up_continue :: "after_sync \<Rightarrow> instant \<Rightarrow> rfc_session \<Rightarrow> rfc_session" where
  "up_continue k now s =
     (case k of
        KeepOn \<Rightarrow> s\<lparr>up := UpSelect\<rparr>
      | Send d \<Rightarrow>
          (case plan (up_wire s) now d of
             None \<Rightarrow> s\<lparr>up := UpEnded\<rparr>
           | Some (w, cells) \<Rightarrow> s\<lparr>up_wire := w, up := up_cells cells\<rparr>))"

definition sync_settings :: "libc \<Rightarrow> termios option \<Rightarrow> after_sync \<Rightarrow> instant \<Rightarrow> rfc_session \<Rightarrow> rfc_session" where
  "sync_settings lc tio k now s =
     (if \<not> com_ok s then up_continue k now s
      else (case tio of
              None \<Rightarrow> up_continue k now s
            | Some t \<Rightarrow>
                let current = from_termios lc t in
                if current = last_settings s then up_continue k now s
                else s\<lparr>last_settings := current, up := UpSyncLock (commands_to (last_settings s) current) k\<rparr>))"

definition sync_write :: "bytes list \<Rightarrow> after_sync \<Rightarrow> instant \<Rightarrow> rfc_session \<Rightarrow> rfc_session" where
  "sync_write ms k now s =
     (case ms of [] \<Rightarrow> up_continue k now s | m # ms \<Rightarrow> s\<lparr>up := UpSyncWrite m ms k\<rparr>)"

definition up_step :: "libc \<Rightarrow> instant \<Rightarrow> up_event \<Rightarrow> rfc_session \<Rightarrow> (rfc_session \<times> sent list) option" where
  "up_step lc now e s =
     (case (up s, e) of
        (UpSelect, UpGot r tio) \<Rightarrow>
          (case r of
             IoErr _ \<Rightarrow> Some (s\<lparr>up := UpNap (now + RETRY)\<rparr>, [])
           | IoOk d \<Rightarrow>
               if length d > 8192 then None
               else if d = [] then Some (s\<lparr>up := UpNap (now + IDLE)\<rparr>, [])
               else Some (sync_settings lc tio (Send d) now s, []))
      | (UpSelect, UpTick tio) \<Rightarrow> Some (sync_settings lc tio KeepOn now s, [])
      | (UpNap t, UpTimer) \<Rightarrow> if t \<le> now then Some (s\<lparr>up := UpSelect\<rparr>, []) else None
      | (UpSyncLock ms k, UpLocked) \<Rightarrow> if writer_free s then Some (sync_write ms k now s, []) else None
      | (UpSyncWrite m ms k, UpTook n) \<Rightarrow>
          if n < length m then Some (s\<lparr>up := UpSyncWrite (drop n m) ms k\<rparr>, [ToPeer (take n m)])
          else if n = length m then Some (sync_write ms k now s, [ToPeer m])
          else None
      | (UpSyncWrite m ms k, UpFailed) \<Rightarrow> Some (s\<lparr>up := UpEnded\<rparr>, [])
      | (UpCells (c # cells), UpTimer) \<Rightarrow> if due c \<le> now then Some (s\<lparr>up := UpCellLock c cells\<rparr>, []) else None
      | (UpCellLock c cells, UpLocked) \<Rightarrow>
          if writer_free s then Some (s\<lparr>up := UpCellWrite (escape (cell_data c)) cells\<rparr>, []) else None
      | (UpCellWrite m cells, UpTook n) \<Rightarrow>
          if n < length m then Some (s\<lparr>up := UpCellWrite (drop n m) cells\<rparr>, [ToPeer (take n m)])
          else if n = length m then Some (s\<lparr>up := up_cells cells\<rparr>, [ToPeer m])
          else None
      | (UpCellWrite m cells, UpFailed) \<Rightarrow> Some (s\<lparr>up := UpEnded\<rparr>, [])
      | _ \<Rightarrow> None)"

section \<open>Peer to port\<close>

definition down_cells :: "cell list \<Rightarrow> down_pc" where
  "down_cells cells = (if cells = [] then DownRead else DownCells cells)"

definition down_deliver :: "bytes \<Rightarrow> instant \<Rightarrow> rfc_session \<Rightarrow> rfc_session" where
  "down_deliver d now s =
     (if d = [] then s\<lparr>down := DownRead\<rparr>
      else (case plan (down_wire s) now d of
              None \<Rightarrow> s\<lparr>down := DownEnded\<rparr>
            | Some (w, cells) \<Rightarrow> s\<lparr>down_wire := w, down := down_cells cells\<rparr>))"

definition down_decode :: "bytes \<Rightarrow> instant \<Rightarrow> rfc_session \<Rightarrow> rfc_session" where
  "down_decode d now s =
     (case decode (peer_telnet s) d of
        (t, o') \<Rightarrow>
          let s = s\<lparr>peer_telnet := t, com_ok := com_ok s \<and> com_port_ok t\<rparr> in
          if reply o' \<noteq> [] then s\<lparr>down := DownReplyLock (reply o') (data o')\<rparr>
          else down_deliver (data o') now s)"

definition down_step :: "instant \<Rightarrow> down_event \<Rightarrow> rfc_session \<Rightarrow> (rfc_session \<times> sent list) option" where
  "down_step now e s =
     (case (down s, e) of
        (DownRead, DownGot r) \<Rightarrow>
          (case r of
             IoErr _ \<Rightarrow> Some (s\<lparr>down := DownEnded\<rparr>, [])
           | IoOk d \<Rightarrow>
               if length d > 8192 then None
               else if d = [] then Some (s\<lparr>down := DownEnded\<rparr>, [])
               else Some (down_decode d now s, []))
      | (DownReplyLock r d, DownLocked) \<Rightarrow> if writer_free s then Some (s\<lparr>down := DownReplyWrite r d\<rparr>, []) else None
      | (DownReplyWrite r d, DownTook n) \<Rightarrow>
          if n < length r then Some (s\<lparr>down := DownReplyWrite (drop n r) d\<rparr>, [ToPeer (take n r)])
          else if n = length r then Some (down_deliver d now s, [ToPeer r])
          else None
      | (DownReplyWrite r d, DownFailed) \<Rightarrow> Some (s\<lparr>down := DownEnded\<rparr>, [])
      | (DownCells (c # cells), DownTimer) \<Rightarrow>
          if due c \<le> now then Some (s\<lparr>down := DownPort (cell_data c) cells\<rparr>, []) else None
      | (DownPort m cells, PortTook n) \<Rightarrow>
          if n < length m then Some (s\<lparr>down := DownPort (drop n m) cells\<rparr>, [ToPort (take n m)])
          else if n = length m then Some (s\<lparr>down := down_cells cells\<rparr>, [ToPort m])
          else None
      | (DownPort m cells, PortFailed) \<Rightarrow> Some (s\<lparr>down := DownEnded\<rparr>, [])
      | _ \<Rightarrow> None)"

section \<open>The session\<close>

definition rfc_step :: "libc \<Rightarrow> rfc_session \<Rightarrow> instant \<times> rfc_event \<Rightarrow> (rfc_session \<times> sent list) option" where
  "rfc_step lc s ev =
     (case ev of (now, e) \<Rightarrow>
      if over s then None
      else (case (phase s, e) of
              (Offering m, OfferTook n) \<Rightarrow>
                if n < length m then Some (s\<lparr>phase := Offering (drop n m)\<rparr>, [ToPeer (take n m)])
                else if n = length m then Some (s\<lparr>phase := Running\<rparr>, [ToPeer m])
                else None
            | (Offering m, OfferFailed) \<Rightarrow> Some (s\<lparr>phase := Closed\<rparr>, [])
            | (Running, UpEv u) \<Rightarrow> up_step lc now u s
            | (Running, DownEv d) \<Rightarrow> down_step now d s
            | _ \<Rightarrow> None))"

definition rfc_run ::
    "libc \<Rightarrow> port_settings \<Rightarrow> wire \<Rightarrow> wire \<Rightarrow> (instant \<times> rfc_event) list \<Rightarrow> (rfc_session \<times> sent list) option" where
  "rfc_run lc pristine to_peer from_peer =
     run_events (rfc_step lc) (rfc_open pristine to_peer from_peer)"


section \<open>What a run shows\<close>

definition peer_bytes :: "sent list \<Rightarrow> bytes" where
  "peer_bytes outs = concat (map (\<lambda>x. case x of ToPeer d \<Rightarrow> d | ToPort _ \<Rightarrow> []) outs)"

definition port_bytes :: "sent list \<Rightarrow> bytes" where
  "port_bytes outs = concat (map (\<lambda>x. case x of ToPeer _ \<Rightarrow> [] | ToPort d \<Rightarrow> d) outs)"

text \<open>What the consumer typed, what the peer sent, and the line settings last seen at a sync.\<close>

fun typed_by :: "instant \<times> rfc_event \<Rightarrow> bytes" where
  "typed_by (now, UpEv (UpGot (IoOk d) tio)) = d"
| "typed_by _ = []"

fun heard_by :: "instant \<times> rfc_event \<Rightarrow> bytes" where
  "heard_by (now, DownEv (DownGot (IoOk d))) = d"
| "heard_by _ = []"

fun sampled_by :: "libc \<Rightarrow> instant \<times> rfc_event \<Rightarrow> port_settings \<Rightarrow> port_settings" where
  "sampled_by lc (now, UpEv (UpGot (IoOk (b # d)) (Some t))) ps = from_termios lc t"
| "sampled_by lc (now, UpEv (UpTick (Some t))) ps = from_termios lc t"
| "sampled_by lc _ ps = ps"

definition typed :: "(instant \<times> rfc_event) list \<Rightarrow> bytes" where
  "typed es = concat (map typed_by es)"

definition heard :: "(instant \<times> rfc_event) list \<Rightarrow> bytes" where
  "heard es = concat (map heard_by es)"

definition sampled :: "libc \<Rightarrow> port_settings \<Rightarrow> (instant \<times> rfc_event) list \<Rightarrow> port_settings" where
  "sampled lc pristine es = fold (sampled_by lc) es pristine"

text \<open>What a session still holds.\<close>

definition datas :: "cell list \<Rightarrow> bytes" where
  "datas cells = concat (map cell_data cells)"

primrec after_data :: "after_sync \<Rightarrow> bytes" where
  "after_data KeepOn = []" | "after_data (Send d) = d"

primrec up_queue :: "up_pc \<Rightarrow> bytes" where
  "up_queue UpSelect = []" | "up_queue (UpNap t) = []" | "up_queue (UpSyncLock ms k) = []"
| "up_queue (UpSyncWrite m ms k) = []" | "up_queue (UpCells cs) = datas cs"
| "up_queue (UpCellLock c cs) = cell_data c @ datas cs" | "up_queue (UpCellWrite m cs) = datas cs"
| "up_queue UpEnded = []"

primrec up_raw :: "up_pc \<Rightarrow> bytes" where
  "up_raw UpSelect = []" | "up_raw (UpNap t) = []" | "up_raw (UpSyncLock ms k) = after_data k"
| "up_raw (UpSyncWrite m ms k) = after_data k" | "up_raw (UpCells cs) = []"
| "up_raw (UpCellLock c cs) = []" | "up_raw (UpCellWrite m cs) = []" | "up_raw UpEnded = []"

primrec up_commands :: "up_pc \<Rightarrow> bytes list" where
  "up_commands UpSelect = []" | "up_commands (UpNap t) = []" | "up_commands (UpSyncLock ms k) = ms"
| "up_commands (UpSyncWrite m ms k) = ms" | "up_commands (UpCells cs) = []"
| "up_commands (UpCellLock c cs) = []" | "up_commands (UpCellWrite m cs) = []" | "up_commands UpEnded = []"

primrec up_flight :: "up_pc \<Rightarrow> bytes" where
  "up_flight UpSelect = []" | "up_flight (UpNap t) = []" | "up_flight (UpSyncLock ms k) = []"
| "up_flight (UpSyncWrite m ms k) = m" | "up_flight (UpCells cs) = []"
| "up_flight (UpCellLock c cs) = []" | "up_flight (UpCellWrite m cs) = m" | "up_flight UpEnded = []"

primrec down_flight :: "down_pc \<Rightarrow> bytes" where
  "down_flight DownRead = []" | "down_flight (DownReplyLock r d) = []"
| "down_flight (DownReplyWrite r d) = r" | "down_flight (DownCells cs) = []"
| "down_flight (DownPort m cs) = []" | "down_flight DownEnded = []"

primrec down_queue :: "down_pc \<Rightarrow> bytes" where
  "down_queue DownRead = []" | "down_queue (DownReplyLock r d) = []"
| "down_queue (DownReplyWrite r d) = []" | "down_queue (DownCells cs) = datas cs"
| "down_queue (DownPort m cs) = m @ datas cs" | "down_queue DownEnded = []"

primrec phase_flight :: "phase \<Rightarrow> bytes" where
  "phase_flight (Offering m) = m" | "phase_flight Running = []" | "phase_flight Closed = []"

definition in_flight :: "rfc_session \<Rightarrow> bytes" where
  "in_flight s = phase_flight (phase s) @ up_flight (up s) @ down_flight (down s)"

lemma not_holding [simp]:
  "\<not> up_holds p \<Longrightarrow> up_flight p = []" "\<not> down_holds q \<Longrightarrow> down_flight q = []"
  by (cases p; simp) (cases q; simp)

lemma datas_simps [simp]:
  "datas [] = []" "datas (c # cs) = cell_data c @ datas cs"
  by (simp_all add: datas_def)

lemma up_cells_simps [simp]:
  "up_queue (up_cells cs) = datas cs" "up_raw (up_cells cs) = []" "up_commands (up_cells cs) = []" "up_flight (up_cells cs) = []"
  "\<not> up_holds (up_cells cs)" "up_cells cs \<noteq> UpEnded"
  by (simp_all add: up_cells_def)

lemma down_cells_simps [simp]:
  "down_queue (down_cells cs) = datas cs" "down_flight (down_cells cs) = []"
  "\<not> down_holds (down_cells cs)" "down_cells cs \<noteq> DownEnded"
  by (simp_all add: down_cells_def)

lemma bytes_simps [simp]:
  "peer_bytes [] = []" "peer_bytes (ToPeer d # outs) = d @ peer_bytes outs" "peer_bytes (ToPort d # outs) = peer_bytes outs"
  "peer_bytes (outs @ outs') = peer_bytes outs @ peer_bytes outs'"
  "port_bytes [] = []" "port_bytes (ToPeer d # outs) = port_bytes outs" "port_bytes (ToPort d # outs) = d @ port_bytes outs"
  "port_bytes (outs @ outs') = port_bytes outs @ port_bytes outs'"
  by (simp_all add: peer_bytes_def port_bytes_def)

lemma history_simps [simp]:
  "typed [] = []" "typed (es @ [e]) = typed es @ typed_by e"
  "heard [] = []" "heard (es @ [e]) = heard es @ heard_by e"
  "sampled lc ps [] = ps" "sampled lc ps (es @ [e]) = sampled_by lc e (sampled lc ps es)"
  by (simp_all add: typed_def heard_def sampled_def)

section \<open>A server in tune\<close>

text \<open>
  The server's settings agree with the ones last relayed; a speed the codec has no number for is
  never relayed, so then the server keeps its own.
\<close>

definition in_tune :: "port_settings \<Rightarrow> port_settings \<Rightarrow> bool" where
  "in_tune l srv \<longleftrightarrow> ps_data_bits srv = ps_data_bits l \<and> ps_parity srv = ps_parity l \<and>
     ps_stop_bits srv = ps_stop_bits l \<and> ps_flow srv = ps_flow l \<and> (ps_baud l \<noteq> 0 \<longrightarrow> ps_baud srv = ps_baud l)"

lemma in_tune_refl [simp]: "in_tune l l"
  by (simp add: in_tune_def)

lemma in_tune_commands:
  assumes "in_tune a srv" "settings_ok b"
  shows "in_tune b (fold server_set (concat (map frame_bodies (command_frames a b))) srv)"
  using assms(1) settings_ok_nonzero [OF assms(2)]
  by (auto simp: command_frames_def server_set_baud server_set_byte in_tune_def)

lemma command_frames_payload: "concat (map payload (command_frames a b)) = []"
  by (simp add: command_frames_def)

text \<open>Replies are whole negotiation frames.\<close>

definition answers :: "bytes \<Rightarrow> bool" where
  "answers r \<longleftrightarrow> (\<exists>fs. list_all frame_ok fs \<and> r = concat (map encode_frame fs) \<and>
     concat (map payload fs) = [] \<and> concat (map frame_bodies fs) = [])"

lemma answers_Nil: "answers []"
  unfolding answers_def by (intro exI [of _ "[]"]) simp

lemma answers_append: "answers r \<Longrightarrow> answers r' \<Longrightarrow> answers (r @ r')"
proof -
  assume "answers r" "answers r'"
  then obtain fs gs where "list_all frame_ok fs" "r = concat (map encode_frame fs)"
    "concat (map payload fs) = []" "concat (map frame_bodies fs) = []"
    "list_all frame_ok gs" "r' = concat (map encode_frame gs)"
    "concat (map payload gs) = []" "concat (map frame_bodies gs) = []"
    unfolding answers_def by blast
  then show ?thesis unfolding answers_def by (intro exI [of _ "fs @ gs"]) simp
qed

lemma answer_frame:
  "c = WILL \<or> c = WONT \<or> c = DO \<or> c = DONT \<Longrightarrow> answers [IAC, c, opt]"
  unfolding answers_def by (intro exI [of _ "[Negotiation c opt]"]) auto

lemma negotiate_answer:
  "negotiate t cmd opt = (t', Some r) \<Longrightarrow> r = WILL \<or> r = WONT \<or> r = DO \<or> r = DONT"
  by (simp only: negotiate_def Let_def split: if_split_asm; simp)

lemma answers_decode_byte: "answers (reply (snd (decode_byte b (t, no_output))))"
  by (cases "tstate t")
     (auto simp: decode_byte_def answers_Nil answer_frame dest!: negotiate_answer split: prod.splits option.splits)

lemma answers_decode: "answers (reply (snd (decode t bs)))"
proof (induction bs arbitrary: t)
  case (Cons b bs)
  obtain t' o' where s: "decode_byte b (t, no_output) = (t', o')" by fastforce
  obtain t'' o'' where d: "decode t' bs = (t'', o'')" by fastforce
  have "answers (reply o')" using answers_decode_byte [of b t] s by simp
  moreover have "answers (reply o'')" using Cons [of t'] d by simp
  ultimately show ?case using s d by (simp add: decode_Cons answers_append)
qed (simp add: answers_Nil)


lemma noise_refl: "noise xs xs"
  by (induction xs) (simp_all add: noise_intros)

section \<open>The stream to the peer\<close>

text \<open>
  \<open>P\<close> was written and \<open>fl\<close> is being written: together whole frames \<open>fs\<close>.  What was typed ends
  with the unplanned bytes \<open>raw\<close>; of the rest, payload and planned queue \<open>q\<close> are all, up to the
  wire's noise.  Once the commands \<open>ps\<close> follow, the server is in tune with the settings \<open>l\<close>.
\<close>

definition stream ::
    "port_settings \<Rightarrow> wire \<Rightarrow> wire \<Rightarrow> port_settings \<Rightarrow> bytes \<Rightarrow> bytes \<Rightarrow> frame list \<Rightarrow> frame list \<Rightarrow>
     bytes \<Rightarrow> bytes \<Rightarrow> bytes \<Rightarrow> bool" where
  "stream p w0 w l T P fs ps q raw fl \<longleftrightarrow>
     list_all frame_ok fs \<and> list_all frame_ok ps \<and> P @ fl = concat (map encode_frame fs) \<and>
     (\<exists>T0. T = T0 @ raw \<and> noise T0 (concat (map payload fs) @ q) \<and>
        (drop_p w0 \<le> 0 \<and> corrupt_p w0 \<le> 0 \<longrightarrow> T0 = concat (map payload fs) @ q)) \<and>
     concat (map payload ps) = [] \<and>
     in_tune l (fold server_set (concat (map frame_bodies (fs @ ps))) p) \<and>
     same_line w0 w \<and> wire_wf w0"

definition cut_stream :: "bytes \<Rightarrow> bytes \<Rightarrow> bool" where
  "cut_stream T P \<longleftrightarrow>
     (\<exists>fs rest. list_all frame_ok fs \<and> P @ rest = concat (map encode_frame fs) \<and> noise T (concat (map payload fs)))"

lemma stream_took: "stream p w0 w l T P fs ps q raw (a @ b) \<Longrightarrow> stream p w0 w l T (P @ a) fs ps q raw b"
  by (simp add: stream_def)

lemma stream_took_all: "stream p w0 w l T P fs ps q raw a \<Longrightarrow> stream p w0 w l T (P @ a) fs ps q raw []"
  by (simp add: stream_def)

lemma stream_typed: "stream p w0 w l T P fs ps q [] fl \<Longrightarrow> stream p w0 w l (T @ d) P fs ps q d fl"
  by (simp add: stream_def)

lemma stream_plan:
  assumes "stream p w0 w l T P fs ps [] d fl" "plan w now d = Some (w', cells)"
  shows "stream p w0 w' l T P fs ps (datas cells) [] fl"
proof -
  have w: "same_line w0 w" "wire_wf w" using assms(1) same_line_keeps(2) by (auto simp: stream_def)
  have f: "noise d (datas cells)" "drop_p w0 \<le> 0 \<and> corrupt_p w0 \<le> 0 \<longrightarrow> datas cells = d"
    using plan_faults [OF assms(2) w(2)] w(1) by (auto simp: datas_def same_line_def)
  have "same_line w w'" by (rule plan_spec [OF assms(2) w(2)])
  with assms(1) f same_line_trans [OF w(1)] show ?thesis
    by (auto simp: stream_def intro: noise_append)
qed

lemma stream_cell:
  "stream p w0 w l T P fs [] (d @ q) raw [] \<Longrightarrow> stream p w0 w l T P (fs @ [Payload d]) [] q raw (escape d)"
  by (simp add: stream_def)

lemma stream_command:
  "stream p w0 w l T P fs (f # ps) q raw [] \<Longrightarrow> stream p w0 w l T P (fs @ [f]) ps q raw (encode_frame f)"
  by (simp add: stream_def)

lemma stream_sync:
  assumes "stream p w0 w l T P fs [] q raw fl" "settings_ok l'"
  shows "stream p w0 w l' T P fs (command_frames l l') q raw fl"
  using assms(1) in_tune_commands [OF _ assms(2), of l] command_frames_payload [of l l'] command_frames_ok [of l l']
  by (simp add: stream_def del: concat_eq_Nil_conv)

lemma stream_reply:
  assumes "stream p w0 w l T P fs ps q raw []" "answers r"
  obtains fs' where "stream p w0 w l T P fs' ps q raw r"
proof -
  from assms(2) obtain gs where "list_all frame_ok gs" "r = concat (map encode_frame gs)"
    "concat (map payload gs) = []" "concat (map frame_bodies gs) = []"
    unfolding answers_def by blast
  with assms(1) have "stream p w0 w l T P (fs @ gs) ps q raw r"
    by (simp add: stream_def del: concat_eq_Nil_conv)
  with that show ?thesis .
qed

lemma stream_cut:
  assumes "stream p w0 w l T P fs ps q raw fl"
  shows "cut_stream (T @ d) P"
proof -
  from assms obtain T0 where s: "T = T0 @ raw" "noise T0 (concat (map payload fs) @ q)"
    "P @ fl = concat (map encode_frame fs)" "list_all frame_ok fs"
    unfolding stream_def by blast
  have "noise (T @ d) (concat (map payload fs) @ [])"
    unfolding s(1) append_assoc by (rule noise_append [OF noise_prefix [OF s(2) refl] noise_to_Nil])
  with s show ?thesis unfolding cut_stream_def by auto
qed


lemma up_continue_keeps [simp]:
  "phase (up_continue k now s) = phase s" "down (up_continue k now s) = down s"
  "com_ok (up_continue k now s) = com_ok s" "last_settings (up_continue k now s) = last_settings s"
  "peer_telnet (up_continue k now s) = peer_telnet s" "down_wire (up_continue k now s) = down_wire s"
  "up_commands (up (up_continue k now s)) = []" "up_flight (up (up_continue k now s)) = []"
  "\<not> up_holds (up (up_continue k now s))"
  by (auto simp: up_continue_def split: after_sync.split option.split)

lemma up_continue_stream:
  assumes "stream p w0 (up_wire s) l T P fs [] [] (after_data k) fl"
    and "up (up_continue k now s) \<noteq> UpEnded"
  shows "stream p w0 (up_wire (up_continue k now s)) l T P fs [] (up_queue (up (up_continue k now s)))
    (up_raw (up (up_continue k now s))) fl"
  using assms by (auto simp: up_continue_def stream_plan split: after_sync.splits option.splits)

lemma sampled_by_id [simp]:
  "sampled_by lc (now, UpEv (UpGot (IoErr x) tio)) = id" "sampled_by lc (now, UpEv (UpGot (IoOk []) tio)) = id"
  "sampled_by lc (now, UpEv UpTimer) = id"
  by (auto simp: fun_eq_iff)

lemma up_stepE:
  assumes "up_step lc now e s = Some (s', out)"
  obtains
    (quiet) q where "up s = UpSelect \<or> (\<exists>t. up s = UpNap t)" "q = UpSelect \<or> (\<exists>t. q = UpNap t)" "s' = s\<lparr>up := q\<rparr>" "out = []"
      "typed_by (now, UpEv e) = []" "sampled_by lc (now, UpEv e) = id"
  | (got) d tio where "up s = UpSelect" "e = UpGot (IoOk d) tio" "d \<noteq> []" "s' = sync_settings lc tio (Send d) now s" "out = []"
  | (tick) tio where "up s = UpSelect" "e = UpTick tio" "s' = sync_settings lc tio KeepOn now s" "out = []"
  | (locked) ms k where "up s = UpSyncLock ms k" "e = UpLocked" "writer_free s" "s' = sync_write ms k now s" "out = []"
  | (command_part) m ms k n where "up s = UpSyncWrite m ms k" "e = UpTook n" "n < length m"
      "s' = s\<lparr>up := UpSyncWrite (drop n m) ms k\<rparr>" "out = [ToPeer (take n m)]"
  | (command_done) m ms k n where "up s = UpSyncWrite m ms k" "e = UpTook n" "s' = sync_write ms k now s" "out = [ToPeer m]"
  | (failed) "up_holds (up s)" "e = UpFailed" "s' = s\<lparr>up := UpEnded\<rparr>" "out = []"
  | (due) c cells where "up s = UpCells (c # cells)" "e = UpTimer" "s' = s\<lparr>up := UpCellLock c cells\<rparr>" "out = []"
  | (cell_locked) c cells where "up s = UpCellLock c cells" "e = UpLocked" "writer_free s"
      "s' = s\<lparr>up := UpCellWrite (escape (cell_data c)) cells\<rparr>" "out = []"
  | (cell_part) m cells n where "up s = UpCellWrite m cells" "e = UpTook n" "n < length m"
      "s' = s\<lparr>up := UpCellWrite (drop n m) cells\<rparr>" "out = [ToPeer (take n m)]"
  | (cell_done) m cells n where "up s = UpCellWrite m cells" "e = UpTook n" "s' = s\<lparr>up := up_cells cells\<rparr>" "out = [ToPeer m]"
proof (cases "up s")
  case UpSelect
  with assms quiet got tick show ?thesis
    by (cases e) (auto simp: up_step_def split: io_result.splits if_splits)
next
  case (UpNap t)
  with assms quiet [of UpSelect] show ?thesis by (cases e) (auto simp: up_step_def split: if_splits)
next
  case (UpSyncLock ms k)
  with assms locked show ?thesis by (cases e) (auto simp: up_step_def split: if_splits)
next
  case (UpSyncWrite m ms k)
  with assms command_part command_done failed show ?thesis by (cases e) (auto simp: up_step_def split: if_splits)
next
  case (UpCells cells)
  with assms due show ?thesis by (cases e; cases cells) (auto simp: up_step_def split: if_splits)
next
  case (UpCellLock c cells)
  with assms cell_locked show ?thesis by (cases e) (auto simp: up_step_def split: if_splits)
next
  case (UpCellWrite m cells)
  with assms cell_part cell_done failed show ?thesis by (cases e) (auto simp: up_step_def split: if_splits)
next
  case UpEnded
  with assms show ?thesis by (simp add: up_step_def)
qed


section \<open>The invariant of the sending side\<close>

definition exclusive :: "rfc_session \<Rightarrow> bool" where
  "exclusive s \<longleftrightarrow> \<not> (up_holds (up s) \<and> down_holds (down s)) \<and>
     (\<forall>m. phase s = Offering m \<longrightarrow> up s = UpSelect \<and> down s = DownRead)"

definition streaming :: "port_settings \<Rightarrow> wire \<Rightarrow> rfc_session \<Rightarrow> bytes \<Rightarrow> bytes \<Rightarrow> bool" where
  "streaming p w0 s T P \<longleftrightarrow>
     (\<exists>fs ps. up_commands (up s) = map encode_frame ps \<and>
        stream p w0 (up_wire s) (last_settings s) T P fs ps (up_queue (up s)) (up_raw (up s)) (in_flight s))"

definition up_inv ::
    "libc \<Rightarrow> port_settings \<Rightarrow> wire \<Rightarrow> rfc_session \<Rightarrow> (instant \<times> rfc_event) list \<Rightarrow> sent list \<Rightarrow> bool" where
  "up_inv lc p w0 s es outs \<longleftrightarrow>
     (if over s then cut_stream (typed es) (peer_bytes outs)
      else streaming p w0 s (typed es) (peer_bytes outs) \<and> exclusive s \<and>
        (com_ok s \<longrightarrow> last_settings s = sampled lc p es))"

lemma streamingI:
  "up_commands (up s) = map encode_frame ps \<Longrightarrow>
   stream p w0 (up_wire s) (last_settings s) T P fs ps (up_queue (up s)) (up_raw (up s)) (in_flight s) \<Longrightarrow>
   streaming p w0 s T P"
  unfolding streaming_def by blast

lemma up_continue_streaming:
  assumes "stream p w0 (up_wire s) (last_settings s) T P fs [] [] (after_data k)
      (phase_flight (phase s) @ down_flight (down s))"
    and "up (up_continue k now s) \<noteq> UpEnded"
  shows "streaming p w0 (up_continue k now s) T P"
  by (rule streamingI [where ps = "[]" and fs = fs])
     (use up_continue_stream [OF assms] in \<open>simp_all add: in_flight_def\<close>)

lemma sync_streaming:
  assumes "stream p w0 (up_wire s) (last_settings s) T P fs [] [] (after_data k)
      (phase_flight (phase s) @ down_flight (down s))"
    and "up (sync_settings lc tio k now s) \<noteq> UpEnded"
  shows "streaming p w0 (sync_settings lc tio k now s) T P"
proof (cases "com_ok s \<and> (\<exists>t. tio = Some t \<and> from_termios lc t \<noteq> last_settings s)")
  case True
  then obtain t where t: "com_ok s" "tio = Some t" "from_termios lc t \<noteq> last_settings s" by blast
  let ?b = "from_termios lc t"
  have "stream p w0 (up_wire s) ?b T P fs (command_frames (last_settings s) ?b) [] (after_data k)
      (phase_flight (phase s) @ down_flight (down s))"
    by (rule stream_sync [OF assms(1) settings_ok_from_termios])
  then show ?thesis
    using t by (intro streamingI [where ps = "command_frames (last_settings s) ?b" and fs = fs])
      (simp_all add: sync_settings_def Let_def in_flight_def commands_to_frames)
next
  case False
  then have "sync_settings lc tio k now s = up_continue k now s"
    by (auto simp: sync_settings_def split: option.split)
  with up_continue_streaming [OF assms(1)] assms(2) show ?thesis by simp
qed

lemma sync_keeps [simp]:
  "phase (sync_settings lc tio k now s) = phase s" "down (sync_settings lc tio k now s) = down s"
  "com_ok (sync_settings lc tio k now s) = com_ok s"
  "\<not> up_holds (up (sync_settings lc tio k now s))"
  by (auto simp: sync_settings_def Let_def split: option.split)

lemma sync_last:
  "com_ok s \<Longrightarrow> last_settings (sync_settings lc tio k now s) =
     (case tio of None \<Rightarrow> last_settings s | Some t \<Rightarrow> from_termios lc t)"
  by (auto simp: sync_settings_def Let_def split: option.split)

lemma sync_write_streaming:
  assumes "stream p w0 (up_wire s) (last_settings s) T P fs ps [] (after_data k) []"
    and "ms = map encode_frame ps" and "phase s = Running" and "\<not> down_holds (down s)"
    and "up (sync_write ms k now s) \<noteq> UpEnded"
  shows "streaming p w0 (sync_write ms k now s) T P"
proof (cases ps)
  case Nil
  with assms show ?thesis
    using up_continue_streaming [of p w0 s T P fs k now] by (simp add: sync_write_def)
next
  case (Cons f ps')
  with assms(1) have "stream p w0 (up_wire s) (last_settings s) T P (fs @ [f]) ps' [] (after_data k) (encode_frame f)"
    using stream_command by blast
  with Cons assms show ?thesis
    by (intro streamingI [where ps = ps' and fs = "fs @ [f]"])
      (simp_all add: sync_write_def in_flight_def)
qed

lemma sync_write_keeps [simp]:
  "phase (sync_write ms k now s) = phase s" "down (sync_write ms k now s) = down s"
  "com_ok (sync_write ms k now s) = com_ok s" "last_settings (sync_write ms k now s) = last_settings s"
  by (auto simp: sync_write_def split: list.split)


lemma up_invI:
  assumes "over s \<Longrightarrow> cut_stream (typed es) (peer_bytes outs)"
    and "\<not> over s \<Longrightarrow> streaming p w0 s (typed es) (peer_bytes outs)"
    and "\<not> over s \<Longrightarrow> exclusive s" and "\<not> over s \<Longrightarrow> com_ok s \<Longrightarrow> last_settings s = sampled lc p es"
  shows "up_inv lc p w0 s es outs"
  using assms by (simp add: up_inv_def)

lemma up_step_inv:
  assumes inv: "up_inv lc p w0 s es outs" and live: "\<not> over s" and run: "phase s = Running"
    and step: "up_step lc now e s = Some (s', out)"
  shows "up_inv lc p w0 s' (es @ [(now, UpEv e)]) (outs @ out)"
proof -
  from inv live obtain fs ps where i: "up_commands (up s) = map encode_frame ps"
    "stream p w0 (up_wire s) (last_settings s) (typed es) (peer_bytes outs) fs ps (up_queue (up s)) (up_raw (up s)) (in_flight s)"
    "exclusive s" "com_ok s \<Longrightarrow> last_settings s = sampled lc p es"
    unfolding up_inv_def streaming_def by auto
  have d: "down s \<noteq> DownEnded" using live by (simp add: over_def)
  note cut = stream_cut [OF i(2)]
  from cut [of "[]"] have cut0: "cut_stream (typed es) (peer_bytes outs)" by simp
  note defs = in_flight_def exclusive_def over_def run d
  from step show ?thesis
  proof (cases rule: up_stepE)
    case (quiet q)
    then show ?thesis
      by (intro up_invI streamingI [where ps = ps and fs = fs]) (use i quiet in \<open>auto simp: defs\<close>)
  next
    case (got b tio)
    have "ps = []" using i(1) got(1) by simp
    with i(2) got(1) have "stream p w0 (up_wire s) (last_settings s) (typed es @ b) (peer_bytes outs) fs [] []
        (after_data (Send b)) (phase_flight (phase s) @ down_flight (down s))"
      by (simp add: stream_typed in_flight_def)
    from sync_streaming [OF this] got cut [of b] i(3,4) show ?thesis
      by (intro up_invI) (cases b; auto simp: defs sync_last split: option.split)+
  next
    case (tick tio)
    have "ps = []" using i(1) tick(1) by simp
    with i(2) tick(1) have "stream p w0 (up_wire s) (last_settings s) (typed es) (peer_bytes outs) fs [] []
        (after_data KeepOn) (phase_flight (phase s) @ down_flight (down s))"
      by (simp add: in_flight_def)
    from sync_streaming [OF this] tick cut0 i(3,4) show ?thesis
      by (intro up_invI) (auto simp: defs sync_last split: option.split)
  next
    case (locked ms k)
    have f: "\<not> down_holds (down s)" "in_flight s = []"
      using locked(1,3) run by (simp_all add: writer_free_def in_flight_def)
    have "stream p w0 (up_wire s) (last_settings s) (typed es) (peer_bytes outs) fs ps [] (after_data k) []"
      using i(2) locked(1) f(2) by simp
    moreover have "ms = map encode_frame ps" using i(1) locked(1) by simp
    ultimately show ?thesis
      using sync_write_streaming [of p w0 s _ _ fs ps k ms now] locked cut0 i(4) f(1)
      by (intro up_invI) (auto simp: defs)
  next
    case (command_part m ms k n)
    have "in_flight s = take n m @ drop n m" using command_part(1) run i(3) by (simp add: defs)
    with i(2) have "stream p w0 (up_wire s) (last_settings s) (typed es) (peer_bytes outs @ take n m) fs ps
        (up_queue (up s)) (up_raw (up s)) (drop n m)" by (simp add: stream_took)
    with command_part i show ?thesis
      by (intro up_invI streamingI [where ps = ps and fs = fs]) (auto simp: defs)
  next
    case (command_done m ms k n)
    have f: "\<not> down_holds (down s)" "in_flight s = m"
      using command_done(1) i(3) run by (simp_all add: defs)
    have s: "stream p w0 (up_wire s) (last_settings s) (typed es) (peer_bytes outs @ m) fs ps [] (after_data k) []"
      using stream_took_all i(2) command_done(1) f(2) by simp
    moreover have "ms = map encode_frame ps" using i(1) command_done(1) by simp
    ultimately show ?thesis
      using sync_write_streaming [of p w0 s _ _ fs ps k ms now] command_done stream_cut [OF s, of "[]"] i(4) f(1) run
      by (intro up_invI) (auto simp: defs)
  next
    case failed
    with cut0 show ?thesis by (intro up_invI) (auto simp: over_def)
  next
    case (due c cells)
    with i show ?thesis
      by (intro up_invI streamingI [where ps = ps and fs = fs]) (auto simp: defs)
  next
    case (cell_locked c cells)
    have f: "\<not> down_holds (down s)" "in_flight s = []" "ps = []"
      using cell_locked(1,3) i(1) run by (simp_all add: writer_free_def in_flight_def)
    with i(2) cell_locked(1) have "stream p w0 (up_wire s) (last_settings s) (typed es) (peer_bytes outs)
        (fs @ [Payload (cell_data c)]) [] (datas cells) [] (escape (cell_data c))"
      by (simp add: stream_cell)
    with cell_locked i f show ?thesis
      by (intro up_invI streamingI [where ps = "[]" and fs = "fs @ [Payload (cell_data c)]"]) (auto simp: defs)
  next
    case (cell_part m cells n)
    have "in_flight s = take n m @ drop n m" using cell_part(1) run i(3) by (simp add: defs)
    with i(2) have "stream p w0 (up_wire s) (last_settings s) (typed es) (peer_bytes outs @ take n m) fs ps
        (up_queue (up s)) (up_raw (up s)) (drop n m)" by (simp add: stream_took)
    with cell_part i show ?thesis
      by (intro up_invI streamingI [where ps = ps and fs = fs]) (auto simp: defs)
  next
    case (cell_done m cells n)
    have "in_flight s = m" using cell_done(1) i(3) run by (simp_all add: defs)
    then have s: "stream p w0 (up_wire s) (last_settings s) (typed es) (peer_bytes outs @ m) fs ps
        (datas cells) [] []"
      using stream_took_all i(2) cell_done(1) by simp
    with cell_done i show ?thesis
      by (intro up_invI streamingI [where ps = ps and fs = fs]) (auto simp: defs)
  qed
qed


section \<open>The receiving side\<close>

lemma down_stepE:
  assumes "down_step now e s = Some (s', out)"
  obtains
    (ended) "s' = s\<lparr>down := DownEnded\<rparr>" "out = []" "heard_by (now, DownEv e) = []" "down s \<noteq> DownEnded"
  | (got) d where "down s = DownRead" "e = DownGot (IoOk d)" "d \<noteq> []" "s' = down_decode d now s" "out = []"
  | (reply_locked) r d where "down s = DownReplyLock r d" "e = DownLocked" "writer_free s"
      "s' = s\<lparr>down := DownReplyWrite r d\<rparr>" "out = []"
  | (reply_part) r d n where "down s = DownReplyWrite r d" "e = DownTook n" "n < length r"
      "s' = s\<lparr>down := DownReplyWrite (drop n r) d\<rparr>" "out = [ToPeer (take n r)]"
  | (reply_done) r d n where "down s = DownReplyWrite r d" "e = DownTook n" "s' = down_deliver d now s" "out = [ToPeer r]"
  | (due) c cells where "down s = DownCells (c # cells)" "e = DownTimer" "s' = s\<lparr>down := DownPort (cell_data c) cells\<rparr>" "out = []"
  | (port_part) m cells n where "down s = DownPort m cells" "e = PortTook n" "n < length m"
      "s' = s\<lparr>down := DownPort (drop n m) cells\<rparr>" "out = [ToPort (take n m)]"
  | (port_done) m cells n where "down s = DownPort m cells" "e = PortTook n" "s' = s\<lparr>down := down_cells cells\<rparr>" "out = [ToPort m]"
proof (cases "down s")
  case DownRead
  with assms ended got show ?thesis by (cases e) (auto simp: down_step_def split: io_result.splits if_splits)
next
  case (DownReplyLock r d)
  with assms reply_locked show ?thesis by (cases e) (auto simp: down_step_def split: if_splits)
next
  case (DownReplyWrite r d)
  with assms ended reply_part reply_done show ?thesis by (cases e) (auto simp: down_step_def split: if_splits)
next
  case (DownCells cells)
  with assms due show ?thesis by (cases e; cases cells) (auto simp: down_step_def split: if_splits)
next
  case (DownPort m cells)
  with assms ended port_part port_done show ?thesis by (cases e) (auto simp: down_step_def split: if_splits)
next
  case DownEnded
  with assms show ?thesis by (simp add: down_step_def)
qed

lemma down_deliver_keeps [simp]:
  "phase (down_deliver d now s) = phase s" "up (down_deliver d now s) = up s"
  "com_ok (down_deliver d now s) = com_ok s" "last_settings (down_deliver d now s) = last_settings s"
  "up_wire (down_deliver d now s) = up_wire s" "peer_telnet (down_deliver d now s) = peer_telnet s"
  "down_flight (down (down_deliver d now s)) = []" "\<not> down_holds (down (down_deliver d now s))"
  by (auto simp: down_deliver_def split: option.split)

lemma down_decode_keeps [simp]:
  "phase (down_decode d now s) = phase s" "up (down_decode d now s) = up s"
  "last_settings (down_decode d now s) = last_settings s" "up_wire (down_decode d now s) = up_wire s"
  "down_flight (down (down_decode d now s)) = []" "\<not> down_holds (down (down_decode d now s))"
  by (auto simp: down_decode_def Let_def split: prod.split)

lemma down_decode_com_ok: "com_ok (down_decode d now s) \<Longrightarrow> com_ok s"
  by (auto simp: down_decode_def Let_def split: prod.splits if_splits)

lemma quiet_down [simp]:
  "typed_by (now, DownEv e) = []" "sampled_by lc (now, DownEv e) = id"
  "typed_by (now, OfferTook n) = []" "sampled_by lc (now, OfferTook n) = id"
  "typed_by (now, OfferFailed) = []" "sampled_by lc (now, OfferFailed) = id"
  by (auto simp: fun_eq_iff)

text \<open>The replies waiting to be sent are whole frames.\<close>

definition replies_ok :: "rfc_session \<Rightarrow> bool" where
  "replies_ok s \<longleftrightarrow> (case down s of DownReplyLock r d \<Rightarrow> answers r | _ \<Rightarrow> True)"

lemma replies_ok_decode: "replies_ok (down_decode d now s)"
  using answers_decode [of "peer_telnet s" d]
  by (auto simp: replies_ok_def down_decode_def down_deliver_def down_cells_def Let_def split: prod.split option.split)

lemma replies_ok_deliver: "replies_ok (down_deliver d now s)"
  by (auto simp: replies_ok_def down_deliver_def down_cells_def split: option.split)

lemma replies_ok_step: "down_step now e s = Some (s', out) \<Longrightarrow> replies_ok s \<Longrightarrow> replies_ok s'"
  by (erule down_stepE) (auto simp: replies_ok_decode replies_ok_deliver, auto simp: replies_ok_def down_cells_def)

lemma down_step_up_inv:
  assumes inv: "up_inv lc p w0 s es outs" and live: "\<not> over s" and run: "phase s = Running"
    and step: "down_step now e s = Some (s', out)" and rep: "replies_ok s"
  shows "up_inv lc p w0 s' (es @ [(now, DownEv e)]) (outs @ out)"
proof -
  from inv live obtain fs ps where i: "up_commands (up s) = map encode_frame ps"
    "stream p w0 (up_wire s) (last_settings s) (typed es) (peer_bytes outs) fs ps (up_queue (up s)) (up_raw (up s)) (in_flight s)"
    "exclusive s" "com_ok s \<Longrightarrow> last_settings s = sampled lc p es"
    unfolding up_inv_def streaming_def by auto
  have u: "up s \<noteq> UpEnded" using live by (simp add: over_def)
  from stream_cut [OF i(2), of "[]"] have cut0: "cut_stream (typed es) (peer_bytes outs)" by simp
  note defs = in_flight_def exclusive_def over_def run u
  from step show ?thesis
  proof (cases rule: down_stepE)
    case ended
    with cut0 show ?thesis by (intro up_invI) (auto simp: over_def)
  next
    case (got d)
    with i cut0 down_decode_com_ok [of d now s] show ?thesis
      by (intro up_invI streamingI [where ps = ps and fs = fs]) (auto simp: defs)
  next
    case (reply_locked r d)
    have f: "\<not> up_holds (up s)" "in_flight s = []" "answers r"
      using reply_locked(1,3) rep run by (simp_all add: writer_free_def in_flight_def replies_ok_def)
    with i(2) obtain fs' where "stream p w0 (up_wire s) (last_settings s) (typed es) (peer_bytes outs) fs' ps
        (up_queue (up s)) (up_raw (up s)) r"
      using stream_reply by metis
    with reply_locked i f cut0 show ?thesis
      by (intro up_invI streamingI [where ps = ps and fs = fs']) (auto simp: defs)
  next
    case (reply_part r d n)
    have "\<not> up_holds (up s)" using reply_part(1) i(3) by (simp add: exclusive_def)
    moreover from this have "in_flight s = take n r @ drop n r" using reply_part(1) run by (simp add: defs)
    with i(2) have "stream p w0 (up_wire s) (last_settings s) (typed es) (peer_bytes outs @ take n r) fs ps
        (up_queue (up s)) (up_raw (up s)) (drop n r)" by (simp add: stream_took)
    ultimately show ?thesis using reply_part i
      by (intro up_invI streamingI [where ps = ps and fs = fs]) (auto simp: defs)
  next
    case (reply_done r d n)
    have h: "\<not> up_holds (up s)" using reply_done(1) i(3) by (simp add: exclusive_def)
    then have "in_flight s = r" using reply_done(1) run by (simp add: defs)
    with i(2) have s: "stream p w0 (up_wire s) (last_settings s) (typed es) (peer_bytes outs @ r) fs ps
        (up_queue (up s)) (up_raw (up s)) []" using stream_took_all by blast
    with reply_done i h stream_cut [OF s, of "[]"] show ?thesis
      by (intro up_invI streamingI [where ps = ps and fs = fs]) (auto simp: defs)
  next
    case (due c cells)
    with i cut0 show ?thesis
      by (intro up_invI streamingI [where ps = ps and fs = fs]) (auto simp: defs)
  next
    case (port_part m cells n)
    with i cut0 show ?thesis
      by (intro up_invI streamingI [where ps = ps and fs = fs]) (auto simp: defs)
  next
    case (port_done m cells n)
    with i cut0 show ?thesis
      by (intro up_invI streamingI [where ps = ps and fs = fs]) (auto simp: defs)
  qed
qed


text \<open>What a run delivers to the port is the payload the decoder found in what the peer sent.\<close>

primrec down_raw :: "down_pc \<Rightarrow> bytes" where
  "down_raw DownRead = []" | "down_raw (DownReplyLock r d) = d"
| "down_raw (DownReplyWrite r d) = d" | "down_raw (DownCells cs) = []"
| "down_raw (DownPort m cs) = []" | "down_raw DownEnded = []"

definition delivered :: "wire \<Rightarrow> bytes \<Rightarrow> bytes \<Rightarrow> bytes \<Rightarrow> bytes \<Rightarrow> bool" where
  "delivered w0 D q raw P \<longleftrightarrow>
     (\<exists>D0. D = D0 @ raw \<and> noise D0 (P @ q) \<and> (drop_p w0 \<le> 0 \<and> corrupt_p w0 \<le> 0 \<longrightarrow> D0 = P @ q))"

definition down_inv :: "wire \<Rightarrow> rfc_session \<Rightarrow> (instant \<times> rfc_event) list \<Rightarrow> sent list \<Rightarrow> bool" where
  "down_inv w0 s es outs \<longleftrightarrow>
     fst (decode telnet_new (heard es)) = peer_telnet s \<and> same_line w0 (down_wire s) \<and> wire_wf w0 \<and>
     (if down s = DownEnded then noise (data (snd (decode telnet_new (heard es)))) (port_bytes outs)
      else delivered w0 (data (snd (decode telnet_new (heard es)))) (down_queue (down s)) (down_raw (down s)) (port_bytes outs))"

lemma down_raw_cells [simp]: "down_raw (down_cells cs) = []"
  by (simp add: down_cells_def)

lemma delivered_noise: "delivered w0 D q raw P \<Longrightarrow> noise (D @ d) P"
proof -
  assume "delivered w0 D q raw P"
  then obtain D0 where d: "D = D0 @ raw" "noise D0 (P @ q)" unfolding delivered_def by blast
  have "noise (D @ d) (P @ [])"
    unfolding d(1) append_assoc by (rule noise_append [OF noise_prefix [OF d(2) refl] noise_to_Nil])
  then show ?thesis by simp
qed

lemma delivered_more: "delivered w0 D [] [] P \<Longrightarrow> delivered w0 (D @ d) [] d P"
  by (simp add: delivered_def)

lemma delivered_deliver:
  assumes "delivered w0 D [] d P" "same_line w0 (down_wire s)" "wire_wf w0"
    and "down (down_deliver d now s) \<noteq> DownEnded"
  shows "delivered w0 D (down_queue (down (down_deliver d now s))) (down_raw (down (down_deliver d now s))) P"
proof (cases "d = []")
  case True
  with assms show ?thesis by (simp add: down_deliver_def)
next
  case False
  with assms(4) obtain w cells where p: "plan (down_wire s) now d = Some (w, cells)"
    by (auto simp: down_deliver_def split: option.splits)
  have wf: "wire_wf (down_wire s)" using same_line_keeps(2) [OF assms(2)] assms(3) by simp
  have "noise d (datas cells)" "drop_p w0 \<le> 0 \<and> corrupt_p w0 \<le> 0 \<longrightarrow> datas cells = d"
    using plan_faults [OF p wf] assms(2) by (auto simp: datas_def same_line_def)
  with assms(1) p False show ?thesis
    by (auto simp: down_deliver_def delivered_def intro: noise_append)
qed

lemma same_line_deliver:
  assumes "same_line w0 (down_wire s)" "wire_wf w0"
  shows "same_line w0 (down_wire (down_deliver d now s))"
proof (cases "d = [] \<or> plan (down_wire s) now d = None")
  case False
  then obtain w cells where p: "d \<noteq> []" "plan (down_wire s) now d = Some (w, cells)" by auto
  have wf: "wire_wf (down_wire s)" using same_line_keeps(2) [OF assms(1)] assms(2) by simp
  have "same_line (down_wire s) w" by (rule plan_spec [OF p(2) wf])
  with p same_line_trans [OF assms(1)] show ?thesis by (simp add: down_deliver_def)
qed (auto simp: down_deliver_def assms split: option.split)

lemma up_step_down:
  "up_step lc now e s = Some (s', out) \<Longrightarrow>
     down s' = down s \<and> peer_telnet s' = peer_telnet s \<and> down_wire s' = down_wire s \<and> port_bytes out = []"
  by (erule up_stepE) (auto simp: sync_settings_def sync_write_def Let_def split: option.split list.split)

lemma down_step_inv:
  assumes inv: "down_inv w0 s es outs" and step: "down_step now e s = Some (s', out)"
  shows "down_inv w0 s' (es @ [(now, DownEv e)]) (outs @ out)"
  using step
proof (cases rule: down_stepE)
  case ended
  with inv show ?thesis
    using delivered_noise [of w0 _ "down_queue (down s)" "down_raw (down s)" _ "[]"] by (simp add: down_inv_def)
next
  case (got d)
  obtain t o' where s: "decode (peer_telnet s) d = (t, o')" by fastforce
  let ?D = "data (snd (decode telnet_new (heard es)))"
  have h: "decode telnet_new (heard es @ d) = (t, merge (snd (decode telnet_new (heard es))) o')"
    using inv s by (auto simp: decode_append down_inv_def split: prod.split)
  have del: "delivered w0 (?D @ data o') [] (data o') (port_bytes outs)"
    using inv got(1) delivered_more by (simp add: down_inv_def)
  let ?s = "s\<lparr>peer_telnet := t, com_ok := com_ok s \<and> com_port_ok t\<rparr>"
  show ?thesis
  proof (cases "reply o' = []")
    case True
    then have s': "s' = down_deliver (data o') now ?s" using got s by (simp add: down_decode_def)
    have l: "same_line w0 (down_wire ?s)" "wire_wf w0" using inv by (simp_all add: down_inv_def)
    show ?thesis
      using delivered_deliver [OF del l] same_line_deliver [OF l] delivered_noise [OF del, of "[]"] h l(2) got(2,5)
      unfolding s' by (simp add: down_inv_def)
  next
    case False
    then show ?thesis using del h got s inv by (auto simp: down_inv_def down_decode_def)
  qed
next
  case (reply_done r d n)
  have l: "same_line w0 (down_wire s)" "wire_wf w0" using inv by (simp_all add: down_inv_def)
  have del: "delivered w0 (data (snd (decode telnet_new (heard es)))) [] d (port_bytes outs)"
    using inv reply_done(1) by (simp add: down_inv_def)
  show ?thesis
    using delivered_deliver [OF del l] same_line_deliver [OF l] delivered_noise [OF del, of "[]"] reply_done inv
    by (simp add: down_inv_def)
qed (use inv in \<open>auto simp: down_inv_def delivered_def take_drop_append\<close>)


section \<open>Runs of a session\<close>

lemma rfc_stepE:
  assumes "rfc_step lc s (now, e) = Some (s', out)"
  obtains
    (offer_part) m n where "\<not> over s" "phase s = Offering m" "e = OfferTook n" "n < length m"
      "s' = s\<lparr>phase := Offering (drop n m)\<rparr>" "out = [ToPeer (take n m)]"
  | (offer_done) m n where "\<not> over s" "phase s = Offering m" "e = OfferTook n" "s' = s\<lparr>phase := Running\<rparr>" "out = [ToPeer m]"
  | (offer_failed) m where "\<not> over s" "phase s = Offering m" "e = OfferFailed" "s' = s\<lparr>phase := Closed\<rparr>" "out = []"
  | (up) u where "\<not> over s" "phase s = Running" "e = UpEv u" "up_step lc now u s = Some (s', out)"
  | (down) d where "\<not> over s" "phase s = Running" "e = DownEv d" "down_step now d s = Some (s', out)"
  using assms unfolding rfc_step_def
  by (cases "phase s"; cases e) (auto split: if_splits)

definition rfc_inv ::
    "libc \<Rightarrow> port_settings \<Rightarrow> wire \<Rightarrow> wire \<Rightarrow> rfc_session \<Rightarrow> (instant \<times> rfc_event) list \<Rightarrow> sent list \<Rightarrow> bool" where
  "rfc_inv lc p w0 w1 s es outs \<longleftrightarrow> up_inv lc p w0 s es outs \<and> down_inv w1 s es outs \<and> replies_ok s"

lemma quiet_heard [simp]:
  "heard_by (now, UpEv u) = []" "heard_by (now, OfferTook n) = []" "heard_by (now, OfferFailed) = []"
  by simp_all

lemma offer_inv:
  assumes "up_inv lc p w0 s es outs" "\<not> over s" "phase s = Offering m"
  shows "m = a @ b \<Longrightarrow> b \<noteq> [] \<Longrightarrow> up_inv lc p w0 (s\<lparr>phase := Offering b\<rparr>) (es @ [(now, OfferTook n)]) (outs @ [ToPeer a])"
    and "up_inv lc p w0 (s\<lparr>phase := Running\<rparr>) (es @ [(now, OfferTook n)]) (outs @ [ToPeer m])"
    and "up_inv lc p w0 (s\<lparr>phase := Closed\<rparr>) (es @ [(now, OfferFailed)]) outs"
proof -
  from assms obtain fs ps where i: "up_commands (up s) = map encode_frame ps"
    "stream p w0 (up_wire s) (last_settings s) (typed es) (peer_bytes outs) fs ps (up_queue (up s)) (up_raw (up s)) (in_flight s)"
    "exclusive s" "com_ok s \<Longrightarrow> last_settings s = sampled lc p es"
    unfolding up_inv_def streaming_def by auto
  have pcs: "up s = UpSelect" "down s = DownRead" using i(3) assms(3) by (simp_all add: exclusive_def)
  then have f: "in_flight s = m" using assms(3) by (simp add: in_flight_def)
  show "up_inv lc p w0 (s\<lparr>phase := Offering b\<rparr>) (es @ [(now, OfferTook n)]) (outs @ [ToPeer a])"
    if "m = a @ b" "b \<noteq> []"
    using i(1,2,4) f pcs that stream_took [of p w0 _ _ _ _ fs ps _ _ a b]
    by (intro up_invI streamingI [where ps = ps and fs = fs]) (auto simp: in_flight_def exclusive_def over_def)
  show "up_inv lc p w0 (s\<lparr>phase := Running\<rparr>) (es @ [(now, OfferTook n)]) (outs @ [ToPeer m])"
    using i(1,2,4) f pcs stream_took_all [of p w0 _ _ _ _ fs ps _ _ m]
    by (intro up_invI streamingI [where ps = ps and fs = fs]) (auto simp: in_flight_def exclusive_def over_def)
  show "up_inv lc p w0 (s\<lparr>phase := Closed\<rparr>) (es @ [(now, OfferFailed)]) outs"
    using stream_cut [OF i(2), of "[]"] by (intro up_invI) (auto simp: over_def)
qed

lemma rfc_step_inv:
  assumes "rfc_inv lc p w0 w1 s es outs" "rfc_step lc s e = Some (s', out)"
  shows "rfc_inv lc p w0 w1 s' (es @ [e]) (outs @ out)"
proof -
  obtain now ev where e: "e = (now, ev)" by fastforce
  have i: "up_inv lc p w0 s es outs" "down_inv w1 s es outs" "replies_ok s"
    using assms(1) by (simp_all add: rfc_inv_def)
  note offers = offer_inv [OF i(1)]
  from assms(2) [unfolded e] show ?thesis
  proof (cases rule: rfc_stepE)
    case (offer_part m n)
    then have "m = take n m @ drop n m" "drop n m \<noteq> []" by simp_all
    from offers(1) [OF offer_part(1,2) this] offer_part i(2,3) show ?thesis
      by (simp add: rfc_inv_def down_inv_def replies_ok_def e)
  next
    case (offer_done m n)
    with offers(2) i(2,3) show ?thesis by (simp add: rfc_inv_def down_inv_def replies_ok_def e)
  next
    case (offer_failed m)
    with offers(3) i(2,3) show ?thesis by (simp add: rfc_inv_def down_inv_def replies_ok_def e)
  next
    case (up u)
    from up_step_inv [OF i(1) up(1,2,4)] up_step_down [OF up(4)] i(2,3) up(3) show ?thesis
      by (simp add: rfc_inv_def down_inv_def replies_ok_def e)
  next
    case (down d)
    from down_step_up_inv [OF i(1) down(1,2,4) i(3)] down_step_inv [OF i(2) down(4)]
      replies_ok_step [OF down(4) i(3)] down(3) show ?thesis
      by (simp add: rfc_inv_def e)
  qed
qed

interpretation rfc: traced "rfc_step lc" "\<lambda>_. True" "rfc_inv lc p w0 w1" for lc p w0 w1
  by unfold_locales (rule rfc_step_inv)

lemma rfc_inv_open:
  assumes "wire_wf w0" "wire_wf w1"
  shows "rfc_inv lc p w0 w1 (rfc_open p w0 w1) [] []"
proof -
  let ?fs = "[Negotiation WILL OPT_BINARY, Negotiation DO OPT_BINARY, Negotiation WILL OPT_SGA,
      Negotiation DO OPT_SGA, Negotiation WILL OPT_COM_PORT]"
  have "streaming p w0 (rfc_open p w0 w1) [] []"
    using assms start_frames [of telnet_new]
    by (intro streamingI [where ps = "[]" and fs = ?fs])
      (auto simp: rfc_open_def stream_def in_flight_def noise_intros)
  with assms show ?thesis
    by (auto simp: rfc_inv_def up_inv_def down_inv_def replies_ok_def rfc_open_def over_def exclusive_def
        delivered_def noise_intros)
qed

lemma rfc_run_inv:
  assumes "rfc_run lc p w0 w1 es = Some (s, outs)" "wire_wf w0" "wire_wf w1"
  shows "up_inv lc p w0 s es outs" "down_inv w1 s es outs"
  using rfc.inv_run [OF rfc_inv_open [OF assms(2,3)] _ assms(1) [unfolded rfc_run_def]]
  by (simp_all add: rfc_inv_def list_all_iff)

section \<open>Properties\<close>

text \<open>The line settings of a server that has read \<open>bs\<close>.\<close>

definition server_hears :: "port_settings \<Rightarrow> bytes \<Rightarrow> port_settings" where
  "server_hears srv bs = fold server_set (bodies telnet_new bs) srv"

lemma telnet_new_ready: "tstate telnet_new = Data" "sub telnet_new = []"
  by (simp_all add: telnet_new_def)

text \<open>
  (C2) Two tasks, one writer, and yet the peer reads whole frames only: in every interleaving, even
  one cut off by a failure, what was sent is a prefix of complete telnet frames whose payload is
  what was typed, up to the wire's noise; while the session lasts and the wire is clean, not a
  byte is lost, doubled or reordered between the typed, the decoded and the queued bytes.
\<close>

theorem peer_reads_whole_frames:
  assumes "rfc_run lc p w0 w1 es = Some (s, outs)" and "wire_wf w0" and "wire_wf w1"
  shows "\<exists>fs rest. list_all frame_ok fs \<and> peer_bytes outs @ rest = concat (map encode_frame fs) \<and>
    noise (typed es) (concat (map payload fs)) \<and>
    (\<not> over s \<longrightarrow> rest = in_flight s \<and>
       (drop_p w0 \<le> 0 \<and> corrupt_p w0 \<le> 0 \<longrightarrow>
          typed es = data (snd (decode telnet_new (peer_bytes outs @ rest))) @ up_queue (up s) @ up_raw (up s)))"
proof (cases "over s")
  case True
  with rfc_run_inv(1) [OF assms] show ?thesis unfolding up_inv_def cut_stream_def by auto
next
  case False
  with rfc_run_inv(1) [OF assms] obtain fs ps T0 where f: "list_all frame_ok fs"
    "peer_bytes outs @ in_flight s = concat (map encode_frame fs)" "typed es = T0 @ up_raw (up s)"
    "noise T0 (concat (map payload fs) @ up_queue (up s))"
    "drop_p w0 \<le> 0 \<and> corrupt_p w0 \<le> 0 \<longrightarrow> T0 = concat (map payload fs) @ up_queue (up s)"
    unfolding up_inv_def streaming_def stream_def by auto
  have "noise (typed es) (concat (map payload fs) @ [])"
    unfolding f(3) by (rule noise_append [OF noise_prefix [OF f(4) refl] noise_to_Nil])
  moreover have "data (snd (decode telnet_new (peer_bytes outs @ in_flight s))) = concat (map payload fs)"
    unfolding f(2) decode_frames [OF telnet_new_ready f(1)] by (rule data_interp_frames)
  ultimately show ?thesis using f by (intro exI [of _ fs] exI [of _ "in_flight s"]) auto
qed

text \<open>
  (C12) A settings change reaches the peer before the bytes typed after it: whenever no command is
  left to send, as in every state that writes a data cell, a server that has read the stream so
  far holds the settings the port showed when the data in hand was read.
\<close>

theorem settings_precede_data:
  assumes "rfc_run lc p w0 w1 es = Some (s, outs)" and "wire_wf w0" and "wire_wf w1"
    and "\<not> over s" and "com_ok s" and "up_commands (up s) = []"
  shows "in_tune (sampled lc p es) (server_hears p (peer_bytes outs @ in_flight s))"
proof -
  from rfc_run_inv(1) [OF assms(1-3)] assms(4-6) have i: "streaming p w0 s (typed es) (peer_bytes outs)"
    "last_settings s = sampled lc p es"
    by (simp_all add: up_inv_def)
  from i(1) assms(6) obtain fs where "stream p w0 (up_wire s) (last_settings s) (typed es) (peer_bytes outs) fs []
      (up_queue (up s)) (up_raw (up s)) (in_flight s)"
    unfolding streaming_def by auto
  with i(2) have f: "list_all frame_ok fs" "peer_bytes outs @ in_flight s = concat (map encode_frame fs)"
    "in_tune (sampled lc p es) (fold server_set (concat (map frame_bodies fs)) p)"
    by (simp_all add: stream_def)
  have "server_hears p (peer_bytes outs @ in_flight s) = fold server_set (concat (map frame_bodies fs)) p"
    unfolding server_hears_def f(2) bodies_frames [OF telnet_new_ready f(1)] ..
  with f show ?thesis by simp
qed

text \<open>
  (C21) What reaches the port is the payload of what the peer sent, however its bytes were split
  into reads and whatever was negotiated in between.
\<close>

theorem port_gets_payload:
  assumes "rfc_run lc p w0 w1 es = Some (s, outs)" and "wire_wf w0" and "wire_wf w1"
  shows "noise (data (snd (decode telnet_new (heard es)))) (port_bytes outs) \<and>
    (\<not> over s \<and> drop_p w1 \<le> 0 \<and> corrupt_p w1 \<le> 0 \<longrightarrow>
       data (snd (decode telnet_new (heard es))) = port_bytes outs @ down_queue (down s) @ down_raw (down s))"
proof (cases "down s = DownEnded")
  case True
  with rfc_run_inv(2) [OF assms] show ?thesis by (simp add: down_inv_def over_def)
next
  case False
  with rfc_run_inv(2) [OF assms] have d: "delivered w1 (data (snd (decode telnet_new (heard es))))
      (down_queue (down s)) (down_raw (down s)) (port_bytes outs)"
    by (simp add: down_inv_def)
  from delivered_noise [OF d, of "[]"] d show ?thesis unfolding delivered_def by auto
qed

text \<open>A session in which a change of speed and one byte, 0xFF, are relayed and one byte comes back.\<close>

definition demo_goal :: port_settings where
  "demo_goal = from_termios linux_libc cooked_tio"

definition demo_start :: port_settings where
  "demo_start = demo_goal\<lparr>ps_baud := ps_baud demo_goal + 1\<rparr>"

definition demo_command :: bytes where
  "demo_command = subneg SET_BAUDRATE (u32_to_be (ps_baud demo_goal))"

definition demo_events :: "(instant \<times> rfc_event) list" where
  "demo_events = [(6, OfferTook 15), (7, UpEv (UpGot (IoOk [255]) (Some cooked_tio))),
     (7, DownEv (DownGot (IoOk [65]))), (7, UpEv UpLocked),
     (7, UpEv (UpTook (length demo_command))), (8, UpEv UpTimer), (8, DownEv DownTimer), (8, DownEv (PortTook 1)),
     (8, UpEv UpLocked)]"

lemma demo_commands: "commands_to demo_start demo_goal = [demo_command]" "demo_goal \<noteq> demo_start"
proof -
  have "ps_baud demo_goal + 1 \<noteq> ps_baud demo_goal" by simp
  then show "commands_to demo_start demo_goal = [demo_command]" "demo_goal \<noteq> demo_start"
    by (auto simp: commands_to_def demo_start_def demo_command_def dest: arg_cong [where f = ps_baud])
qed

lemma demo_wire:
  obtains w where "wire_new default_spec 0 5 = Some w" "wire_wf w" "drop_p w = 0" "corrupt_p w = 0"
    "plan w 7 [255] = Some (w\<lparr>cursor := 7\<rparr>, [\<lparr>cell_data = [255], due = 7\<rparr>])"
    "plan w 7 [65] = Some (w\<lparr>cursor := 7\<rparr>, [\<lparr>cell_data = [65], due = 7\<rparr>])"
proof -
  obtain w where w: "wire_new default_spec 0 5 = Some w"
    by (simp add: wire_new_def wire_byte_time_def default_spec_def)
  then have "drop_p w = 0" "corrupt_p w = 0"
    by (auto simp: default_spec_def elim!: wire_newE)
  with that [OF w wire_wf_new [OF w]] plan_identity [OF w, of 7 "[255]"] plan_identity [OF w, of 7 "[65]"]
  show ?thesis by simp
qed

lemma demo_run:
  assumes "plan w 7 [255] = Some (w\<lparr>cursor := 7\<rparr>, [\<lparr>cell_data = [255], due = 7\<rparr>])"
    "plan w 7 [65] = Some (w\<lparr>cursor := 7\<rparr>, [\<lparr>cell_data = [65], due = 7\<rparr>])"
  shows "\<exists>s. rfc_run linux_libc demo_start w w demo_events =
      Some (s, [ToPeer (start telnet_new), ToPeer demo_command, ToPort [65]]) \<and>
    \<not> over s \<and> com_ok s \<and> up s = UpCellWrite [255, 255] []"
proof -
  have "length (start telnet_new) = 15" by (simp add: start_def)
  moreover have "decode telnet_new [65] = (telnet_new, no_output\<lparr>data := [65]\<rparr>)"
    by (simp add: decode_Cons decode_byte_def telnet_new_def)
  moreover have "com_port_ok telnet_new" by (simp add: com_port_ok_def telnet_new_def)
  ultimately show ?thesis
    using demo_commands assms
    by (simp add: rfc_run_def demo_events_def rfc_step_def rfc_open_def over_def up_step_def down_step_def
        sync_settings_def demo_goal_def [symmetric] writer_free_def sync_write_def up_continue_def up_cells_def
        down_decode_def down_deliver_def down_cells_def)
qed


lemma demo_session:
  obtains w s where "wire_wf w" "drop_p w = 0" "corrupt_p w = 0"
    "rfc_run linux_libc demo_start w w demo_events =
      Some (s, [ToPeer (start telnet_new), ToPeer demo_command, ToPort [65]])"
    "\<not> over s" "com_ok s" "up s = UpCellWrite [255, 255] []"
proof -
  from demo_wire obtain w where w: "wire_wf w" "drop_p w = 0" "corrupt_p w = 0"
    "plan w 7 [255] = Some (w\<lparr>cursor := 7\<rparr>, [\<lparr>cell_data = [255], due = 7\<rparr>])"
    "plan w 7 [65] = Some (w\<lparr>cursor := 7\<rparr>, [\<lparr>cell_data = [65], due = 7\<rparr>])" .
  from demo_run [OF w(4,5)] that [OF w(1-3)] show ?thesis by blast
qed

theorem peer_reads_whole_frames_witness:
  "\<exists>w s fs rest. rfc_run linux_libc demo_start w w demo_events =
      Some (s, [ToPeer (start telnet_new), ToPeer demo_command, ToPort [65]]) \<and>
    start telnet_new @ demo_command @ rest = concat (map encode_frame fs) \<and> noise [255] (concat (map payload fs))"
proof -
  from demo_session obtain w s where d: "wire_wf w"
    "rfc_run linux_libc demo_start w w demo_events = Some (s, [ToPeer (start telnet_new), ToPeer demo_command, ToPort [65]])" .
  from peer_reads_whole_frames [OF d(2) d(1) d(1)] d(2) show ?thesis
    by (auto simp: typed_def demo_events_def)
qed

theorem settings_precede_data_witness:
  "\<exists>w s. rfc_run linux_libc demo_start w w demo_events =
      Some (s, [ToPeer (start telnet_new), ToPeer demo_command, ToPort [65]]) \<and> up s = UpCellWrite [255, 255] [] \<and>
    in_tune (from_termios linux_libc cooked_tio)
      (server_hears demo_start (start telnet_new @ demo_command @ in_flight s))"
proof -
  from demo_session obtain w s where d: "wire_wf w"
    "rfc_run linux_libc demo_start w w demo_events = Some (s, [ToPeer (start telnet_new), ToPeer demo_command, ToPort [65]])"
    "\<not> over s" "com_ok s" "up s = UpCellWrite [255, 255] []" .
  have "up_commands (up s) = []" by (simp add: d(5))
  from settings_precede_data [OF d(2,1,1,3,4) this] d(2,5) show ?thesis
    by (auto simp: sampled_def demo_events_def)
qed

theorem port_gets_payload_witness:
  "\<exists>w s. rfc_run linux_libc demo_start w w demo_events =
      Some (s, [ToPeer (start telnet_new), ToPeer demo_command, ToPort [65]]) \<and>
    noise (data (snd (decode telnet_new [65]))) [65]"
proof -
  from demo_session obtain w s where d: "wire_wf w"
    "rfc_run linux_libc demo_start w w demo_events = Some (s, [ToPeer (start telnet_new), ToPeer demo_command, ToPort [65]])" .
  from port_gets_payload [OF d(2) d(1) d(1)] d(2) show ?thesis
    by (auto simp: heard_def demo_events_def)
qed

end
