(* ===== verification/Bridge.thy ===== *)
theory Bridge
  imports Rfc_Session
begin

text \<open>
  The bridge of \<open>src/forge/bridge.rs\<close>: the raw session of two forwarding loops, the drain that
  empties the port while no peer is attached, and \<open>bridge_loop\<close>, which goes from peer to peer for
  as long as the process lives.
\<close>

section \<open>A raw session\<close>

definition session_up :: rules where
  "session_up = \<lparr>buffer = 8192, on_empty = Pause IDLE, on_read_error = Pause RETRY,
     on_write_error = Quit, flushing = FlushChunks\<rparr>"

definition session_down :: rules where
  "session_down = \<lparr>buffer = 8192, on_empty = Quit, on_read_error = Quit,
     on_write_error = Quit, flushing = NoFlush\<rparr>"

record raw_session =
  raw_up :: task
  raw_down :: task

definition task_ended :: "task \<Rightarrow> bool" where
  "task_ended t \<longleftrightarrow> t_pc t = Stopped \<or> t_pc t = Crashed"

definition raw_over :: "raw_session \<Rightarrow> bool" where
  "raw_over s \<longleftrightarrow> task_ended (raw_up s) \<or> task_ended (raw_down s)"

definition raw_open :: "wire \<Rightarrow> wire \<Rightarrow> raw_session" where
  "raw_open to_peer from_peer =
     \<lparr>raw_up = \<lparr>t_wire = to_peer, t_pc = Reading\<rparr>, raw_down = \<lparr>t_wire = from_peer, t_pc = Reading\<rparr>\<rparr>"

section \<open>The loop\<close>

definition pristine_settings :: "libc \<Rightarrow> termios option \<Rightarrow> port_settings" where
  "pristine_settings lc tio = (case tio of None \<Rightarrow> UNSET | Some t \<Rightarrow> from_termios lc t)"

text \<open>
  \<open>Draining until n\<close>: no peer; the drain sleeps until the given time or reads, and has discarded
  \<open>n\<close> bytes.  \<open>Dead\<close>: the loop's task panicked, which \<open>run\<close> reports as \<open>bridge task failed\<close>.
\<close>

datatype mode = Draining "instant option" u64 | InRaw raw_session | InRfc rfc_session | Dead

record bridge =
  sessions :: u64
  mode :: mode

record bridge_config =
  bc_spec :: wire_spec
  bc_rfc2217 :: bool
  bc_libc :: libc
  bc_pristine :: port_settings

datatype bridge_event = Drained "bytes io_result" | DrainTimer | Connected
  | RawUp task_event | RawDown task_event | RfcEv rfc_event

definition bridge_start :: bridge where
  "bridge_start = \<lparr>sessions = 0, mode = Draining None 0\<rparr>"

definition drain_step :: "instant option \<Rightarrow> u64 \<Rightarrow> instant \<Rightarrow> bridge_event \<Rightarrow> mode option" where
  "drain_step until discarded now e =
     (case (until, e) of
        (None, Drained r) \<Rightarrow>
          (case r of
             IoErr _ \<Rightarrow> Some (Draining (Some (now + RETRY)) discarded)
           | IoOk d \<Rightarrow>
               if length d > 4096 then None
               else if d = [] then Some (Draining (Some (now + IDLE)) discarded)
               else Some (Draining None (discarded + of_nat (length d))))
      | (Some t, DrainTimer) \<Rightarrow> if t \<le> now then Some (Draining None discarded) else None
      | _ \<Rightarrow> None)"

definition connect :: "bridge_config \<Rightarrow> instant \<Rightarrow> bridge \<Rightarrow> bridge" where
  "connect cfg now b =
     (let n = sessions b + 1 in
      case build_pair_nth (bc_spec cfg) n now of
        None \<Rightarrow> \<lparr>sessions = n, mode = Dead\<rparr>
      | Some (to_peer, from_peer) \<Rightarrow>
          \<lparr>sessions = n,
           mode = (if bc_rfc2217 cfg then InRfc (rfc_open (bc_pristine cfg) to_peer from_peer)
                   else InRaw (raw_open to_peer from_peer))\<rparr>)"

definition after_raw :: "raw_session \<Rightarrow> mode" where
  "after_raw s = (if raw_over s then Draining None 0 else InRaw s)"

definition after_rfc :: "rfc_session \<Rightarrow> mode" where
  "after_rfc s = (if over s then Draining None 0 else InRfc s)"

definition bridge_step ::
    "bridge_config \<Rightarrow> bridge \<Rightarrow> instant \<times> bridge_event \<Rightarrow> (bridge \<times> sent list) option" where
  "bridge_step cfg b ev =
     (case ev of (now, e) \<Rightarrow>
      case mode b of
        Dead \<Rightarrow> None
      | Draining until n \<Rightarrow>
          if e = Connected then Some (connect cfg now b, [])
          else map_option (\<lambda>m. (b\<lparr>mode := m\<rparr>, [])) (drain_step until n now e)
      | InRaw s \<Rightarrow>
          (case e of
             RawUp te \<Rightarrow>
               map_option (\<lambda>(t, out). (b\<lparr>mode := after_raw (s\<lparr>raw_up := t\<rparr>)\<rparr>, [ToPeer out]))
                 (task_step session_up (raw_up s) (now, te))
           | RawDown te \<Rightarrow>
               map_option (\<lambda>(t, out). (b\<lparr>mode := after_raw (s\<lparr>raw_down := t\<rparr>)\<rparr>, [ToPort out]))
                 (task_step session_down (raw_down s) (now, te))
           | _ \<Rightarrow> None)
      | InRfc s \<Rightarrow>
          (case e of
             RfcEv re \<Rightarrow>
               map_option (\<lambda>(s, outs). (b\<lparr>mode := after_rfc s\<rparr>, outs)) (rfc_step (bc_libc cfg) s (now, re))
           | _ \<Rightarrow> None))"

definition bridge_run ::
    "bridge_config \<Rightarrow> (instant \<times> bridge_event) list \<Rightarrow> (bridge \<times> sent list) option" where
  "bridge_run cfg = run_events (bridge_step cfg) bridge_start"

text \<open>What the sessions read from the port and from their peers; the drain's reads do not count.\<close>

fun port_read :: "instant \<times> bridge_event \<Rightarrow> bytes" where
  "port_read (now, RawUp (Got (IoOk d))) = d"
| "port_read (now, RfcEv (UpEv (UpGot (IoOk d) tio))) = d"
| "port_read _ = []"

fun peer_read :: "instant \<times> bridge_event \<Rightarrow> bytes" where
  "peer_read (now, RawDown (Got (IoOk d))) = d"
| "peer_read _ = []"

section \<open>Laws\<close>

lemma build_pair_total: "spec_baud spec \<noteq> Some 0 \<Longrightarrow> build_pair_nth spec n now \<noteq> None"
proof -
  assume b: "spec_baud spec \<noteq> Some 0"
  have "wire_byte_time spec \<noteq> None"
  proof (cases "spec_baud spec")
    case (Some r)
    with b have "r \<noteq> 0" by simp
    from byte_time_total [OF this] Some show ?thesis by (auto simp: wire_byte_time_def)
  qed (simp add: wire_byte_time_def)
  then show ?thesis by (auto simp: build_pair_nth_def wire_new_def Let_def split: bind_splits)
qed

lemma build_pair_None: "build_pair_nth spec n now = None \<Longrightarrow> spec_baud spec = Some 0"
  using build_pair_total by blast

lemma build_pair_wf:
  assumes "build_pair_nth spec n now = Some (u, d)"
  shows "wire_wf u" "wire_wf d"
  using assms by (auto simp: build_pair_nth_def Let_def intro: wire_wf_new split: bind_splits)

definition alive :: "bridge_config \<Rightarrow> bridge \<Rightarrow> bool" where
  "alive cfg b \<longleftrightarrow>
     (case mode b of
        Dead \<Rightarrow> spec_baud (bc_spec cfg) = Some 0
      | Draining until n \<Rightarrow> True
      | InRaw s \<Rightarrow> \<not> raw_over s
      | InRfc s \<Rightarrow> \<not> over s)"

lemma sessions_open: "\<not> raw_over (raw_open u d)" "\<not> over (rfc_open p u d)"
  by (simp_all add: raw_over_def task_ended_def raw_open_def over_def rfc_open_def)

lemma alive_mode:
  "alive cfg (b\<lparr>mode := after_raw r\<rparr>)" "alive cfg (b\<lparr>mode := after_rfc s\<rparr>)"
  "drain_step until n now e = Some m \<Longrightarrow> alive cfg (b\<lparr>mode := m\<rparr>)" "alive cfg (connect cfg now b)"
  by (auto simp: alive_def after_raw_def after_rfc_def drain_step_def connect_def sessions_open Let_def
      dest: build_pair_None split: option.splits bridge_event.splits io_result.splits if_splits)

lemma alive_step: "bridge_step cfg b e = Some (b', out) \<Longrightarrow> alive cfg b'"
  by (auto simp: bridge_step_def alive_mode split: prod.splits mode.splits if_splits bridge_event.splits)

interpretation living: traced "bridge_step cfg" "\<lambda>_. True" "\<lambda>b _ _. alive cfg b" for cfg
  by unfold_locales (rule alive_step)

text \<open>
  One direction of the raw sessions so far: \<open>T\<close> was read and \<open>P\<close> written, all but the running
  session's part complete.
\<close>

definition relayed :: "instant \<Rightarrow> task option \<Rightarrow> bytes \<Rightarrow> bytes \<Rightarrow> bool" where
  "relayed tmax running T P \<longleftrightarrow>
     (\<exists>T0 T1 P0 P1. T = T0 @ T1 \<and> P = P0 @ P1 \<and> noise T0 P0 \<and>
        (case running of None \<Rightarrow> T1 = [] \<and> P1 = []
         | Some t \<Rightarrow> \<exists>w es. wire_wf w \<and> forwarded w tmax t es P1 \<and> bytes_read es = T1))"

lemma relayed_noise: "relayed tmax running T P \<Longrightarrow> noise T P"
  unfolding relayed_def by (auto intro: noise_append dest: forwarded_noise split: option.splits)

lemma relayed_closed: "noise T P \<Longrightarrow> relayed tmax None T P"
  unfolding relayed_def by (intro exI [of _ T] exI [of _ "[]"] exI [of _ P]) simp

lemma relayed_opened:
  assumes "noise T P" "wire_wf w"
  shows "relayed tmax (Some \<lparr>t_wire = w, t_pc = Reading\<rparr>) T P"
  using assms forwarded_start unfolding relayed_def
  by (intro exI [of _ T] exI [of _ "[]"] exI [of _ P]) (auto intro!: exI [of _ "[]"] simp: bytes_read_def)

lemma bytes_read_snoc:
  "bytes_read (es @ [(now, e)]) = bytes_read es @ (case e of Got (IoOk d) \<Rightarrow> d | _ \<Rightarrow> [])"
  by (auto simp: bytes_read_def split: task_event.split io_result.split)

lemma relayed_step:
  assumes "relayed tmax (Some t) T P" "task_step rl t (now, e) = Some (t', out)" "now \<le> tmax"
  shows "relayed tmax (Some t') (T @ (case e of Got (IoOk d) \<Rightarrow> d | _ \<Rightarrow> [])) (P @ out)"
proof -
  from assms(1) obtain T0 T1 P0 P1 w es where r: "T = T0 @ T1" "P = P0 @ P1" "noise T0 P0" "wire_wf w"
    "forwarded w tmax t es P1" "bytes_read es = T1"
    unfolding relayed_def by auto
  from forwarded_step [OF r(5,4) assms(3,2)]
  have "forwarded w tmax t' (es @ [(now, e)]) (P1 @ out)" .
  with r bytes_read_snoc [of es now e] show ?thesis
    unfolding relayed_def
    by (intro exI [of _ T0] exI [of _ "T1 @ (case e of Got (IoOk d) \<Rightarrow> d | _ \<Rightarrow> [])"] exI [of _ P0] exI [of _ "P1 @ out"])
      (auto intro!: exI [of _ w] exI [of _ "es @ [(now, e)]"])
qed


definition raw_inv :: "instant \<Rightarrow> bridge \<Rightarrow> (instant \<times> bridge_event) list \<Rightarrow> sent list \<Rightarrow> bool" where
  "raw_inv tmax b es outs \<longleftrightarrow>
     (case mode b of
        InRaw s \<Rightarrow> relayed tmax (Some (raw_up s)) (concat (map port_read es)) (peer_bytes outs) \<and>
          relayed tmax (Some (raw_down s)) (concat (map peer_read es)) (port_bytes outs)
      | InRfc s \<Rightarrow> False
      | _ \<Rightarrow> noise (concat (map port_read es)) (peer_bytes outs) \<and>
          noise (concat (map peer_read es)) (port_bytes outs))"

lemma port_read_raw:
  "port_read (now, RawUp e) = (case e of Got (IoOk d) \<Rightarrow> d | _ \<Rightarrow> [])"
  "port_read (now, RawDown e) = []" "peer_read (now, RawUp e) = []"
  "peer_read (now, RawDown e) = (case e of Got (IoOk d) \<Rightarrow> d | _ \<Rightarrow> [])"
  by (auto split: task_event.split io_result.split)

lemma raw_inv_after:
  assumes "relayed tmax (Some (raw_up s)) (concat (map port_read es)) (peer_bytes outs)"
    and "relayed tmax (Some (raw_down s)) (concat (map peer_read es)) (port_bytes outs)"
  shows "raw_inv tmax (b\<lparr>mode := after_raw s\<rparr>) es outs"
  using assms relayed_noise by (auto simp: raw_inv_def after_raw_def)

lemma raw_inv_step:
  assumes inv: "raw_inv tmax b es outs" and step: "bridge_step cfg b (now, e) = Some (b', out)"
    and raw: "\<not> bc_rfc2217 cfg" and time: "now \<le> tmax"
  shows "raw_inv tmax b' (es @ [(now, e)]) (outs @ out)"
proof (cases "mode b")
  case (Draining until n)
  with inv have n: "noise (concat (map port_read es)) (peer_bytes outs)"
    "noise (concat (map peer_read es)) (port_bytes outs)" by (simp_all add: raw_inv_def)
  show ?thesis
  proof (cases "e = Connected")
    case True
    with step Draining have b': "b' = connect cfg now b" "out = []" by (simp_all add: bridge_step_def)
    show ?thesis
    proof (cases "build_pair_nth (bc_spec cfg) (sessions b + 1) now")
      case None
      with b' n True show ?thesis by (simp add: connect_def raw_inv_def)
    next
      case (Some ud)
      then obtain u d where p: "build_pair_nth (bc_spec cfg) (sessions b + 1) now = Some (u, d)" by (cases ud) auto
      with b' n raw True relayed_opened [OF n(1) build_pair_wf(1) [OF p]] relayed_opened [OF n(2) build_pair_wf(2) [OF p]]
      show ?thesis by (simp add: connect_def raw_inv_def raw_open_def)
    qed
  next
    case False
    with step Draining obtain m where d: "drain_step until n now e = Some m" "b' = b\<lparr>mode := m\<rparr>" "out = []"
      by (auto simp: bridge_step_def)
    then have "\<exists>until' n'. m = Draining until' n'" "port_read (now, e) = []" "peer_read (now, e) = []"
      by (auto simp: drain_step_def split: option.splits bridge_event.splits io_result.splits if_splits)
    with d n show ?thesis by (auto simp: raw_inv_def)
  qed
next
  case (InRaw s)
  with inv have r: "relayed tmax (Some (raw_up s)) (concat (map port_read es)) (peer_bytes outs)"
    "relayed tmax (Some (raw_down s)) (concat (map peer_read es)) (port_bytes outs)"
    by (simp_all add: raw_inv_def)
  from step InRaw consider
      (up) te t o' where "e = RawUp te" "task_step session_up (raw_up s) (now, te) = Some (t, o')"
        "b' = b\<lparr>mode := after_raw (s\<lparr>raw_up := t\<rparr>)\<rparr>" "out = [ToPeer o']"
    | (down) te t o' where "e = RawDown te" "task_step session_down (raw_down s) (now, te) = Some (t, o')"
        "b' = b\<lparr>mode := after_raw (s\<lparr>raw_down := t\<rparr>)\<rparr>" "out = [ToPort o']"
    by (cases e) (auto simp: bridge_step_def)
  then show ?thesis
  proof cases
    case up
    with relayed_step [OF r(1) up(2) time] r(2) show ?thesis
      by (auto simp: port_read_raw intro!: raw_inv_after)
  next
    case down
    with relayed_step [OF r(2) down(2) time] r(1) show ?thesis
      by (auto simp: port_read_raw intro!: raw_inv_after)
  qed
next
  case (InRfc s)
  with inv show ?thesis by (simp add: raw_inv_def)
next
  case Dead
  with step show ?thesis by (simp add: bridge_step_def)
qed

interpretation raw: traced "bridge_step cfg" "\<lambda>(now, e). now \<le> tmax"
    "\<lambda>b es outs. \<not> bc_rfc2217 cfg \<longrightarrow> raw_inv tmax b es outs" for cfg tmax
  by unfold_locales (auto intro: raw_inv_step)

section \<open>Properties\<close>




end
