(* ===== verification/Sim.thy ===== *)
theory Sim
  imports Shell Bridge
begin

text \<open>
  The simulator's two backends (\<open>src/forge/sim.rs\<close>).  \<open>preset_loop\<close> is one task: keystrokes cross
  the inbound wire into a device, its answers cross the outbound wire to the port, and only
  between deliveries does the loop look at signals.  \<open>exec_loop\<close> runs two forwarding tasks
  around a child process and ends when the child does.
\<close>

section \<open>Devices by name\<close>

datatype any_device = EchoDev | AtDev "unit line_device" | ShellDev "shell line_device"

definition make_device :: "rstring \<Rightarrow> error + any_device" where
  "make_device name =
     (if name = chars ''echo'' then Inr EchoDev
      else if name = chars ''at'' then Inr (AtDev (line_device_new ()))
      else if name = chars ''shell'' then Inr (ShellDev (line_device_new posix))
      else if name = chars ''uboot'' then Inr (ShellDev (line_device_new uboot))
      else Inl [Msg (chars ''unknown preset '' @ debug_str name @ chars '' (echo|shell|uboot|at)'')])"

definition device_greeting :: "any_device \<Rightarrow> bytes" where
  "device_greeting dev =
     (case dev of EchoDev \<Rightarrow> [] | AtDev d \<Rightarrow> greeting at_handler d | ShellDev d \<Rightarrow> greeting shell_handler d)"

definition device_feed :: "any_device \<Rightarrow> bytes \<Rightarrow> (any_device \<times> bytes) option" where
  "device_feed dev input =
     (case dev of
        EchoDev \<Rightarrow> map_option (apfst (\<lambda>_. EchoDev)) (echo_feed () input)
      | AtDev d \<Rightarrow> map_option (apfst AtDev) (feed at_handler d input)
      | ShellDev d \<Rightarrow> map_option (apfst ShellDev) (feed shell_handler d input))"

lemma device_feed_append:
  "device_feed d (xs @ ys) =
     (case device_feed d xs of None \<Rightarrow> None | Some (d', out) \<Rightarrow> map_option (apsnd ((@) out)) (device_feed d' ys))"
proof (cases d)
  case (AtDev e)
  then show ?thesis
    by (auto simp: device_feed_def feed_append option.map_comp comp_def split: option.split)
next
  case (ShellDev e)
  then show ?thesis
    by (auto simp: device_feed_def feed_append option.map_comp comp_def split: option.split)
qed (simp add: device_feed_def echo_feed_def)

lemma device_feed_Nil: "device_feed d [] = Some (d, [])"
  by (cases d) (simp_all add: device_feed_def echo_feed_def)

text \<open>Every preset is a device.\<close>

interpretation any_dev: device device_feed "\<lambda>_. True"
  by unfold_locales (simp_all add: device_feed_append device_feed_Nil)

section \<open>The preset loop\<close>

datatype preset_pc = PReady | PNap instant
  | PIn "cell list" | POut "cell list" "cell list" | PWrite bytes "cell list" "cell list"
  | PEnded "error + unit" | PPanicked

record preset =
  p_dev :: any_device
  p_in :: wire
  p_out :: wire
  p_pc :: preset_pc
  p_port :: virtual_port
  p_greeted :: bool
  p_signalled :: bool

datatype preset_event = PGot "bytes io_result" | PTimer | PTook nat | PError io_error
  | PSignal | PShutdown | PTick

text \<open>Cells still inbound; the select loop when there are none.\<close>

definition preset_inbound :: "cell list \<Rightarrow> preset \<Rightarrow> preset" where
  "preset_inbound ins s =
     (if ins = [] then s\<lparr>p_pc := PReady, p_greeted := True\<rparr> else s\<lparr>p_pc := PIn ins\<rparr>)"

definition preset_outbound :: "cell list \<Rightarrow> cell list \<Rightarrow> preset \<Rightarrow> preset" where
  "preset_outbound outs ins s = (if outs = [] then preset_inbound ins s else s\<lparr>p_pc := POut outs ins\<rparr>)"

text \<open>\<open>deliver(&mut wire_out, &out, &port)\<close> with the inbound cells \<open>ins\<close> left over.\<close>

definition preset_deliver :: "bytes \<Rightarrow> cell list \<Rightarrow> instant \<Rightarrow> preset \<Rightarrow> preset" where
  "preset_deliver out ins now s =
     (case plan (p_out s) now out of
        None \<Rightarrow> s\<lparr>p_pc := PPanicked\<rparr>
      | Some (w, outs) \<Rightarrow> preset_outbound outs ins (s\<lparr>p_out := w\<rparr>))"

definition preset_start :: "wire \<times> wire \<Rightarrow> any_device \<Rightarrow> virtual_port \<Rightarrow> instant \<Rightarrow> preset" where
  "preset_start wires dev port now =
     preset_deliver (device_greeting dev) [] now
       \<lparr>p_dev = dev, p_in = fst wires, p_out = snd wires, p_pc = PReady, p_port = port,
        p_greeted = False, p_signalled = False\<rparr>"

definition preset_feed :: "cell \<Rightarrow> cell list \<Rightarrow> instant \<Rightarrow> preset \<Rightarrow> preset" where
  "preset_feed c ins now s =
     (case device_feed (p_dev s) (cell_data c) of
        None \<Rightarrow> s\<lparr>p_pc := PPanicked\<rparr>
      | Some (dev, out) \<Rightarrow> preset_deliver out ins now (s\<lparr>p_dev := dev\<rparr>))"

definition preset_read :: "bytes io_result \<Rightarrow> instant \<Rightarrow> preset \<Rightarrow> preset option" where
  "preset_read r now s =
     (case r of
        IoErr _ \<Rightarrow> Some (s\<lparr>p_pc := PNap (now + millis 100)\<rparr>)
      | IoOk d \<Rightarrow>
          if length d > 4096 then None
          else if d = [] then Some (s\<lparr>p_pc := PNap (now + millis 50)\<rparr>)
          else (case plan (p_in s) now d of
                  None \<Rightarrow> Some (s\<lparr>p_pc := PPanicked\<rparr>)
                | Some (w, ins) \<Rightarrow> Some (preset_inbound ins (s\<lparr>p_in := w\<rparr>))))"

definition preset_step :: "libc \<Rightarrow> preset \<Rightarrow> instant \<times> preset_event \<Rightarrow> (preset \<times> bytes) option" where
  "preset_step lc s ev =
     (case ev of (now, e) \<Rightarrow>
      if e = PSignal then Some (s\<lparr>p_signalled := True\<rparr>, [])
      else (case (p_pc s, e) of
        (PReady, PGot r) \<Rightarrow> map_option (\<lambda>s. (s, [])) (preset_read r now s)
      | (PReady, PShutdown) \<Rightarrow> if p_signalled s then Some (s\<lparr>p_pc := PEnded (Inr ())\<rparr>, []) else None
      | (PReady, PTick) \<Rightarrow> Some (s\<lparr>p_port := snd (reassert_raw_if_needed lc (p_port s))\<rparr>, [])
      | (PNap t, PTimer) \<Rightarrow> if t \<le> now then Some (s\<lparr>p_pc := PReady\<rparr>, []) else None
      | (PIn (c # ins), PTimer) \<Rightarrow> if due c \<le> now then Some (preset_feed c ins now s, []) else None
      | (POut (c # outs) ins, PTimer) \<Rightarrow>
          if due c \<le> now then Some (s\<lparr>p_pc := PWrite (cell_data c) outs ins\<rparr>, []) else None
      | (PWrite d outs ins, PTook n) \<Rightarrow>
          if n < length d then Some (s\<lparr>p_pc := PWrite (drop n d) outs ins\<rparr>, take n d)
          else if n = length d then Some (preset_outbound outs ins s, d)
          else None
      | (PWrite d outs ins, PError e) \<Rightarrow>
          Some (s\<lparr>p_pc := PEnded (Inl [Msg (if p_greeted s then chars ''write response'' else chars ''write greeting''), Os e])\<rparr>, [])
      | _ \<Rightarrow> None))"

definition preset_run ::
    "libc \<Rightarrow> wire \<times> wire \<Rightarrow> any_device \<Rightarrow> virtual_port \<Rightarrow> instant \<Rightarrow> (instant \<times> preset_event) list \<Rightarrow>
     (preset \<times> bytes) option" where
  "preset_run lc wires dev port now = run_events (preset_step lc) (preset_start wires dev port now)"

section \<open>The exec loop\<close>

definition to_child :: rules where
  "to_child = \<lparr>buffer = 4096, on_empty = Pause (millis 50), on_read_error = Quit,
     on_write_error = Quit, flushing = FlushCells\<rparr>"

definition from_child :: rules where
  "from_child = \<lparr>buffer = 4096, on_empty = Quit, on_read_error = Quit,
     on_write_error = Quit, flushing = NoFlush\<rparr>"

record exec_state =
  x_to :: task
  x_from :: task
  x_port :: virtual_port
  x_signalled :: bool
  x_result :: "(error + unit) option"

text \<open>\<open>ChildExited\<close>: what \<open>child.wait()\<close> yields, the exit code or \<open>None\<close> after a signal.\<close>

datatype exec_event = ToChild task_event | FromChild task_event | ChildExited "int option" | WaitFailed io_error
  | XSignal | XShutdown | XTick

definition exec_start :: "wire \<times> wire \<Rightarrow> virtual_port \<Rightarrow> exec_state" where
  "exec_start wires port =
     \<lparr>x_to = \<lparr>t_wire = fst wires, t_pc = Reading\<rparr>, x_from = \<lparr>t_wire = snd wires, t_pc = Reading\<rparr>,
      x_port = port, x_signalled = False, x_result = None\<rparr>"

definition child_result :: "int option \<Rightarrow> error + unit" where
  "child_result code =
     (if code = Some 0 then Inr ()
      else Inl [ChildExit (case code of Some c \<Rightarrow> c | None \<Rightarrow> - 1)])"

definition exec_step :: "libc \<Rightarrow> exec_state \<Rightarrow> instant \<times> exec_event \<Rightarrow> (exec_state \<times> sent list) option" where
  "exec_step lc s ev =
     (case ev of (now, e) \<Rightarrow>
      if x_result s \<noteq> None then None
      else (case e of
        ToChild te \<Rightarrow> map_option (\<lambda>(t, out). (s\<lparr>x_to := t\<rparr>, [ToPeer out])) (task_step to_child (x_to s) (now, te))
      | FromChild te \<Rightarrow> map_option (\<lambda>(t, out). (s\<lparr>x_from := t\<rparr>, [ToPort out])) (task_step from_child (x_from s) (now, te))
      | ChildExited code \<Rightarrow> Some (s\<lparr>x_result := Some (child_result code)\<rparr>, [])
      | WaitFailed err \<Rightarrow> Some (s\<lparr>x_result := Some (Inl [Msg (chars ''wait on device program''), Os err])\<rparr>, [])
      | XSignal \<Rightarrow> Some (s\<lparr>x_signalled := True\<rparr>, [])
      | XShutdown \<Rightarrow> if x_signalled s then Some (s\<lparr>x_result := Some (Inr ())\<rparr>, []) else None
      | XTick \<Rightarrow> Some (s\<lparr>x_port := snd (reassert_raw_if_needed lc (x_port s))\<rparr>, [])))"

definition exec_run ::
    "libc \<Rightarrow> wire \<times> wire \<Rightarrow> virtual_port \<Rightarrow> (instant \<times> exec_event) list \<Rightarrow> (exec_state \<times> sent list) option" where
  "exec_run lc wires port = run_events (exec_step lc) (exec_start wires port)"


section \<open>What the preset loop answers\<close>

fun key_of :: "instant \<times> preset_event \<Rightarrow> bytes" where
  "key_of (now, PGot (IoOk d)) = d"
| "key_of _ = []"

definition keys :: "(instant \<times> preset_event) list \<Rightarrow> bytes" where
  "keys es = concat (map key_of es)"

primrec preset_ins :: "preset_pc \<Rightarrow> cell list" where
  "preset_ins PReady = []" | "preset_ins (PNap t) = []" | "preset_ins (PIn ins) = ins"
| "preset_ins (POut outs ins) = ins" | "preset_ins (PWrite d outs ins) = ins" | "preset_ins (PEnded r) = []"
| "preset_ins PPanicked = []"

primrec preset_held :: "preset_pc \<Rightarrow> bytes" where
  "preset_held PReady = []" | "preset_held (PNap t) = []" | "preset_held (PIn ins) = []"
| "preset_held (POut outs ins) = datas outs" | "preset_held (PWrite d outs ins) = d @ datas outs"
| "preset_held (PEnded r) = []" | "preset_held PPanicked = []"

primrec preset_failed :: "preset_pc \<Rightarrow> bool" where
  "preset_failed PReady = False" | "preset_failed (PNap t) = False" | "preset_failed (PIn ins) = False"
| "preset_failed (POut outs ins) = False" | "preset_failed (PWrite d outs ins) = False"
| "preset_failed (PEnded r) = isl r" | "preset_failed PPanicked = True"

definition clean :: "wire \<Rightarrow> bool" where
  "clean w \<longleftrightarrow> wire_wf w \<and> drop_p w \<le> 0 \<and> corrupt_p w \<le> 0"

lemma clean_plan:
  assumes "clean w0" "same_line w0 w" "plan w now d = Some (w', cells)"
  shows "same_line w0 w'" "datas cells = d"
proof -
  have wf: "wire_wf w" using assms(1) same_line_keeps(2) [OF assms(2)] by (simp add: clean_def)
  have "same_line w w'" by (rule plan_spec [OF assms(3) wf])
  with assms(2) show "same_line w0 w'" by (rule same_line_trans)
  show "datas cells = d"
    using plan_faults [OF assms(3) wf] assms(1,2) by (auto simp: datas_def clean_def same_line_def)
qed

definition serving :: "any_device \<Rightarrow> wire \<Rightarrow> wire \<Rightarrow> preset \<Rightarrow> bytes \<Rightarrow> bytes \<Rightarrow> bool" where
  "serving dev w_in w_out s K P \<longleftrightarrow>
     same_line w_in (p_in s) \<and> same_line w_out (p_out s) \<and>
     (\<exists>fed out. K = fed @ datas (preset_ins (p_pc s)) \<and> device_feed dev fed = Some (p_dev s, out) \<and>
        P @ preset_held (p_pc s) = device_greeting dev @ out)"

lemma servingI:
  "same_line w_in (p_in s) \<Longrightarrow> same_line w_out (p_out s) \<Longrightarrow> K = fed @ datas (preset_ins (p_pc s)) \<Longrightarrow>
   device_feed dev fed = Some (p_dev s, out) \<Longrightarrow> P @ preset_held (p_pc s) = device_greeting dev @ out \<Longrightarrow>
   serving dev w_in w_out s K P"
  unfolding serving_def by blast

lemma preset_outbound_simps [simp]:
  "p_in (preset_outbound outs ins s) = p_in s" "p_out (preset_outbound outs ins s) = p_out s"
  "p_dev (preset_outbound outs ins s) = p_dev s" "preset_ins (p_pc (preset_outbound outs ins s)) = ins"
  "preset_held (p_pc (preset_outbound outs ins s)) = datas outs"
  "\<not> preset_failed (p_pc (preset_outbound outs ins s))"
  by (auto simp: preset_outbound_def preset_inbound_def)

lemma preset_inbound_simps [simp]:
  "p_in (preset_inbound ins s) = p_in s" "p_out (preset_inbound ins s) = p_out s"
  "p_dev (preset_inbound ins s) = p_dev s" "preset_ins (p_pc (preset_inbound ins s)) = ins"
  "preset_held (p_pc (preset_inbound ins s)) = []" "\<not> preset_failed (p_pc (preset_inbound ins s))"
  by (auto simp: preset_inbound_def)

lemma deliver_serving:
  assumes "same_line w_in (p_in s)" "same_line w_out (p_out s)" "clean w_out"
    and "K = fed @ datas ins" "device_feed dev fed = Some (p_dev s, o')" "P @ out = device_greeting dev @ o'"
  shows "preset_failed (p_pc (preset_deliver out ins now s)) \<or>
    serving dev w_in w_out (preset_deliver out ins now s) K P"
proof (cases "plan (p_out s) now out")
  case None
  then show ?thesis by (simp add: preset_deliver_def)
next
  case (Some r)
  then obtain w outs where p: "plan (p_out s) now out = Some (w, outs)" by (cases r) auto
  from clean_plan [OF assms(3,2) p] p assms show ?thesis
    by (auto simp: preset_deliver_def intro!: servingI)
qed

lemma preset_stepE:
  assumes "preset_step lc s (now, e) = Some (s', out)"
  obtains
    (quiet) q where "p_pc s' = q" "p_dev s' = p_dev s" "p_in s' = p_in s" "p_out s' = p_out s" "out = []" "key_of (now, e) = []"
      "preset_failed q \<or> preset_ins q = preset_ins (p_pc s) \<and> preset_held q = preset_held (p_pc s)"
      "preset_failed (p_pc s) \<Longrightarrow> preset_failed q"
  | (read) d where "p_pc s = PReady" "e = PGot (IoOk d)" "d \<noteq> []" "preset_read (IoOk d) now s = Some s'" "out = []"
  | (key) c ins where "p_pc s = PIn (c # ins)" "e = PTimer" "s' = preset_feed c ins now s" "out = []"
  | (took) d outs ins n where "p_pc s = PWrite d outs ins" "e = PTook n" "n < length d"
      "s' = s\<lparr>p_pc := PWrite (drop n d) outs ins\<rparr>" "out = take n d"
  | (took_all) d outs ins n where "p_pc s = PWrite d outs ins" "e = PTook n"
      "s' = preset_outbound outs ins s" "out = d"
proof (cases "e = PSignal")
  case True
  with assms quiet [of "p_pc s"] show ?thesis by (auto simp: preset_step_def)
next
  case False
  show ?thesis
  proof (cases "p_pc s")
    case PReady
    show ?thesis
    proof (cases "\<exists>d. e = PGot (IoOk d) \<and> d \<noteq> []")
      case True
      with PReady assms read show ?thesis by (auto simp: preset_step_def)
    next
      case no: False
      with PReady False assms quiet [of "p_pc s'"] show ?thesis
        by (cases e) (auto simp: preset_step_def preset_read_def split: io_result.splits if_splits)
    qed
  next
    case (PNap t)
    with False assms quiet [of PReady] show ?thesis by (cases e) (auto simp: preset_step_def split: if_splits)
  next
    case (PIn ins)
    with False assms key show ?thesis by (cases e; cases ins) (auto simp: preset_step_def split: if_splits)
  next
    case (POut outs ins)
    from False assms POut obtain c outs' where "outs = c # outs'" "e = PTimer"
      "s' = s\<lparr>p_pc := PWrite (cell_data c) outs' ins\<rparr>" "out = []"
      by (cases e; cases outs) (auto simp: preset_step_def split: if_splits)
    with POut show ?thesis by (intro quiet [of "p_pc s'"]) simp_all
  next
    case (PWrite d outs ins)
    with False assms took took_all quiet [of "p_pc s'"] show ?thesis
      by (cases e) (auto simp: preset_step_def split: if_splits)
  next
    case (PEnded r)
    with False assms show ?thesis by (simp add: preset_step_def)
  next
    case PPanicked
    with False assms show ?thesis by (simp add: preset_step_def)
  qed
qed

lemma serving_step:
  assumes inv: "preset_failed (p_pc s) \<or> serving dev w_in w_out s (keys es) P"
    and wires: "clean w_in" "clean w_out" and step: "preset_step lc s (now, e) = Some (s', out)"
  shows "preset_failed (p_pc s') \<or> serving dev w_in w_out s' (keys (es @ [(now, e)])) (P @ out)"
  using step
proof (cases rule: preset_stepE)
  case (quiet q)
  with inv show ?thesis by (auto simp: serving_def keys_def)
next
  case (read d)
  with inv have i: "serving dev w_in w_out s (keys es) P" by auto
  then have l: "same_line w_in (p_in s)" by (simp add: serving_def)
  show ?thesis
  proof (cases "plan (p_in s) now d")
    case None
    with read show ?thesis by (auto simp: preset_read_def split: if_splits)
  next
    case (Some r)
    then obtain w ins where p: "plan (p_in s) now d = Some (w, ins)" by (cases r) auto
    with read have "s' = preset_inbound ins (s\<lparr>p_in := w\<rparr>)" by (simp add: preset_read_def split: if_splits)
    with i read clean_plan [OF wires(1) l p] show ?thesis
      by (auto simp: serving_def keys_def)
  qed
next
  case (key c ins)
  with inv obtain fed o' where i: "same_line w_in (p_in s)" "same_line w_out (p_out s)"
    "keys es = fed @ cell_data c @ datas ins" "device_feed dev fed = Some (p_dev s, o')"
    "P = device_greeting dev @ o'"
    by (auto simp: serving_def)
  show ?thesis
  proof (cases "device_feed (p_dev s) (cell_data c)")
    case None
    with key show ?thesis by (simp add: preset_feed_def)
  next
    case (Some r)
    then obtain d2 o2 where f: "device_feed (p_dev s) (cell_data c) = Some (d2, o2)" by (cases r) auto
    then have "device_feed dev (fed @ cell_data c) = Some (d2, o' @ o2)"
      using i(4) by (simp add: device_feed_append)
    with deliver_serving [of w_in "s\<lparr>p_dev := d2\<rparr>" w_out "keys es" "fed @ cell_data c" ins dev "o' @ o2" P o2 now]
      i f key wires(2) show ?thesis
      by (simp add: preset_feed_def keys_def)
  qed
next
  case (took d outs ins n)
  with inv show ?thesis by (auto simp: serving_def keys_def take_drop_append)
next
  case (took_all d outs ins n)
  with inv show ?thesis by (auto simp: serving_def keys_def)
qed

lemma serving_run:
  assumes "preset_failed (p_pc s) \<or> \<not> clean w_in \<or> \<not> clean w_out \<or> serving dev w_in w_out s (keys es) P"
    and "preset_step lc s e = Some (s', out)"
  shows "preset_failed (p_pc s') \<or> \<not> clean w_in \<or> \<not> clean w_out \<or> serving dev w_in w_out s' (keys (es @ [e])) (P @ out)"
  using serving_step [of s dev w_in w_out es P lc "fst e" "snd e" s' out] assms by (cases e) auto

interpretation preset: traced "preset_step lc" "\<lambda>_. True"
    "\<lambda>s es out. preset_failed (p_pc s) \<or> \<not> clean w_in \<or> \<not> clean w_out \<or> serving dev w_in w_out s (keys es) out"
  for lc w_in w_out dev
  by unfold_locales (erule (1) serving_run)


lemma serving_start:
  assumes "clean w_in" "clean w_out"
  shows "preset_failed (p_pc (preset_start (w_in, w_out) dev port now)) \<or>
    serving dev w_in w_out (preset_start (w_in, w_out) dev port now) [] []"
  unfolding preset_start_def
  by (rule deliver_serving [where fed = "[]" and o' = "[]"]) (simp_all add: assms device_feed_Nil)

text \<open>A delivery that the kernel takes nothing of.\<close>

definition stalled :: "(instant \<times> preset_event) list \<Rightarrow> bool" where
  "stalled es \<longleftrightarrow> list_all (\<lambda>(_, e). case e of PTook n \<Rightarrow> False | PError x \<Rightarrow> False | _ \<Rightarrow> True) es"

lemma stalled_run:
  assumes "p_pc s = PWrite d outs ins" "stalled es" "run_events (preset_step lc) s es = Some (s', out)"
  shows "p_pc s' = PWrite d outs ins \<and> out = []"
  using assms
proof (induction es arbitrary: s out)
  case (Cons e es)
  obtain now ev where e: "e = (now, ev)" by fastforce
  from Cons.prems(3) obtain s1 o1 o2 where s: "preset_step lc s (now, ev) = Some (s1, o1)"
    "run_events (preset_step lc) s1 es = Some (s', o2)" "out = o1 @ o2"
    by (auto simp: e split: bind_splits)
  have "p_pc s1 = PWrite d outs ins \<and> o1 = []"
    using Cons.prems(1,2) s(1) by (cases ev) (auto simp: e preset_step_def stalled_def)
  with Cons.IH [of s1 o2] Cons.prems(2) s(2,3) show ?case by (simp add: stalled_def)
qed simp

text \<open>What the child was given and what came back, in the run of an exec backend.\<close>

fun exec_typed :: "instant \<times> exec_event \<Rightarrow> bytes" where
  "exec_typed (now, ToChild (Got (IoOk d))) = d"
| "exec_typed _ = []"

fun exec_said :: "instant \<times> exec_event \<Rightarrow> bytes" where
  "exec_said (now, FromChild (Got (IoOk d))) = d"
| "exec_said _ = []"

definition exec_inv :: "instant \<Rightarrow> exec_state \<Rightarrow> (instant \<times> exec_event) list \<Rightarrow> sent list \<Rightarrow> bool" where
  "exec_inv tmax s es outs \<longleftrightarrow>
     relayed tmax (Some (x_to s)) (concat (map exec_typed es)) (peer_bytes outs) \<and>
     relayed tmax (Some (x_from s)) (concat (map exec_said es)) (port_bytes outs)"

lemma exec_reads:
  "exec_typed (now, ToChild e) = (case e of Got (IoOk d) \<Rightarrow> d | _ \<Rightarrow> [])" "exec_typed (now, FromChild e) = []"
  "exec_said (now, ToChild e) = []" "exec_said (now, FromChild e) = (case e of Got (IoOk d) \<Rightarrow> d | _ \<Rightarrow> [])"
  by (auto split: task_event.split io_result.split)

lemma exec_inv_step:
  assumes inv: "exec_inv tmax s es outs" and step: "exec_step lc s (now, e) = Some (s', out)" and time: "now \<le> tmax"
  shows "exec_inv tmax s' (es @ [(now, e)]) (outs @ out)"
proof -
  from inv have r: "relayed tmax (Some (x_to s)) (concat (map exec_typed es)) (peer_bytes outs)"
    "relayed tmax (Some (x_from s)) (concat (map exec_said es)) (port_bytes outs)"
    by (simp_all add: exec_inv_def)
  from step consider
      (to) te t o' where "e = ToChild te" "task_step to_child (x_to s) (now, te) = Some (t, o')"
        "s' = s\<lparr>x_to := t\<rparr>" "out = [ToPeer o']"
    | (out) te t o' where "e = FromChild te" "task_step from_child (x_from s) (now, te) = Some (t, o')"
        "s' = s\<lparr>x_from := t\<rparr>" "out = [ToPort o']"
    | (other) "x_to s' = x_to s" "x_from s' = x_from s" "out = []" "exec_typed (now, e) = []" "exec_said (now, e) = []"
    by (cases e) (auto simp: exec_step_def split: if_splits)
  then show ?thesis
  proof cases
    case to
    with relayed_step [OF r(1) to(2) time] r(2) show ?thesis by (simp add: exec_inv_def exec_reads)
  next
    case out
    with relayed_step [OF r(2) out(2) time] r(1) show ?thesis by (simp add: exec_inv_def exec_reads)
  next
    case other
    with r show ?thesis by (simp add: exec_inv_def)
  qed
qed

interpretation exec: traced "exec_step lc" "\<lambda>(now, e). now \<le> tmax" "exec_inv tmax" for lc tmax
  by unfold_locales (auto intro: exec_inv_step)

section \<open>Properties\<close>

text \<open>
  (C14) A preset answers every key once: on clean wires, however the keys are split into reads and
  the answers into writes, the port gets the greeting and then exactly what the device answers to
  the keys it was given; with no delivery under way that is all of them.
\<close>

theorem preset_answers:
  assumes "preset_run lc (w_in, w_out) dev port now es = Some (s, out)" and "clean w_in" and "clean w_out"
    and "\<not> preset_failed (p_pc s)"
  shows "\<exists>fed answers. keys es = fed @ datas (preset_ins (p_pc s)) \<and>
    device_feed dev fed = Some (p_dev s, answers) \<and>
    out @ preset_held (p_pc s) = device_greeting dev @ answers"
  using preset.inv_run [where w_in = w_in and w_out = w_out and dev = dev, OF _ _ assms(1) [unfolded preset_run_def]]
    serving_start [OF assms(2,3), of dev port now] assms(2-4)
  by (auto simp: serving_def keys_def list_all_iff)

lemma idle_plan: "wire_new default_spec 0 5 = Some w \<Longrightarrow> plan w 5 [] = Some (w, [])"
  by (auto simp: plan_def jitter_sample_def dur_add_def chunks.simps default_spec_def Let_def elim!: wire_newE)

definition typing_A :: "(instant \<times> preset_event) list" where
  "typing_A = [(7, PGot (IoOk [65])), (8, PTimer), (8, PTimer), (8, PTook 1)]"

lemma echo_session:
  assumes "wire_new default_spec 0 5 = Some w"
  shows "\<exists>s. preset_run linux_libc (w, w) EchoDev port 5 typing_A = Some (s, [65]) \<and> p_pc s = PReady"
proof -
  have "plan w 7 [65] = Some (w\<lparr>cursor := 7\<rparr>, [\<lparr>cell_data = [65], due = 7\<rparr>])"
    "plan w 8 [65] = Some (w\<lparr>cursor := 8\<rparr>, [\<lparr>cell_data = [65], due = 8\<rparr>])"
    by (rule plan_identity [OF assms]; simp)+
  with idle_plan [OF assms] show ?thesis
    by (simp add: preset_run_def preset_start_def device_greeting_def preset_deliver_def preset_outbound_def
        preset_inbound_def typing_A_def preset_step_def preset_read_def preset_feed_def device_feed_def echo_feed_def)
qed

theorem preset_answers_witness:
  "\<exists>w s. wire_new default_spec 0 5 = Some w \<and>
     preset_run linux_libc (w, w) EchoDev (plain_port cooked_tio) 5 typing_A = Some (s, [65]) \<and>
     (\<exists>fed answers. keys typing_A = fed @ datas (preset_ins (p_pc s)) \<and>
        device_feed EchoDev fed = Some (p_dev s, answers) \<and>
        [65] @ preset_held (p_pc s) = device_greeting EchoDev @ answers)"
proof -
  obtain w where w: "wire_new default_spec 0 5 = Some w"
    by (simp add: wire_new_def wire_byte_time_def default_spec_def)
  then have c: "clean w"
    using wire_wf_new [OF w] by (auto simp: clean_def default_spec_def elim!: wire_newE)
  from echo_session [OF w, of "plain_port cooked_tio"] obtain s where s:
    "preset_run linux_libc (w, w) EchoDev (plain_port cooked_tio) 5 typing_A = Some (s, [65])" "p_pc s = PReady" by blast
  from preset_answers [OF s(1) c c] s w show ?thesis by auto
qed

text \<open>
  Ctrl-C is heard between deliveries only: while a write to the port is stalled, because the
  consumer does not read, the preset loop goes on for no signal, however many arrive; once it is
  back at its select a signal that arrived ends it, as it does the exec loop at any time.
\<close>

theorem stalled_delivery_ignores_signals:
  assumes "p_pc s = PWrite d outs ins" and "stalled es"
    and "run_events (preset_step lc) (s\<lparr>p_signalled := True\<rparr>) es = Some (s', out)"
  shows "p_pc s' = PWrite d outs ins \<and> out = [] \<and>
    preset_step lc (s\<lparr>p_pc := PReady, p_signalled := True\<rparr>) (now, PShutdown) =
      Some (s\<lparr>p_pc := PEnded (Inr ()), p_signalled := True\<rparr>, []) \<and>
    exec_step lc (x\<lparr>x_signalled := True, x_result := None\<rparr>) (now, XShutdown) =
      Some (x\<lparr>x_signalled := True, x_result := Some (Inr ())\<rparr>, [])"
  using stalled_run [OF _ assms(2,3)] assms(1) by (simp add: preset_step_def exec_step_def)

definition stuck_preset :: "wire \<Rightarrow> preset" where
  "stuck_preset w = \<lparr>p_dev = EchoDev, p_in = w, p_out = w, p_pc = PWrite [65] [] [], p_port = plain_port cooked_tio,
     p_greeted = True, p_signalled = False\<rparr>"

theorem stalled_delivery_ignores_signals_witness:
  "\<exists>s'. run_events (preset_step linux_libc) ((stuck_preset brisk_wire)\<lparr>p_signalled := True\<rparr>) [(9, PSignal), (10, PSignal)] =
      Some (s', []) \<and> p_pc s' = PWrite [65] [] []"
proof -
  obtain s' out where r: "run_events (preset_step linux_libc) ((stuck_preset brisk_wire)\<lparr>p_signalled := True\<rparr>)
      [(9, PSignal), (10, PSignal)] = Some (s', out)"
    by (simp add: preset_step_def)
  have h: "p_pc (stuck_preset brisk_wire) = PWrite [65] [] []" "stalled [(9, PSignal), (10, PSignal)]"
    by (simp_all add: stuck_preset_def stalled_def)
  from stalled_delivery_ignores_signals [OF h r] r show ?thesis by auto
qed

text \<open>
  When the child exits, the loop ends at once, with its exit status, and what the child said last
  may be lost: bytes that were read from it but are still held by the wire never reach the port,
  even though the run succeeds.
\<close>

theorem exec_exit_discards:
  "exec_step lc (s\<lparr>x_result := None\<rparr>) (now, ChildExited code) = Some (s\<lparr>x_result := Some (child_result code)\<rparr>, []) \<and>
   exec_step lc (s\<lparr>x_result := Some r\<rparr>) (now, e) = None \<and>
   (\<exists>s outs. exec_run lc (brisk_wire, brisk_wire) port
      [(0, FromChild (Got (IoOk [1, 2]))), (1000, FromChild Timer), (1000, FromChild (Took 1)), (1001, ChildExited (Some 0))] =
        Some (s, outs) \<and> x_result s = Some (Inr ()) \<and> port_bytes outs = [1])"
proof (intro conjI)
  from brisk_plan obtain w where
    "plan brisk_wire 0 [1, 2] = Some (w, [\<lparr>cell_data = [1], due = 1000\<rparr>, \<lparr>cell_data = [2], due = 2000\<rparr>])" by blast
  then show "\<exists>s outs. exec_run lc (brisk_wire, brisk_wire) port
      [(0, FromChild (Got (IoOk [1, 2]))), (1000, FromChild Timer), (1000, FromChild (Took 1)), (1001, ChildExited (Some 0))] =
        Some (s, outs) \<and> x_result s = Some (Inr ()) \<and> port_bytes outs = [1]"
    by (simp add: exec_run_def exec_start_def exec_step_def from_child_def task_step_def next_cell_def write_rest_def
        cell_written_def child_result_def)
qed (simp_all add: exec_step_def)

text \<open>While it runs, the child is given what was typed and the port what the child said.\<close>

theorem exec_relays:
  assumes "exec_run lc (u, v) port es = Some (s, outs)" and "wire_wf u" and "wire_wf v"
  shows "noise (concat (map exec_typed es)) (peer_bytes outs) \<and> noise (concat (map exec_said es)) (port_bytes outs)"
proof -
  from all_times obtain T where T: "list_all (\<lambda>(now :: instant, e). now \<le> T) es" by blast
  have "exec_inv T (exec_start (u, v) port) [] []"
    using relayed_opened [OF noise_Nil assms(2)] relayed_opened [OF noise_Nil assms(3)]
    by (simp add: exec_inv_def exec_start_def)
  from exec.inv_run [OF this T assms(1) [unfolded exec_run_def]] show ?thesis
    by (auto simp: exec_inv_def dest: relayed_noise)
qed

end
