(* ===== verification/Mux.thy ===== *)
theory Mux
  imports Bridge "HOL-Library.Sublist"
begin

text \<open>
  The multiplexer (\<open>src/forge/mux.rs\<close>): one reader of the device publishes what it reads, every
  consumer receives it at its own pace, and what the consumers type is queued to one writer.  The
  broadcast channel is a library of another crate: its receive operation is a parameter, and the
  locale \<open>broadcast\<close> is what its documentation promises.
\<close>

section \<open>The broadcast channel\<close>

text \<open>
  \<open>recv pub cur\<close>: a receiver that has seen the first \<open>cur\<close> of the published values \<open>pub\<close> asks for
  the next.  \<open>None\<close>: it waits.  \<open>Lagged n\<close>: it was too slow, and \<open>n\<close> values are gone for it.
\<close>

datatype recv_result = Chunk bytes | Lagged nat

locale broadcast =
  fixes recv :: "bytes list \<Rightarrow> nat \<Rightarrow> recv_result option" and capacity :: nat
  assumes recv_waits: "recv pub cur = None \<longleftrightarrow> length pub \<le> cur"
    and recv_next: "recv pub cur = Some (Chunk d) \<Longrightarrow> d = pub ! cur"
    and recv_lagged: "recv pub cur = Some (Lagged n) \<Longrightarrow> 0 < n \<and> cur + n \<le> length pub \<and> capacity < length pub - cur"
begin

lemma recv_keeps_up: "length pub - cur \<le> capacity \<Longrightarrow> recv pub cur \<noteq> Some (Lagged n)"
  using recv_lagged by force

lemma recv_in_range: "recv pub cur = Some r \<Longrightarrow> cur < length pub"
  by (metis not_le option.discI recv_waits)

lemma recv_chunk_take: "recv pub cur = Some (Chunk d) \<Longrightarrow> take (Suc cur) pub = take cur pub @ [d]"
  using recv_in_range recv_next by (simp add: take_Suc_conv_app_nth)

end

section \<open>The tasks\<close>

definition BACKLOG :: nat where
  "BACKLOG = 256"

definition TX_QUEUE :: nat where
  "TX_QUEUE = 64"

definition to_consumer :: rules where
  "to_consumer = \<lparr>buffer = 8192, on_empty = Quit, on_read_error = Quit,
     on_write_error = Pause RETRY, flushing = NoFlush\<rparr>"

definition from_consumer :: rules where
  "from_consumer = \<lparr>buffer = 8192, on_empty = Pause IDLE, on_read_error = Pause RETRY,
     on_write_error = Quit, flushing = NoFlush\<rparr>"

record consumer =
  c_to :: task
  c_cursor :: nat
  c_lost :: nat
  c_from :: task

datatype writer = WIdle | WWriting bytes | WNap instant

record mux =
  m_nap :: "instant option"
  m_published :: "bytes list"
  m_queue :: "bytes list"
  m_writer :: writer
  m_consumers :: "consumer list"

text \<open>
  \<open>Receive\<close>, \<open>Deliver\<close>: the consumer's copy of the device stream.  \<open>Type\<close>, \<open>Submit\<close>: its own
  writes, a planned cell at a time, into the queue.
\<close>

datatype consumer_event = Receive | Deliver task_event | Type task_event | Submit

datatype mux_event = DeviceGot "bytes io_result" | ReaderTimer
  | WriterRecv | WriterTook nat | WriterFailed io_error | WriterTimer
  | Consumer nat consumer_event

datatype mux_out = ToDevice bytes | ToConsumer nat bytes

definition consumer_step ::
    "(bytes list \<Rightarrow> nat \<Rightarrow> recv_result option) \<Rightarrow> bytes list \<Rightarrow> bool \<Rightarrow> instant \<Rightarrow> consumer_event \<Rightarrow> consumer \<Rightarrow>
     (consumer \<times> bytes \<times> bytes list) option" where
  "consumer_step recv pub room now e c =
     (case e of
        Receive \<Rightarrow>
          if t_pc (c_to c) \<noteq> Reading then None
          else (case recv pub (c_cursor c) of
             None \<Rightarrow> None
           | Some (Lagged n) \<Rightarrow> Some (c\<lparr>c_cursor := c_cursor c + n, c_lost := c_lost c + n\<rparr>, [], [])
           | Some (Chunk d) \<Rightarrow>
               map_option (\<lambda>(t, out). (c\<lparr>c_to := t, c_cursor := Suc (c_cursor c)\<rparr>, out, []))
                 (task_step to_consumer (c_to c) (now, Got (IoOk d))))
      | Deliver te \<Rightarrow>
          (case te of
             Got _ \<Rightarrow> None
           | _ \<Rightarrow> map_option (\<lambda>(t, out). (c\<lparr>c_to := t\<rparr>, out, [])) (task_step to_consumer (c_to c) (now, te)))
      | Type te \<Rightarrow>
          (case te of
             Took _ \<Rightarrow> None
           | Failed _ \<Rightarrow> None
           | _ \<Rightarrow> map_option (\<lambda>(t, out). (c\<lparr>c_from := t\<rparr>, [], [])) (task_step from_consumer (c_from c) (now, te)))
      | Submit \<Rightarrow>
          (case t_pc (c_from c) of
             Writing d cells \<Rightarrow>
               if room then map_option (\<lambda>(t, out). (c\<lparr>c_from := t\<rparr>, [], [out]))
                 (task_step from_consumer (c_from c) (now, Took (length d)))
               else None
           | _ \<Rightarrow> None))"

definition reader_step :: "bytes io_result \<Rightarrow> instant \<Rightarrow> mux \<Rightarrow> mux option" where
  "reader_step r now m =
     (if m_nap m \<noteq> None then None
      else (case r of
         IoErr _ \<Rightarrow> Some (m\<lparr>m_nap := Some (now + RETRY)\<rparr>)
       | IoOk d \<Rightarrow>
           if length d > 8192 then None
           else if d = [] then Some (m\<lparr>m_nap := Some (now + IDLE)\<rparr>)
           else Some (m\<lparr>m_published := m_published m @ [d]\<rparr>)))"

definition mux_step ::
    "(bytes list \<Rightarrow> nat \<Rightarrow> recv_result option) \<Rightarrow> mux \<Rightarrow> instant \<times> mux_event \<Rightarrow> (mux \<times> mux_out list) option" where
  "mux_step recv m ev =
     (case ev of (now, e) \<Rightarrow>
      case e of
        DeviceGot r \<Rightarrow> map_option (\<lambda>m. (m, [])) (reader_step r now m)
      | ReaderTimer \<Rightarrow>
          (case m_nap m of Some t \<Rightarrow> if t \<le> now then Some (m\<lparr>m_nap := None\<rparr>, []) else None | None \<Rightarrow> None)
      | WriterRecv \<Rightarrow>
          (case (m_writer m, m_queue m) of
             (WIdle, d # q) \<Rightarrow> Some (m\<lparr>m_writer := WWriting d, m_queue := q\<rparr>, [])
           | _ \<Rightarrow> None)
      | WriterTook n \<Rightarrow>
          (case m_writer m of
             WWriting d \<Rightarrow>
               if n < length d then Some (m\<lparr>m_writer := WWriting (drop n d)\<rparr>, [ToDevice (take n d)])
               else if n = length d then Some (m\<lparr>m_writer := WIdle\<rparr>, [ToDevice d])
               else None
           | _ \<Rightarrow> None)
      | WriterFailed _ \<Rightarrow>
          (case m_writer m of WWriting d \<Rightarrow> Some (m\<lparr>m_writer := WNap (now + RETRY)\<rparr>, []) | _ \<Rightarrow> None)
      | WriterTimer \<Rightarrow>
          (case m_writer m of WNap t \<Rightarrow> if t \<le> now then Some (m\<lparr>m_writer := WIdle\<rparr>, []) else None | _ \<Rightarrow> None)
      | Consumer i ce \<Rightarrow>
          if i < length (m_consumers m) then
            map_option (\<lambda>(c, out, sub).
                (m\<lparr>m_consumers := (m_consumers m)[i := c], m_queue := m_queue m @ sub\<rparr>, [ToConsumer i out]))
              (consumer_step recv (m_published m) (length (m_queue m) < TX_QUEUE) now ce (m_consumers m ! i))
          else None)"

definition mux_start :: "(wire \<times> wire) list \<Rightarrow> mux" where
  "mux_start wires =
     \<lparr>m_nap = None, m_published = [], m_queue = [], m_writer = WIdle,
      m_consumers = map (\<lambda>(out, back_wire).
        \<lparr>c_to = \<lparr>t_wire = out, t_pc = Reading\<rparr>, c_cursor = 0, c_lost = 0,
         c_from = \<lparr>t_wire = back_wire, t_pc = Reading\<rparr>\<rparr>) wires\<rparr>"

definition mux_run ::
    "(bytes list \<Rightarrow> nat \<Rightarrow> recv_result option) \<Rightarrow> (wire \<times> wire) list \<Rightarrow> (instant \<times> mux_event) list \<Rightarrow>
     (mux \<times> mux_out list) option" where
  "mux_run recv wires = run_events (mux_step recv) (mux_start wires)"

text \<open>Everything the consumers' wires are built from: session \<open>i\<close> for the \<open>i\<close>th link.\<close>

fun mux_wires :: "wire_spec \<Rightarrow> u64 \<Rightarrow> nat \<Rightarrow> instant \<Rightarrow> (wire \<times> wire) list option" where
  "mux_wires spec i 0 now = Some []"
| "mux_wires spec i (Suc n) now =
     do {
       w \<leftarrow> build_pair_nth spec i now;
       ws \<leftarrow> mux_wires spec (i + 1) n now;
       Some (w # ws)
     }"

section \<open>The channel of the runtime\<close>

text \<open>
  A ring that keeps the last \<open>BACKLOG\<close> values, as the documentation of the channel describes it,
  has the promised laws.
\<close>

definition ring_recv :: "bytes list \<Rightarrow> nat \<Rightarrow> recv_result option" where
  "ring_recv pub cur =
     (if length pub \<le> cur then None
      else if cur + BACKLOG < length pub then Some (Lagged (length pub - BACKLOG - cur))
      else Some (Chunk (pub ! cur)))"

interpretation ring: broadcast ring_recv BACKLOG
  by unfold_locales (auto simp: ring_recv_def split: if_splits)


section \<open>What a run shows\<close>

fun device_read :: "instant \<times> mux_event \<Rightarrow> bytes list" where
  "device_read (now, DeviceGot (IoOk d)) = (if d = [] then [] else [d])"
| "device_read _ = []"

fun typed_at :: "nat \<Rightarrow> instant \<times> mux_event \<Rightarrow> bytes" where
  "typed_at i (now, Consumer j (Type (Got (IoOk d)))) = (if i = j then d else [])"
| "typed_at i _ = []"

definition port_of :: "nat \<Rightarrow> mux_out list \<Rightarrow> bytes" where
  "port_of i outs = concat (map (\<lambda>x. case x of ToConsumer j d \<Rightarrow> if i = j then d else [] | ToDevice d \<Rightarrow> []) outs)"

definition device_of :: "mux_out list \<Rightarrow> bytes" where
  "device_of outs = concat (map (\<lambda>x. case x of ToDevice d \<Rightarrow> d | ToConsumer i d \<Rightarrow> []) outs)"

text \<open>Neither a delivery to the consumer nor a write to the device failed.\<close>

fun disturbs :: "nat \<Rightarrow> mux_event \<Rightarrow> bool" where
  "disturbs i (Consumer j (Deliver (Failed x))) = (i = j)"
| "disturbs i _ = False"

definition undisturbed :: "nat \<Rightarrow> (instant \<times> mux_event) list \<Rightarrow> bool" where
  "undisturbed i es \<longleftrightarrow> list_all (\<lambda>(_, e). \<not> disturbs i e) es"

definition no_device_error :: "(instant \<times> mux_event) list \<Rightarrow> bool" where
  "no_device_error es \<longleftrightarrow> list_all (\<lambda>(_, e). case e of WriterFailed x \<Rightarrow> False | _ \<Rightarrow> True) es"

primrec in_hand :: "writer \<Rightarrow> bytes" where
  "in_hand WIdle = []" | "in_hand (WWriting d) = d" | "in_hand (WNap t) = []"

lemma out_simps [simp]:
  "port_of i [] = []" "port_of i (ToConsumer j d # outs) = (if i = j then d else []) @ port_of i outs"
  "port_of i (ToDevice d # outs) = port_of i outs" "port_of i (outs @ outs') = port_of i outs @ port_of i outs'"
  "device_of [] = []" "device_of (ToConsumer j d # outs) = device_of outs"
  "device_of (ToDevice d # outs) = d @ device_of outs" "device_of (outs @ outs') = device_of outs @ device_of outs'"
  by (simp_all add: port_of_def device_of_def)

section \<open>One consumer\<close>

text \<open>
  \<open>P\<close> went to the consumer's port, \<open>T\<close> was typed there and \<open>S\<close> are the chunks it submitted.
\<close>

definition receiving :: "instant \<Rightarrow> wire \<Rightarrow> bytes list \<Rightarrow> consumer \<Rightarrow> bytes \<Rightarrow> bool \<Rightarrow> bool" where
  "receiving tmax w pub c P calm \<longleftrightarrow>
     c_cursor c \<le> length pub \<and>
     (\<exists>es got. forwarded w tmax (c_to c) es P \<and> (calm \<longrightarrow> no_write_error es) \<and> concat got = bytes_read es \<and>
        subseq got (take (c_cursor c) pub) \<and> length got + c_lost c = c_cursor c)"

definition submitting :: "instant \<Rightarrow> wire \<Rightarrow> consumer \<Rightarrow> bytes \<Rightarrow> bytes list \<Rightarrow> bool" where
  "submitting tmax w c T S \<longleftrightarrow>
     (\<exists>es. forwarded w tmax (c_from c) es (concat S) \<and> no_write_error es \<and> bytes_read es = T)"

lemma receiving_published: "receiving tmax w pub c P calm \<Longrightarrow> receiving tmax w (pub @ ds) c P calm"
  unfolding receiving_def by auto

lemma receiving_calm: "receiving tmax w pub c P calm \<Longrightarrow> (calm' \<Longrightarrow> calm) \<Longrightarrow> receiving tmax w pub c P calm'"
  unfolding receiving_def by blast

lemma task_step_silent:
  "task_step rl t (now, e) = Some (t', out) \<Longrightarrow> (\<And>n. e \<noteq> Took n) \<Longrightarrow> out = []"
  by (erule task_stepE) auto

lemma receiving_step:
  assumes r: "receiving tmax w pub c P calm" and s: "task_step to_consumer (c_to c) (now, e) = Some (t, out)"
    and e: "\<And>x. e \<noteq> Got x" and wf: "wire_wf w" and time: "now \<le> tmax"
  shows "receiving tmax w pub (c\<lparr>c_to := t\<rparr>) (P @ out) (calm \<and> (\<forall>x. e \<noteq> Failed x))"
proof -
  from r obtain es got where g: "forwarded w tmax (c_to c) es P" "calm \<longrightarrow> no_write_error es" "concat got = bytes_read es"
    "subseq got (take (c_cursor c) pub)" "length got + c_lost c = c_cursor c" "c_cursor c \<le> length pub"
    unfolding receiving_def by blast
  from forwarded_step [OF g(1) wf time s] g e bytes_read_snoc [of es now e] show ?thesis
    unfolding receiving_def
    by (auto intro!: exI [of _ "es @ [(now, e)]"] exI [of _ got] split: task_event.splits)
qed

lemma receiving_chunk:
  assumes r: "receiving tmax w pub c P calm" and recv: "broadcast recv capacity" "recv pub (c_cursor c) = Some (Chunk d)"
    and s: "task_step to_consumer (c_to c) (now, Got (IoOk d)) = Some (t, out)" and wf: "wire_wf w" and time: "now \<le> tmax"
  shows "receiving tmax w pub (c\<lparr>c_to := t, c_cursor := Suc (c_cursor c)\<rparr>) (P @ out) calm"
proof -
  from r obtain es got where g: "forwarded w tmax (c_to c) es P" "calm \<longrightarrow> no_write_error es" "concat got = bytes_read es"
    "subseq got (take (c_cursor c) pub)" "length got + c_lost c = c_cursor c" "c_cursor c \<le> length pub"
    unfolding receiving_def by blast
  from forwarded_step [OF g(1) wf time s] g broadcast.recv_chunk_take [OF recv] broadcast.recv_in_range [OF recv]
    bytes_read_snoc [of es now "Got (IoOk d)"] list_emb_append_mono [OF g(4), of "[d]" "[d]"]
  show ?thesis
    unfolding receiving_def
    by (auto intro!: exI [of _ "es @ [(now, Got (IoOk d))]"] exI [of _ "got @ [d]"])
qed

lemma receiving_lag:
  assumes r: "receiving tmax w pub c P calm" and recv: "broadcast recv capacity" "recv pub (c_cursor c) = Some (Lagged n)"
  shows "receiving tmax w pub (c\<lparr>c_cursor := c_cursor c + n, c_lost := c_lost c + n\<rparr>) P calm"
proof -
  from r obtain es got where g: "forwarded w tmax (c_to c) es P" "calm \<longrightarrow> no_write_error es" "concat got = bytes_read es"
    "subseq got (take (c_cursor c) pub)" "length got + c_lost c = c_cursor c" "c_cursor c \<le> length pub"
    unfolding receiving_def by blast
  have "subseq got (take (c_cursor c + n) pub)"
    using list_emb_append_mono [OF g(4), of "[]"] by (simp add: take_add)
  with g broadcast.recv_lagged [OF recv] show ?thesis
    unfolding receiving_def by auto
qed

lemma submitting_step:
  assumes r: "submitting tmax w c T S" and s: "task_step from_consumer (c_from c) (now, e) = Some (t, out)"
    and e: "\<And>x. e \<noteq> Failed x" and wf: "wire_wf w" and time: "now \<le> tmax"
  shows "submitting tmax w (c\<lparr>c_from := t\<rparr>) (T @ (case e of Got (IoOk d) \<Rightarrow> d | _ \<Rightarrow> [])) (S @ [out])"
    and "out = [] \<Longrightarrow> submitting tmax w (c\<lparr>c_from := t\<rparr>) (T @ (case e of Got (IoOk d) \<Rightarrow> d | _ \<Rightarrow> [])) S"
proof -
  from r obtain es where g: "forwarded w tmax (c_from c) es (concat S)" "no_write_error es" "bytes_read es = T"
    unfolding submitting_def by blast
  note f = forwarded_step [OF g(1) wf time s]
  from f g e bytes_read_snoc [of es now e]
  show "submitting tmax w (c\<lparr>c_from := t\<rparr>) (T @ (case e of Got (IoOk d) \<Rightarrow> d | _ \<Rightarrow> [])) (S @ [out])"
    unfolding submitting_def by (intro exI [of _ "es @ [(now, e)]"]) simp
  from f g e bytes_read_snoc [of es now e]
  show "submitting tmax w (c\<lparr>c_from := t\<rparr>) (T @ (case e of Got (IoOk d) \<Rightarrow> d | _ \<Rightarrow> [])) S" if "out = []"
    unfolding submitting_def using that by (intro exI [of _ "es @ [(now, e)]"]) simp
qed

lemma submitting_cong: "c_from c' = c_from c \<Longrightarrow> submitting tmax w c' T S = submitting tmax w c T S"
  by (simp add: submitting_def)

lemma receiving_cong:
  "c_to c' = c_to c \<Longrightarrow> c_cursor c' = c_cursor c \<Longrightarrow> c_lost c' = c_lost c \<Longrightarrow>
   receiving tmax w pub c' P calm = receiving tmax w pub c P calm"
  by (simp add: receiving_def)

lemma consumer_step_inv:
  assumes "broadcast recv capacity" "consumer_step recv pub room now e c = Some (c', out, subs)"
    and "receiving tmax w pub c P calm" "submitting tmax wb c T S" "wire_wf w" "wire_wf wb" "now \<le> tmax"
  shows "receiving tmax w pub c' (P @ out) (calm \<and> (\<forall>x. e \<noteq> Deliver (Failed x))) \<and>
    submitting tmax wb c' (T @ (case e of Type (Got (IoOk d)) \<Rightarrow> d | _ \<Rightarrow> [])) (S @ subs) \<and> length subs \<le> 1 \<and>
    (subs \<noteq> [] \<longrightarrow> room)"
proof (cases e)
  case Receive
  show ?thesis
  proof (cases "recv pub (c_cursor c)")
    case None
    with Receive assms(2) show ?thesis by (simp add: consumer_step_def split: if_splits)
  next
    case (Some r)
    show ?thesis
    proof (cases r)
      case (Chunk d)
      with Some Receive assms(2) obtain t where
        "task_step to_consumer (c_to c) (now, Got (IoOk d)) = Some (t, out)" "subs = []"
        "c' = c\<lparr>c_to := t, c_cursor := Suc (c_cursor c)\<rparr>"
        by (auto simp: consumer_step_def split: if_splits)
      with receiving_chunk [OF assms(3,1) Some [unfolded Chunk] this(1) assms(5,7)] assms(4) Receive
      show ?thesis by (simp add: submitting_def)
    next
      case (Lagged n)
      with Some Receive assms(2) receiving_lag [OF assms(3,1) Some [unfolded Lagged]] assms(4) show ?thesis
        by (auto simp: consumer_step_def submitting_def split: if_splits)
    qed
  qed
next
  case (Deliver te)
  with assms(2) obtain t where s: "task_step to_consumer (c_to c) (now, te) = Some (t, out)" "subs = []"
      "c' = c\<lparr>c_to := t\<rparr>" and g: "\<And>x. te \<noteq> Got x"
    by (auto simp: consumer_step_def split: task_event.splits)
  from receiving_step [OF assms(3) s(1) g assms(5,7)] s Deliver assms(4) show ?thesis
    by (simp add: submitting_def)
next
  case (Type te)
  with assms(2) obtain t o' where s: "task_step from_consumer (c_from c) (now, te) = Some (t, o')" "subs = []" "out = []"
      "c' = c\<lparr>c_from := t\<rparr>" and g: "\<And>x. te \<noteq> Failed x" "\<And>n. te \<noteq> Took n"
    by (auto simp: consumer_step_def split: task_event.splits)
  from submitting_step(2) [OF assms(4) s(1) g(1) assms(6,7) task_step_silent [OF s(1) g(2)]] s Type assms(3)
  show ?thesis by (simp add: receiving_def)
next
  case Submit
  with assms(2) obtain d cells t o' where s: "t_pc (c_from c) = Writing d cells" "room"
      "task_step from_consumer (c_from c) (now, Took (length d)) = Some (t, o')" "subs = [o']" "out = []"
      "c' = c\<lparr>c_from := t\<rparr>"
    by (auto simp: consumer_step_def split: task_pc.splits if_splits)
  from submitting_step(1) [OF assms(4) s(3) _ assms(6,7)] s Submit assms(3) show ?thesis
    by (simp add: receiving_def)
qed


section \<open>All of them\<close>

definition typed_all :: "nat \<Rightarrow> (instant \<times> mux_event) list \<Rightarrow> bytes" where
  "typed_all i es = concat (map (typed_at i) es)"

definition of_consumer :: "nat \<Rightarrow> (nat \<times> bytes) list \<Rightarrow> bytes list" where
  "of_consumer i lg = map snd (filter (\<lambda>x. fst x = i) lg)"

definition mux_inv :: "instant \<Rightarrow> (wire \<times> wire) list \<Rightarrow> mux \<Rightarrow> (instant \<times> mux_event) list \<Rightarrow> mux_out list \<Rightarrow> bool" where
  "mux_inv tmax wires m es outs \<longleftrightarrow>
     length (m_consumers m) = length wires \<and> m_published m = concat (map device_read es) \<and>
     length (m_queue m) \<le> TX_QUEUE \<and>
     (\<exists>lg. (no_device_error es \<longrightarrow>
          device_of outs @ in_hand (m_writer m) @ concat (m_queue m) = concat (map snd lg)) \<and>
        (\<forall>i < length wires.
           receiving tmax (fst (wires ! i)) (m_published m) (m_consumers m ! i) (port_of i outs) (undisturbed i es) \<and>
           submitting tmax (snd (wires ! i)) (m_consumers m ! i) (typed_all i es) (of_consumer i lg)))"

definition wires_ok :: "(wire \<times> wire) list \<Rightarrow> bool" where
  "wires_ok wires \<longleftrightarrow> list_all (\<lambda>(u, d). wire_wf u \<and> wire_wf d) wires"

lemma wires_okD: "wires_ok wires \<Longrightarrow> i < length wires \<Longrightarrow> wire_wf (fst (wires ! i)) \<and> wire_wf (snd (wires ! i))"
  by (auto simp: wires_ok_def list_all_length split: prod.splits) (metis prod.collapse)+

lemma of_consumer_simps [simp]:
  "of_consumer i [] = []" "of_consumer i (lg @ lg') = of_consumer i lg @ of_consumer i lg'"
  "of_consumer i (map (Pair j) ds) = (if i = j then ds else [])"
  by (auto simp: of_consumer_def filter_map comp_def)

lemma history_snoc [simp]:
  "typed_all i (es @ [e]) = typed_all i es @ typed_at i e" "typed_all i [] = []"
  "undisturbed i (es @ [e]) \<longleftrightarrow> undisturbed i es \<and> \<not> disturbs i (snd e)"
  "no_device_error (es @ [e]) \<longleftrightarrow> no_device_error es \<and> (case snd e of WriterFailed x \<Rightarrow> False | _ \<Rightarrow> True)"
  by (auto simp: typed_all_def undisturbed_def no_device_error_def split: prod.splits)

lemma typed_at_consumer:
  "typed_at i (now, Consumer j ce) = (if i = j then (case ce of Type (Got (IoOk d)) \<Rightarrow> d | _ \<Rightarrow> []) else [])"
  by (auto split: consumer_event.split task_event.split io_result.split)

lemma disturbs_consumer: "disturbs i (Consumer j ce) \<longleftrightarrow> i = j \<and> (\<exists>x. ce = Deliver (Failed x))"
  by (cases "(i, Consumer j ce)" rule: disturbs.cases) auto

lemma mux_inv_step:
  assumes inv: "mux_inv tmax wires m es outs" and step: "mux_step recv m (now, e) = Some (m', out)"
    and recv: "broadcast recv capacity" and wf: "wires_ok wires" and time: "now \<le> tmax"
  shows "mux_inv tmax wires m' (es @ [(now, e)]) (outs @ out)"
proof -
  from inv obtain lg where i: "length (m_consumers m) = length wires" "m_published m = concat (map device_read es)"
    "length (m_queue m) \<le> TX_QUEUE"
    "no_device_error es \<Longrightarrow> device_of outs @ in_hand (m_writer m) @ concat (m_queue m) = concat (map snd lg)"
    "\<And>i. i < length wires \<Longrightarrow>
       receiving tmax (fst (wires ! i)) (m_published m) (m_consumers m ! i) (port_of i outs) (undisturbed i es) \<and>
       submitting tmax (snd (wires ! i)) (m_consumers m ! i) (typed_all i es) (of_consumer i lg)"
    unfolding mux_inv_def by blast
  show ?thesis
  proof (cases e)
    case (Consumer j ce)
    with step obtain c out' subs where s: "j < length wires"
      "consumer_step recv (m_published m) (length (m_queue m) < TX_QUEUE) now ce (m_consumers m ! j) = Some (c, out', subs)"
      "m' = m\<lparr>m_consumers := (m_consumers m)[j := c], m_queue := m_queue m @ subs\<rparr>" "out = [ToConsumer j out']"
      using i(1) by (auto simp: mux_step_def split: if_splits)
    note w = wires_okD [OF wf s(1)]
    from consumer_step_inv [OF recv s(2) conjunct1 [OF i(5) [OF s(1)]] conjunct2 [OF i(5) [OF s(1)]] _ _ time] w
    have c: "receiving tmax (fst (wires ! j)) (m_published m) c (port_of j outs @ out')
        (undisturbed j es \<and> (\<forall>x. ce \<noteq> Deliver (Failed x)))"
      "submitting tmax (snd (wires ! j)) c (typed_all j es @ (case ce of Type (Got (IoOk d)) \<Rightarrow> d | _ \<Rightarrow> []))
        (of_consumer j lg @ subs)"
      "length subs \<le> 1" "subs \<noteq> [] \<longrightarrow> length (m_queue m) < TX_QUEUE" by blast+
    have q: "length (m_queue m @ subs) \<le> TX_QUEUE" using c(3,4) i(3) by (cases subs) auto
    have "receiving tmax (fst (wires ! k)) (m_published m') (m_consumers m' ! k) (port_of k (outs @ out))
          (undisturbed k (es @ [(now, e)])) \<and>
        submitting tmax (snd (wires ! k)) (m_consumers m' ! k) (typed_all k (es @ [(now, e)]))
          (of_consumer k (lg @ map (Pair j) subs))" if "k < length wires" for k
      using c(1,2) i(1) i(5) [OF that] s that unfolding Consumer
      by (cases "k = j") (auto simp: typed_at_consumer disturbs_consumer simp del: typed_at.simps disturbs.simps)
    moreover have "map snd (map (Pair j) subs) = subs" by (simp add: comp_def)
    ultimately show ?thesis
      using i(1-4) s(3,4) q Consumer
      unfolding mux_inv_def by (intro conjI exI [of _ "lg @ map (Pair j) subs"]) auto
  next
    case (DeviceGot r)
    have s: "m_published m' = m_published m @ device_read (now, e)" "m_queue m' = m_queue m"
        "m_writer m' = m_writer m" "m_consumers m' = m_consumers m" "out = []"
      using step DeviceGot by (cases r; auto simp: mux_step_def reader_step_def split: if_splits)+
    have "typed_at k (now, e) = []" for k by (simp add: DeviceGot)
    with i s receiving_published DeviceGot show ?thesis
      unfolding mux_inv_def by (intro conjI exI [of _ lg]) (auto simp del: device_read.simps)
  next
    case ReaderTimer
    with step i show ?thesis
      unfolding mux_inv_def by (intro conjI exI [of _ lg]) (auto simp: mux_step_def split: option.splits if_splits)
  next
    case WriterRecv
    with step i show ?thesis
      unfolding mux_inv_def
      by (intro conjI exI [of _ lg]) (auto simp: mux_step_def split: writer.splits list.splits)
  next
    case (WriterTook n)
    with step i show ?thesis
      unfolding mux_inv_def
      by (intro conjI exI [of _ lg]) (auto simp: mux_step_def take_drop_append split: writer.splits if_splits)
  next
    case (WriterFailed x)
    with step i show ?thesis
      unfolding mux_inv_def by (intro conjI exI [of _ lg]) (auto simp: mux_step_def split: writer.splits)
  next
    case WriterTimer
    with step i show ?thesis
      unfolding mux_inv_def by (intro conjI exI [of _ lg]) (auto simp: mux_step_def split: writer.splits if_splits)
  qed
qed


lemma mux_inv_start: "mux_inv tmax wires (mux_start wires) [] []"
proof -
  have "receiving tmax w [] \<lparr>c_to = \<lparr>t_wire = w, t_pc = Reading\<rparr>, c_cursor = 0, c_lost = 0, c_from = t\<rparr> [] calm" for w t calm
    unfolding receiving_def using forwarded_start
    by (auto intro!: exI [of _ "[]"] simp: no_write_error_def bytes_read_def)
  moreover have "submitting tmax w \<lparr>c_to = t, c_cursor = 0, c_lost = 0, c_from = \<lparr>t_wire = w, t_pc = Reading\<rparr>\<rparr> [] []" for w t
    unfolding submitting_def using forwarded_start
    by (auto intro!: exI [of _ "[]"] simp: no_write_error_def bytes_read_def)
  ultimately show ?thesis
    unfolding mux_inv_def mux_start_def by (auto intro!: exI [of _ "[]"] simp: split_beta)
qed

interpretation muxing: traced "mux_step recv" "\<lambda>(now, e). now \<le> tmax"
    "\<lambda>m es outs. broadcast recv capacity \<longrightarrow> wires_ok wires \<longrightarrow> mux_inv tmax wires m es outs" for recv capacity wires tmax
  by unfold_locales (auto intro: mux_inv_step)

lemma mux_run_inv:
  assumes "mux_run recv wires es = Some (m, outs)" and "broadcast recv capacity" and "wires_ok wires"
  shows "\<exists>tmax. mux_inv tmax wires m es outs"
proof -
  from all_times obtain T where T: "list_all (\<lambda>(now :: instant, e). now \<le> T) es" by blast
  from muxing.inv_run [OF _ T assms(1) [unfolded mux_run_def], of capacity wires] mux_inv_start assms(2,3)
  show ?thesis by blast
qed

section \<open>Properties\<close>

text \<open>
  (C4) Every consumer gets the whole device stream: what is published is what the one reader read;
  consumer \<open>i\<close> has been given, in order, every published chunk up to its cursor except the ones it
  was told it lost, all of them when it lost none; its port got those bytes up to its own wire's
  noise, and exactly those bytes, less what its wire still holds, when the wire is clean and no
  delivery to it failed -- whatever the other consumers, the merged writes and the device's errors do.
\<close>

theorem mux_fanout:
  assumes "mux_run recv wires es = Some (m, outs)" and "broadcast recv capacity" and "wires_ok wires"
    and "i < length wires"
  shows "m_published m = concat (map device_read es) \<and>
    (\<exists>got. subseq got (take (c_cursor (m_consumers m ! i)) (m_published m)) \<and>
       length got + c_lost (m_consumers m ! i) = c_cursor (m_consumers m ! i) \<and>
       (c_lost (m_consumers m ! i) = 0 \<longrightarrow> got = take (c_cursor (m_consumers m ! i)) (m_published m)) \<and>
       noise (concat got) (port_of i outs) \<and>
       (drop_p (fst (wires ! i)) \<le> 0 \<and> corrupt_p (fst (wires ! i)) \<le> 0 \<and> undisturbed i es \<and>
          t_pc (c_to (m_consumers m ! i)) \<noteq> Crashed \<longrightarrow>
        concat got = port_of i outs @ held (t_pc (c_to (m_consumers m ! i)))))"
proof -
  obtain tmax where "mux_inv tmax wires m es outs" using mux_run_inv [OF assms(1-3)] by blast
  with assms(4) have pub: "m_published m = concat (map device_read es)"
    and r: "receiving tmax (fst (wires ! i)) (m_published m) (m_consumers m ! i) (port_of i outs) (undisturbed i es)"
    unfolding mux_inv_def by auto
  from r obtain ts got where g: "forwarded (fst (wires ! i)) tmax (c_to (m_consumers m ! i)) ts (port_of i outs)"
      "undisturbed i es \<longrightarrow> no_write_error ts" "concat got = bytes_read ts"
      "subseq got (take (c_cursor (m_consumers m ! i)) (m_published m))"
      "length got + c_lost (m_consumers m ! i) = c_cursor (m_consumers m ! i)"
      "c_cursor (m_consumers m ! i) \<le> length (m_published m)"
    unfolding receiving_def by blast
  have "got = take (c_cursor (m_consumers m ! i)) (m_published m)" if "c_lost (m_consumers m ! i) = 0"
    using subseq_same_length [OF g(4)] g(5,6) that by simp
  moreover note forwarded_noise [OF g(1)] forwarded_clean [OF g(1) conjunct1 [OF wires_okD [OF assms(3,4)]]]
  ultimately show ?thesis using pub g by auto
qed

text \<open>Two consumers on clean wires: the first is given what the device said, the second types.\<close>

definition demo_events :: "(instant \<times> mux_event) list" where
  "demo_events =
     [(7, DeviceGot (IoOk [1, 2])), (7, Consumer 0 Receive), (8, Consumer 0 (Deliver Timer)),
      (9, Consumer 0 (Deliver (Took 2))), (7, Consumer 1 (Type (Got (IoOk [65])))),
      (10, Consumer 1 (Type Timer)), (10, Consumer 1 Submit), (11, WriterRecv), (12, WriterTook 1)]"

lemma mux_demo:
  assumes "wire_new default_spec 0 5 = Some w"
  shows "\<exists>m. mux_run ring_recv [(w, w), (w, w)] demo_events =
      Some (m, [ToConsumer 0 [], ToConsumer 0 [], ToConsumer 0 [1, 2], ToConsumer 1 [], ToConsumer 1 [],
        ToConsumer 1 [], ToDevice [65]]) \<and>
    m_published m = [[1, 2]] \<and> m_queue m = [] \<and> m_writer m = WIdle \<and>
    c_cursor (m_consumers m ! 0) = 1 \<and> c_lost (m_consumers m ! 0) = 0 \<and> t_pc (c_from (m_consumers m ! 1)) = Reading"
    and "wires_ok [(w, w), (w, w)]" and "drop_p w = 0" "corrupt_p w = 0"
proof -
  have pl: "plan w 7 [1, 2] = Some (w\<lparr>cursor := 7\<rparr>, [\<lparr>cell_data = [1, 2], due = 7\<rparr>])"
    "plan w 7 [65] = Some (w\<lparr>cursor := 7\<rparr>, [\<lparr>cell_data = [65], due = 7\<rparr>])"
    by (rule plan_identity [OF assms]; simp)+
  show "\<exists>m. mux_run ring_recv [(w, w), (w, w)] demo_events =
      Some (m, [ToConsumer 0 [], ToConsumer 0 [], ToConsumer 0 [1, 2], ToConsumer 1 [], ToConsumer 1 [],
        ToConsumer 1 [], ToDevice [65]]) \<and>
    m_published m = [[1, 2]] \<and> m_queue m = [] \<and> m_writer m = WIdle \<and>
    c_cursor (m_consumers m ! 0) = 1 \<and> c_lost (m_consumers m ! 0) = 0 \<and> t_pc (c_from (m_consumers m ! 1)) = Reading"
    by (simp add: mux_run_def demo_events_def mux_start_def mux_step_def reader_step_def consumer_step_def ring_recv_def
        BACKLOG_def TX_QUEUE_def to_consumer_def from_consumer_def pl task_step_def next_cell_def write_rest_def
        cell_written_def)
  from wire_wf_new [OF assms] show "wires_ok [(w, w), (w, w)]" by (simp add: wires_ok_def)
  show "drop_p w = 0" "corrupt_p w = 0"
    using assms by (auto simp: default_spec_def elim!: wire_newE)
qed

theorem mux_fanout_witness:
  "\<exists>w m outs. mux_run ring_recv [(w, w), (w, w)] demo_events = Some (m, outs) \<and>
     m_published m = [[1, 2]] \<and> port_of 0 outs = [1, 2] \<and> noise [1, 2] (port_of 0 outs)"
proof -
  obtain w where w: "wire_new default_spec 0 5 = Some w"
    by (simp add: wire_new_def wire_byte_time_def default_spec_def)
  from mux_demo [OF w] obtain m outs where m: "mux_run ring_recv [(w, w), (w, w)] demo_events = Some (m, outs)"
      "m_published m = [[1, 2]]" "c_cursor (m_consumers m ! 0) = 1" "c_lost (m_consumers m ! 0) = 0"
      "port_of 0 outs = [1, 2]" by fastforce
  from mux_fanout [OF m(1) ring.broadcast_axioms mux_demo(2) [OF w], of 0] m show ?thesis by fastforce
qed



end
