(* ===== verification/Task_Laws.thy ===== *)
theory Task_Laws
  imports Tasks
begin

text \<open>
  More laws of the forwarding loops of the theory Tasks: how \<open>write_all_fd\<close> of
  \<open>src/forge/pty.rs\<close>, a loop of system calls, refines the writing state of a loop, and why a loop
  can always deliver what it holds.
\<close>

section \<open>The write loop refines the writing state\<close>

text \<open>
  The events of a loop that the system calls of one \<open>write_all_fd\<close> amount to, \<open>k\<close> bytes being
  left: a turn in which the descriptor was not ready after all is none.
\<close>

fun write_events :: "instant \<Rightarrow> nat turn list \<Rightarrow> nat \<Rightarrow> (instant \<times> task_event) list" where
  "write_events now turns 0 = []"
| "write_events now [] (Suc k) = []"
| "write_events now ((Some e, _) # _) (Suc k) = [(now, Failed e)]"
| "write_events now ((None, IoOk n) # rest) (Suc k) = (now, Took n) # write_events now rest (Suc k - n)"
| "write_events now ((None, IoErr e) # rest) (Suc k) =
     (if e = WouldBlock then write_events now rest (Suc k) else [(now, Failed e)])"

text \<open>Where the call leaves the loop.\<close>

definition after_write :: "rules \<Rightarrow> instant \<Rightarrow> bytes \<Rightarrow> cell list \<Rightarrow> bytes \<times> unit io_result progress \<Rightarrow> task_pc" where
  "after_write rl now d cells r =
     (case snd r of
        Done (IoOk _) \<Rightarrow> cell_written rl cells
      | Done (IoErr _) \<Rightarrow> react (on_write_error rl) now
      | _ \<Rightarrow> Writing (drop (length (fst r)) d) cells)"

lemma write_refines:
  "snd (write_all_fd turns d) \<noteq> Panicked \<Longrightarrow>
   run_events (task_step rl) \<lparr>t_wire = w, t_pc = write_rest rl d cells\<rparr> (write_events now turns (length d)) =
     Some (\<lparr>t_wire = w, t_pc = after_write rl now d cells (write_all_fd turns d)\<rparr>, fst (write_all_fd turns d))"
proof (induction turns d rule: write_all_fd.induct)
  case (4 n turns b bs)
  then have n: "n \<le> length (b # bs)" by (auto split: if_splits)
  let ?d = "drop n (b # bs)"
  obtain x r where r: "write_all_fd turns ?d = (x, r)" by fastforce
  with 4 n have "run_events (task_step rl) \<lparr>t_wire = w, t_pc = write_rest rl ?d cells\<rparr> (write_events now turns (length ?d)) =
      Some (\<lparr>t_wire = w, t_pc = after_write rl now ?d cells (x, r)\<rparr>, x)" by auto
  moreover have "after_write rl now ?d cells (x, r) = after_write rl now (b # bs) cells (take n (b # bs) @ x, r)"
    using n by (auto simp: after_write_def min_def add.commute split: progress.split io_result.split)
  moreover have "task_step rl \<lparr>t_wire = w, t_pc = Writing (b # bs) cells\<rparr> (now, Took n) =
      Some (\<lparr>t_wire = w, t_pc = write_rest rl ?d cells\<rparr>, take n (b # bs))"
    using n by (simp add: task_step_def)
  ultimately have "run_events (task_step rl) \<lparr>t_wire = w, t_pc = Writing (b # bs) cells\<rparr>
      ((now, Took n) # write_events now turns (length ?d)) =
      Some (\<lparr>t_wire = w, t_pc = after_write rl now (b # bs) cells (take n (b # bs) @ x, r)\<rparr>, take n (b # bs) @ x)"
    by (intro run_events_Cons) simp_all
  with n r show ?case by (simp add: write_rest_def [of rl "b # bs"])
qed (auto simp: write_rest_def task_step_def after_write_def)

section \<open>A loop can always deliver what it holds\<close>

fun delivers :: "instant \<times> task_event \<Rightarrow> bool" where
  "delivers (now, Timer) = True"
| "delivers (now, Took n) = True"
| "delivers (now, Flushed r) = (r = IoOk ())"
| "delivers (now, Got r) = False"
| "delivers (now, Failed e) = False"

definition deliverable :: "task_pc \<Rightarrow> bool" where
  "deliverable p \<longleftrightarrow> p \<noteq> Crashed \<and> p \<noteq> Stopped \<and> p \<noteq> Sleeping []"

text \<open>From the point where the cells \<open>cs\<close> remain.\<close>

lemma cells_drain:
  "\<exists>later. list_all delivers later \<and>
     run_events (task_step rl) \<lparr>t_wire = w, t_pc = next_cell rl cs\<rparr> later =
       Some (\<lparr>t_wire = w, t_pc = Reading\<rparr>, concat (map cell_data cs))"
proof (induction cs)
  case Nil
  show ?case
  proof (cases "flushing rl = FlushChunks")
    case True
    then show ?thesis by (intro exI [of _ "[(0, Flushed (IoOk ()))]"]) (simp add: next_cell_def task_step_def)
  next
    case False
    then show ?thesis by (intro exI [of _ "[]"]) (simp add: next_cell_def)
  qed
next
  case (Cons c cs)
  then obtain later where l: "list_all delivers later"
    "run_events (task_step rl) \<lparr>t_wire = w, t_pc = next_cell rl cs\<rparr> later =
       Some (\<lparr>t_wire = w, t_pc = Reading\<rparr>, concat (map cell_data cs))" by blast
  let ?flush = "if flushing rl = FlushCells then [(0, Flushed (IoOk ()))] else []"
  have f: "run_events (task_step rl) \<lparr>t_wire = w, t_pc = cell_written rl cs\<rparr> (?flush @ later) =
      Some (\<lparr>t_wire = w, t_pc = Reading\<rparr>, concat (map cell_data cs))"
    using l(2) by (simp add: cell_written_def task_step_def)
  let ?took = "if cell_data c = [] then [] else [(0, Took (length (cell_data c)))]"
  have t: "run_events (task_step rl) \<lparr>t_wire = w, t_pc = write_rest rl (cell_data c) cs\<rparr> (?took @ ?flush @ later) =
      Some (\<lparr>t_wire = w, t_pc = Reading\<rparr>, cell_data c @ concat (map cell_data cs))"
    using f by (simp add: write_rest_def task_step_def)
  have "task_step rl \<lparr>t_wire = w, t_pc = next_cell rl (c # cs)\<rparr> (due c, Timer) =
      Some (\<lparr>t_wire = w, t_pc = write_rest rl (cell_data c) cs\<rparr>, [])"
    by (simp add: task_step_def next_cell_def)
  from run_events_Cons [OF this t] l(1) show ?case
    by (intro exI [of _ "(due c, Timer) # ?took @ ?flush @ later"]) simp
qed

lemma task_drains:
  assumes "deliverable (t_pc t)"
  shows "\<exists>later. list_all delivers later \<and>
    run_events (task_step rl) t later = Some (t\<lparr>t_pc := Reading\<rparr>, held (t_pc t))"
proof -
  obtain w p where t: "t = \<lparr>t_wire = w, t_pc = p\<rparr>" by (cases t)
  show ?thesis
  proof (cases p)
    case (Napping u)
    then show ?thesis by (intro exI [of _ "[(u, Timer)]"]) (simp add: t task_step_def)
  next
    case (Sleeping cs)
    with assms have "p = next_cell rl cs" by (simp add: t deliverable_def next_cell_def)
    with cells_drain [of rl w cs] Sleeping show ?thesis by (simp add: t held_def)
  next
    case (Writing d cs)
    let ?flush = "if flushing rl = FlushCells then [(0, Flushed (IoOk ()))] else []"
    from cells_drain [of rl w cs] obtain later where l: "list_all delivers later"
      "run_events (task_step rl) \<lparr>t_wire = w, t_pc = next_cell rl cs\<rparr> later =
         Some (\<lparr>t_wire = w, t_pc = Reading\<rparr>, concat (map cell_data cs))" by blast
    then show ?thesis using Writing
      by (intro exI [of _ "(0, Took (length d)) # ?flush @ later"])
        (simp add: t task_step_def write_rest_def cell_written_def held_def)
  next
    case (FlushingCell cs)
    from cells_drain [of rl w cs] obtain later where l: "list_all delivers later"
      "run_events (task_step rl) \<lparr>t_wire = w, t_pc = next_cell rl cs\<rparr> later =
         Some (\<lparr>t_wire = w, t_pc = Reading\<rparr>, concat (map cell_data cs))" by blast
    then show ?thesis using FlushingCell
      by (intro exI [of _ "(0, Flushed (IoOk ())) # later"]) (simp add: t task_step_def held_def)
  next
    case FlushingChunk
    then show ?thesis
      by (intro exI [of _ "[(0, Flushed (IoOk ()))]"]) (simp add: t task_step_def held_def)
  next
    case Reading
    then show ?thesis by (intro exI [of _ "[]"]) (simp add: t)
  qed (use assms in \<open>simp_all add: t deliverable_def\<close>)
qed

lemma next_cell_deliverable [simp]:
  "deliverable (next_cell rl cs)" "deliverable (cell_written rl cs)" "deliverable (write_rest rl d cs)"
  by (simp_all add: deliverable_def next_cell_def cell_written_def write_rest_def)

text \<open>A pump never stops by itself: only a panic in \<open>plan\<close> ends it.\<close>

definition endless :: "rules \<Rightarrow> bool" where
  "endless rl \<longleftrightarrow> on_empty rl \<noteq> Quit \<and> on_read_error rl \<noteq> Quit \<and> on_write_error rl \<noteq> Quit"

lemma react_deliverable [simp]: "r \<noteq> Quit \<Longrightarrow> deliverable (react r now)"
  by (cases r) (simp_all add: deliverable_def react_def)

lemma deliverable_step:
  assumes "endless rl" "deliverable (t_pc t) \<or> t_pc t = Crashed" "task_step rl t e = Some (t', out)"
  shows "deliverable (t_pc t') \<or> t_pc t' = Crashed"
proof -
  have r: "deliverable Reading" by (simp add: deliverable_def)
  obtain now ev where "e = (now, ev)" by fastforce
  with assms r show ?thesis
    unfolding task_step_def endless_def
    by (auto split: task_pc.splits task_event.splits io_result.splits if_splits option.splits list.splits prod.splits)
qed

interpretation endless_loop: traced "task_step rl" "\<lambda>_. True"
    "\<lambda>t es out. endless rl \<longrightarrow> deliverable (t_pc t) \<or> t_pc t = Crashed" for rl
  by unfold_locales (use deliverable_step in blast)

lemma pump_endless: "endless pump"
  by (simp add: endless_def pump_def)

lemma pump_deliverable:
  assumes "task_run pump w es = Some (t, out)" "t_pc t \<noteq> Crashed"
  shows "deliverable (t_pc t)"
  using endless_loop.inv_run [of pump "\<lparr>t_wire = w, t_pc = Reading\<rparr>" es t out] assms pump_endless
  by (simp add: task_run_def list_all_iff deliverable_def)

section \<open>Properties\<close>

text \<open>
  (C20) \<open>write_all_fd\<close> refines the loops' writing state: whatever the system calls answer -- part of
  the bytes taken, not ready after all, an error -- as long as the kernel never claims more than it
  was given, the call writes what the corresponding events write, and it returns, waits or fails
  exactly where they take the loop.
\<close>

theorem write_loop_refines:
  assumes "snd (write_all_fd turns d) \<noteq> Panicked" and "d \<noteq> []"
  shows "run_events (task_step rl) \<lparr>t_wire = w, t_pc = Writing d cells\<rparr> (write_events now turns (length d)) =
    Some (\<lparr>t_wire = w, t_pc = after_write rl now d cells (write_all_fd turns d)\<rparr>, fst (write_all_fd turns d))"
  using write_refines [OF assms(1), of rl w cells now] assms(2) by (simp add: write_rest_def)

theorem write_loop_refines_witness:
  "run_events (task_step pump) \<lparr>t_wire = brisk_wire, t_pc = Writing [1, 2, 3] []\<rparr>
     (write_events 5 [(None, IoOk 2), (None, IoErr WouldBlock), (None, IoOk 1)] 3) =
   Some (\<lparr>t_wire = brisk_wire, t_pc = Reading\<rparr>, [1, 2, 3])"
  using write_loop_refines [of "[(None, IoOk 2), (None, IoErr WouldBlock), (None, IoOk 1)]" "[1, 2, 3]" pump brisk_wire "[]" 5]
  by (simp add: after_write_def cell_written_def next_cell_def pump_def numeral_3_eq_3)

end
