(* ===== verification/Null_Modem.thy ===== *)
theory Null_Modem
  imports Task_Laws
begin

text \<open>
  The null modem (\<open>run\<close> of \<open>src/forge/pair.rs\<close>, once both links are published): two pumps, one
  for each direction, and the select loop that keeps both ports raw until a signal.  It is the
  product of its two pumps, whatever the interleaving, and what one has read it can always
  deliver.
\<close>

section \<open>The machine\<close>

record null_modem =
  nm_a :: virtual_port
  nm_b :: virtual_port
  nm_ab :: task
  nm_ba :: task
  nm_open :: bool

datatype modem_event = FromA task_event | FromB task_event | Tick | Signalled

datatype modem_out = IntoA bytes | IntoB bytes

definition modem_start :: "wire \<times> wire \<Rightarrow> virtual_port \<Rightarrow> virtual_port \<Rightarrow> null_modem" where
  "modem_start wires a b =
     \<lparr>nm_a = a, nm_b = b, nm_ab = \<lparr>t_wire = fst wires, t_pc = Reading\<rparr>,
      nm_ba = \<lparr>t_wire = snd wires, t_pc = Reading\<rparr>, nm_open = True\<rparr>"

definition modem_step :: "libc \<Rightarrow> null_modem \<Rightarrow> instant \<times> modem_event \<Rightarrow> (null_modem \<times> modem_out list) option" where
  "modem_step lc m ev =
     (case ev of (now, e) \<Rightarrow>
      if \<not> nm_open m then None
      else (case e of
        FromA te \<Rightarrow> map_option (\<lambda>(t, out). (m\<lparr>nm_ab := t\<rparr>, [IntoB out])) (task_step pump (nm_ab m) (now, te))
      | FromB te \<Rightarrow> map_option (\<lambda>(t, out). (m\<lparr>nm_ba := t\<rparr>, [IntoA out])) (task_step pump (nm_ba m) (now, te))
      | Tick \<Rightarrow>
          Some (m\<lparr>nm_a := snd (reassert_raw_if_needed lc (nm_a m)), nm_b := snd (reassert_raw_if_needed lc (nm_b m))\<rparr>, [])
      | Signalled \<Rightarrow> Some (m\<lparr>nm_open := False\<rparr>, [])))"

definition modem_run ::
    "libc \<Rightarrow> wire \<times> wire \<Rightarrow> virtual_port \<Rightarrow> virtual_port \<Rightarrow> (instant \<times> modem_event) list \<Rightarrow> (null_modem \<times> modem_out list) option" where
  "modem_run lc wires a b = run_events (modem_step lc) (modem_start wires a b)"

section \<open>What a run shows\<close>

fun event_at_a :: "instant \<times> modem_event \<Rightarrow> (instant \<times> task_event) list" where
  "event_at_a (now, FromA te) = [(now, te)]"
| "event_at_a _ = []"

fun event_at_b :: "instant \<times> modem_event \<Rightarrow> (instant \<times> task_event) list" where
  "event_at_b (now, FromB te) = [(now, te)]"
| "event_at_b _ = []"

definition at_a :: "(instant \<times> modem_event) list \<Rightarrow> (instant \<times> task_event) list" where
  "at_a es = concat (map event_at_a es)"

definition at_b :: "(instant \<times> modem_event) list \<Rightarrow> (instant \<times> task_event) list" where
  "at_b es = concat (map event_at_b es)"

definition into_a :: "modem_out list \<Rightarrow> bytes" where
  "into_a outs = concat (map (\<lambda>x. case x of IntoA d \<Rightarrow> d | IntoB d \<Rightarrow> []) outs)"

definition into_b :: "modem_out list \<Rightarrow> bytes" where
  "into_b outs = concat (map (\<lambda>x. case x of IntoA d \<Rightarrow> [] | IntoB d \<Rightarrow> d) outs)"

lemma modem_history [simp]:
  "at_a [] = []" "at_a (e # es) = event_at_a e @ at_a es" "at_a (es @ fs) = at_a es @ at_a fs"
  "at_b [] = []" "at_b (e # es) = event_at_b e @ at_b es" "at_b (es @ fs) = at_b es @ at_b fs"
  "into_a [] = []" "into_a (IntoA d # outs) = d @ into_a outs" "into_a (IntoB d # outs) = into_a outs"
  "into_a (outs @ outs') = into_a outs @ into_a outs'"
  "into_b [] = []" "into_b (IntoB d # outs) = d @ into_b outs" "into_b (IntoA d # outs) = into_b outs"
  "into_b (outs @ outs') = into_b outs @ into_b outs'"
  by (simp_all add: at_a_def at_b_def into_a_def into_b_def)

lemma at_pure [simp]:
  "at_a (map (\<lambda>(now, e). (now, FromA e)) es) = es" "at_b (map (\<lambda>(now, e). (now, FromA e)) es) = []"
  "at_a (map (\<lambda>(now, e). (now, FromB e)) es) = []" "at_b (map (\<lambda>(now, e). (now, FromB e)) es) = es"
  by (induction es) auto

section \<open>The product of two pumps\<close>

text \<open>A run from any open state decomposes into the runs of its pumps, and they compose to a run.\<close>

lemma modem_parts:
  "run_events (modem_step lc) m es = Some (m', outs) \<Longrightarrow>
   run_events (task_step pump) (nm_ab m) (at_a es) = Some (nm_ab m', into_b outs) \<and>
   run_events (task_step pump) (nm_ba m) (at_b es) = Some (nm_ba m', into_a outs)"
proof (induction es arbitrary: m outs)
  case (Cons ev es)
  obtain now e where ev: "ev = (now, e)" by fastforce
  from Cons.prems obtain m1 o1 o2 where s: "modem_step lc m (now, e) = Some (m1, o1)"
    "run_events (modem_step lc) m1 es = Some (m', o2)" "outs = o1 @ o2"
    by (auto simp: ev split: bind_splits)
  from Cons.IH [OF s(2)] s(1,3) show ?case
    by (cases e) (auto simp: ev modem_step_def split: if_splits)
qed simp

lemma modem_compose:
  "nm_open m \<Longrightarrow> list_all (\<lambda>(now, e). e \<noteq> Signalled) es \<Longrightarrow>
   run_events (task_step pump) (nm_ab m) (at_a es) = Some (t, x) \<Longrightarrow>
   run_events (task_step pump) (nm_ba m) (at_b es) = Some (u, y) \<Longrightarrow>
   \<exists>m' outs. run_events (modem_step lc) m es = Some (m', outs) \<and> nm_open m'"
proof (induction es arbitrary: m x y)
  case (Cons ev es)
  obtain now e where ev: "ev = (now, e)" by fastforce
  have "\<exists>m1 o1 x' y'. modem_step lc m ev = Some (m1, o1) \<and> nm_open m1 \<and>
      run_events (task_step pump) (nm_ab m1) (at_a es) = Some (t, x') \<and>
      run_events (task_step pump) (nm_ba m1) (at_b es) = Some (u, y')"
    using Cons.prems by (cases e) (auto simp: ev modem_step_def split: bind_splits)
  then obtain m1 o1 x' y' where s: "modem_step lc m ev = Some (m1, o1)" "nm_open m1"
    "run_events (task_step pump) (nm_ab m1) (at_a es) = Some (t, x')"
    "run_events (task_step pump) (nm_ba m1) (at_b es) = Some (u, y')" by blast
  from Cons.IH [OF s(2) _ s(3,4)] Cons.prems(2) s(1) show ?case by auto
qed simp

lemma modem_started: "nm_open (modem_start wires a b)" "nm_ab (modem_start wires a b) = \<lparr>t_wire = fst wires, t_pc = Reading\<rparr>"
    "nm_ba (modem_start wires a b) = \<lparr>t_wire = snd wires, t_pc = Reading\<rparr>"
  by (simp_all add: modem_start_def)

section \<open>Properties\<close>


text \<open>
  (C10) Every byte survives the cable, both ways: on clean wires, whatever has happened as long as
  no write failed and neither pump panicked, the rest is only a matter of time and of the readers:
  there is a continuation, in which nothing more is read, after which each port has been given
  exactly the bytes read from the other one, in order.
\<close>

theorem null_modem_delivers:
  assumes "modem_run lc (wire_ab, wire_ba) a b es = Some (m, outs)" and "nm_open m"
    and "wire_wf wire_ab" and "wire_wf wire_ba"
    and "drop_p wire_ab \<le> 0" and "corrupt_p wire_ab \<le> 0" and "drop_p wire_ba \<le> 0" and "corrupt_p wire_ba \<le> 0"
    and "no_write_error (at_a es)" and "no_write_error (at_b es)"
    and "t_pc (nm_ab m) \<noteq> Crashed" and "t_pc (nm_ba m) \<noteq> Crashed"
  shows "\<exists>later m' outs'. list_all delivers (at_a later @ at_b later) \<and>
    modem_run lc (wire_ab, wire_ba) a b (es @ later) = Some (m', outs @ outs') \<and>
    into_b (outs @ outs') = bytes_read (at_a es) \<and> into_a (outs @ outs') = bytes_read (at_b es) \<and>
    t_pc (nm_ab m') = Reading \<and> t_pc (nm_ba m') = Reading"
proof -
  from modem_parts [OF assms(1) [unfolded modem_run_def]] have p: "task_run pump wire_ab (at_a es) = Some (nm_ab m, into_b outs)"
    "task_run pump wire_ba (at_b es) = Some (nm_ba m, into_a outs)" by (simp_all add: task_run_def modem_started)
  from all_times obtain T where "list_all (\<lambda>(now :: instant, e). now \<le> T) (at_a es)" by blast
  from forwarded_clean [OF task_forwarded [OF p(1) assms(3) this] assms(3,5,6,9,11)]
  have a: "bytes_read (at_a es) = into_b outs @ held (t_pc (nm_ab m))" .
  from all_times obtain T' where "list_all (\<lambda>(now :: instant, e). now \<le> T') (at_b es)" by blast
  from forwarded_clean [OF task_forwarded [OF p(2) assms(4) this] assms(4,7,8,10,12)]
  have b: "bytes_read (at_b es) = into_a outs @ held (t_pc (nm_ba m))" .
  from task_drains [OF pump_deliverable [OF p(1) assms(11)]] obtain la where la: "list_all delivers la"
    "run_events (task_step pump) (nm_ab m) la = Some ((nm_ab m)\<lparr>t_pc := Reading\<rparr>, held (t_pc (nm_ab m)))" by blast
  from task_drains [OF pump_deliverable [OF p(2) assms(12)]] obtain lb where lb: "list_all delivers lb"
    "run_events (task_step pump) (nm_ba m) lb = Some ((nm_ba m)\<lparr>t_pc := Reading\<rparr>, held (t_pc (nm_ba m)))" by blast
  let ?later = "map (\<lambda>(now, e). (now, FromA e)) la @ map (\<lambda>(now, e). (now, FromB e)) lb"
  have l: "at_a ?later = la" "at_b ?later = lb" "list_all (\<lambda>(now, e). e \<noteq> Signalled) ?later"
    by (auto simp: list_all_iff)
  from modem_compose [OF assms(2) l(3)] la(2) lb(2) obtain m' outs' where
    m': "run_events (modem_step lc) m ?later = Some (m', outs')" unfolding l(1,2) by blast
  from modem_parts [OF this] la(2) lb(2) have o: "into_b outs' = held (t_pc (nm_ab m))" "into_a outs' = held (t_pc (nm_ba m))"
    "nm_ab m' = (nm_ab m)\<lparr>t_pc := Reading\<rparr>" "nm_ba m' = (nm_ba m)\<lparr>t_pc := Reading\<rparr>" unfolding l(1,2) by simp_all
  have "modem_run lc (wire_ab, wire_ba) a b (es @ ?later) = Some (m', outs @ outs')"
    unfolding modem_run_def by (rule run_events_then [OF assms(1) [unfolded modem_run_def] m'])
  moreover have "list_all delivers (at_a ?later @ at_b ?later)" using l la(1) lb(1) by simp
  ultimately show ?thesis using a b o by (intro exI [of _ ?later] exI [of _ m'] exI [of _ outs']) simp
qed

text \<open>Both ways at once, interleaved, with a tick of the watchdog in between.\<close>

definition demo_modem :: "(instant \<times> modem_event) list" where
  "demo_modem = [(7, FromA (Got (IoOk [1, 255, 0]))), (7, Tick), (7, FromB (Got (IoOk [17]))), (8, FromA Timer),
     (9, FromA (Took 1))]"

lemma modem_demo:
  assumes "wire_new default_spec 0 5 = Some w"
  shows "\<exists>m. modem_run linux_libc (w, w) (plain_port cooked_tio) (plain_port cooked_tio) demo_modem =
      Some (m, [IntoB [], IntoA [], IntoB [], IntoB [1]]) \<and> nm_open m \<and>
    t_pc (nm_ab m) \<noteq> Crashed \<and> t_pc (nm_ba m) \<noteq> Crashed"
proof -
  have "plan w 7 [1, 255, 0] = Some (w\<lparr>cursor := 7\<rparr>, [\<lparr>cell_data = [1, 255, 0], due = 7\<rparr>])"
    "plan w 7 [17] = Some (w\<lparr>cursor := 7\<rparr>, [\<lparr>cell_data = [17], due = 7\<rparr>])"
    by (rule plan_identity [OF assms]; simp)+
  then show ?thesis
    by (simp add: modem_run_def demo_modem_def modem_start_def modem_step_def task_step_def pump_def next_cell_def
        write_rest_def cell_written_def)
qed


theorem null_modem_delivers_witness:
  "\<exists>w m outs later. modem_run linux_libc (w, w) (plain_port cooked_tio) (plain_port cooked_tio) (demo_modem @ later) =
     Some (m, outs) \<and> into_b outs = [1, 255, 0] \<and> into_a outs = [17]"
proof -
  obtain w where w: "wire_new default_spec 0 5 = Some w"
    by (simp add: wire_new_def wire_byte_time_def default_spec_def)
  from modem_demo [OF w] obtain m outs where m:
    "modem_run linux_libc (w, w) (plain_port cooked_tio) (plain_port cooked_tio) demo_modem = Some (m, outs)" "nm_open m"
    "t_pc (nm_ab m) \<noteq> Crashed" "t_pc (nm_ba m) \<noteq> Crashed" by blast
  have d: "no_write_error (at_a demo_modem)" "no_write_error (at_b demo_modem)"
    "bytes_read (at_a demo_modem) = [1, 255, 0]" "bytes_read (at_b demo_modem) = [17]"
    by (simp_all add: demo_modem_def no_write_error_def bytes_read_def)
  note p = pump_demo(2-4) [OF w]
  from null_modem_delivers [OF m(1,2) p(1,1) _ _ _ _ d(1,2) m(3,4)] p(2,3) d(3,4) show ?thesis by fastforce
qed

end
