(* ===== verification/Link.thy ===== *)
theory Link
  imports Failure
begin

text \<open>
  Publishing a port: the symlink, its \<open>.pid\<close> sidecar and the reclaiming of stale links
  (\<open>Link\<close>, \<open>try_claim_link\<close> and their helpers in \<open>src/forge/pty.rs\<close>), over a model of the
  file system calls they make.  A claim that never returns is \<open>None\<close>.
\<close>

section \<open>Files and processes\<close>

text \<open>
  A path holds a symlink, a readable text file or something else.  \<open>create_err\<close> is the error a
  creation at a free path fails with, \<open>removable\<close> whether an unlink succeeds (permissions, a
  sticky directory), \<open>write_err\<close> the error of \<open>fs::write\<close>, and \<open>write_left\<close> what a failed write
  has left in the file, if it had already been created or truncated (a full disk).
\<close>

datatype entry = Symlink rstring | File rstring | OtherEntry

record fs =
  entries :: "rstring \<Rightarrow> entry option"
  create_err :: "rstring \<Rightarrow> io_error option"
  removable :: "rstring \<Rightarrow> bool"
  write_err :: "rstring \<Rightarrow> io_error option"
  write_left :: "rstring \<Rightarrow> rstring option"

definition symlink :: "rstring \<Rightarrow> rstring \<Rightarrow> fs \<Rightarrow> unit io_result \<times> fs" where
  "symlink target link fs =
     (if entries fs link \<noteq> None then (IoErr AlreadyExists, fs)
      else (case create_err fs link of
              Some e \<Rightarrow> (IoErr e, fs)
            | None \<Rightarrow> (IoOk (), fs\<lparr>entries := (entries fs)(link \<mapsto> Symlink target)\<rparr>)))"

definition remove_file :: "rstring \<Rightarrow> fs \<Rightarrow> fs" where
  "remove_file path fs =
     (if removable fs path then fs\<lparr>entries := (entries fs)(path := None)\<rparr> else fs)"

text \<open>
  Reading and writing go through symlinks, up to the 40 Linux allows; a relative target is taken in
  the directory of the link.  A write through a dangling link creates its target.
\<close>

definition beside :: "rstring \<Rightarrow> rstring \<Rightarrow> rstring" where
  "beside link t = (if take 1 t = [47] then t else rev (dropWhile (\<lambda>c. c \<noteq> 47) (rev link)) @ t)"

fun follow :: "nat \<Rightarrow> (rstring \<Rightarrow> entry option) \<Rightarrow> rstring \<Rightarrow> rstring option" where
  "follow 0 m p = None"
| "follow (Suc n) m p = (case m p of Some (Symlink t) \<Rightarrow> follow n m (beside p t) | _ \<Rightarrow> Some p)"

definition read_to_string :: "rstring \<Rightarrow> fs \<Rightarrow> rstring option" where
  "read_to_string path fs =
     (case follow 40 (entries fs) path of
        None \<Rightarrow> None
      | Some p \<Rightarrow> (case entries fs p of Some (File c) \<Rightarrow> Some c | _ \<Rightarrow> None))"

text \<open>What is neither a file nor free (a device, a pipe) takes the bytes and stays what it is.\<close>

definition put_file :: "rstring \<Rightarrow> rstring \<Rightarrow> fs \<Rightarrow> fs" where
  "put_file p c fs =
     (if entries fs p = Some OtherEntry then fs else fs\<lparr>entries := (entries fs)(p \<mapsto> File c)\<rparr>)"

definition ELOOP :: nat where "ELOOP = 40"

definition write_file :: "rstring \<Rightarrow> rstring \<Rightarrow> fs \<Rightarrow> unit io_result \<times> fs" where
  "write_file path c fs =
     (case follow 40 (entries fs) path of
        None \<Rightarrow> (IoErr (OtherErr ELOOP), fs)
      | Some p \<Rightarrow>
          (case write_err fs p of
             Some e \<Rightarrow> (IoErr e, case write_left fs p of None \<Rightarrow> fs | Some c' \<Rightarrow> put_file p c' fs)
           | None \<Rightarrow> (IoOk (), put_file p c fs)))"

lemma follow_plain: "(\<And>t. m p \<noteq> Some (Symlink t)) \<Longrightarrow> follow (numeral n) m p = Some p"
  by (subst numeral_eq_Suc) (auto split: option.split entry.split)

text \<open>The process table: what \<open>kill(pid, 0)\<close> answers (\<open>None\<close> is success), and our own pid.\<close>

record procs =
  kill0 :: "int \<Rightarrow> nat option"
  ESRCH :: nat
  self_pid :: nat

section \<open>Claiming\<close>

definition sidecar :: "rstring \<Rightarrow> rstring" where
  "sidecar path = path @ chars ''.pid''"

definition default_link :: "rstring \<Rightarrow> nat \<Rightarrow> rstring" where
  "default_link tag n =
     (if n = 1 then chars ''/tmp/ttyforge-'' @ tag @ chars ''.pty''
      else chars ''/tmp/ttyforge-'' @ tag @ chars ''-'' @ chars (decimal n) @ chars ''.pty'')"

definition process_alive :: "procs \<Rightarrow> int \<Rightarrow> bool" where
  "process_alive os pid = (case kill0 os pid of None \<Rightarrow> True | Some errno \<Rightarrow> errno \<noteq> ESRCH os)"

definition pid_sidecar_is_stale :: "rstring option \<Rightarrow> (int \<Rightarrow> bool) \<Rightarrow> bool option" where
  "pid_sidecar_is_stale contents probe =
     (case contents of
        None \<Rightarrow> None
      | Some c \<Rightarrow> (case parse_i32 (trim c) of None \<Rightarrow> None | Some pid \<Rightarrow> Some (\<not> probe pid)))"

definition reclaim_if_stale :: "procs \<Rightarrow> rstring \<Rightarrow> fs \<Rightarrow> bool \<times> fs" where
  "reclaim_if_stale os link fs =
     (if pid_sidecar_is_stale (read_to_string (sidecar link) fs) (process_alive os) = Some True
      then (True, remove_file (sidecar link) (remove_file link fs))
      else (False, fs))"

partial_function (option) try_claim_link ::
    "procs \<Rightarrow> rstring \<Rightarrow> rstring \<Rightarrow> fs \<Rightarrow> ((error + bool) \<times> fs) option" where
  "try_claim_link os link slave fs =
     (case symlink slave link fs of
        (IoOk _, fs') \<Rightarrow> Some (Inr True, fs')
      | (IoErr e, fs') \<Rightarrow>
          if e = AlreadyExists then
            (case reclaim_if_stale os link fs' of
               (again, fs'') \<Rightarrow> if again then try_claim_link os link slave fs'' else Some (Inr False, fs''))
          else Some (Inl [SetupError, Msg (chars ''symlink '' @ link), Os e], fs'))"

fun claim_first ::
    "procs \<Rightarrow> rstring \<Rightarrow> rstring \<Rightarrow> nat list \<Rightarrow> fs \<Rightarrow> ((error + rstring option) \<times> fs) option" where
  "claim_first os tag slave [] fs = Some (Inr None, fs)"
| "claim_first os tag slave (n # ns) fs =
     (case try_claim_link os (default_link tag n) slave fs of
        None \<Rightarrow> None
      | Some (Inl e, fs') \<Rightarrow> Some (Inl e, fs')
      | Some (Inr claimed, fs') \<Rightarrow>
          if claimed then Some (Inr (Some (default_link tag n)), fs')
          else claim_first os tag slave ns fs')"

definition claim_path ::
    "procs \<Rightarrow> rstring option \<Rightarrow> rstring \<Rightarrow> rstring \<Rightarrow> fs \<Rightarrow> ((error + rstring) \<times> fs) option" where
  "claim_path os explicit tag slave fs =
     (case explicit of
        Some p \<Rightarrow>
          (case try_claim_link os p slave fs of
             None \<Rightarrow> None
           | Some (Inl e, fs') \<Rightarrow> Some (Inl e, fs')
           | Some (Inr claimed, fs') \<Rightarrow>
               if claimed then Some (Inr p, fs')
               else Some (Inl [SetupError, Msg (chars ''--link '' @ p @ chars '' is busy (claimed by a live process)'')], fs'))
      | None \<Rightarrow>
          (case claim_first os tag slave [1..<10000] fs of
             None \<Rightarrow> None
           | Some (Inl e, fs') \<Rightarrow> Some (Inl e, fs')
           | Some (Inr None, fs') \<Rightarrow>
               Some (Inl [SetupError, Msg (chars ''no free /tmp/ttyforge-'' @ tag @ chars ''*.pty slot (9999 in use?)'')], fs')
           | Some (Inr (Some p), fs') \<Rightarrow> Some (Inr p, fs')))"

definition claim ::
    "procs \<Rightarrow> rstring option \<Rightarrow> rstring \<Rightarrow> rstring \<Rightarrow> fs \<Rightarrow> ((error + rstring) \<times> fs) option" where
  "claim os explicit tag slave fs =
     (case claim_path os explicit tag slave fs of
        None \<Rightarrow> None
      | Some (Inl e, fs') \<Rightarrow> Some (Inl e, fs')
      | Some (Inr path, fs') \<Rightarrow>
          (case write_file (sidecar path) (chars (decimal (self_pid os))) fs' of
             (IoErr e, fs'') \<Rightarrow>
               Some (Inl [SetupError, Msg (chars ''write '' @ sidecar path), Os e], remove_file path fs'')
           | (IoOk _, fs'') \<Rightarrow> Some (Inr path, fs'')))"

text \<open>\<open>Drop for Link\<close>.\<close>

definition link_drop :: "rstring \<Rightarrow> fs \<Rightarrow> fs" where
  "link_drop path fs = remove_file (sidecar path) (remove_file path fs)"

section \<open>One attempt\<close>

definition stale :: "procs \<Rightarrow> fs \<Rightarrow> rstring \<Rightarrow> bool" where
  "stale os fs link \<longleftrightarrow>
     pid_sidecar_is_stale (read_to_string (sidecar link) fs) (process_alive os) = Some True"

lemma sidecar_neq [simp]: "sidecar path \<noteq> path" "path \<noteq> sidecar path"
  by (simp_all add: sidecar_def)

lemma sidecar_inj [simp]: "sidecar p = sidecar q \<longleftrightarrow> p = q"
  by (simp add: sidecar_def)

text \<open>Nothing but a file is where the sidecar of \<open>link\<close> goes.\<close>

definition regular_at :: "fs \<Rightarrow> rstring \<Rightarrow> bool" where
  "regular_at fs link \<longleftrightarrow> (case entries fs (sidecar link) of None \<Rightarrow> True | Some (File _) \<Rightarrow> True | _ \<Rightarrow> False)"

lemma regular_cong: "entries fs (sidecar link) = entries fs' (sidecar link) \<Longrightarrow> regular_at fs link = regular_at fs' link"
  by (simp add: regular_at_def)

lemma regular_link [simp]: "regular_at (fs\<lparr>entries := (entries fs)(p \<mapsto> x)\<rparr>) p = regular_at fs p"
  by (simp add: regular_at_def)

lemma read_sidecar:
  "regular_at fs link \<Longrightarrow> read_to_string (sidecar link) fs = (case entries fs (sidecar link) of Some (File c) \<Rightarrow> Some c | _ \<Rightarrow> None)"
  by (subst read_to_string_def, subst follow_plain) (auto simp: regular_at_def)

lemma write_sidecar:
  "regular_at fs link \<Longrightarrow> write_file (sidecar link) c fs =
     (case write_err fs (sidecar link) of
        Some e \<Rightarrow> (IoErr e, case write_left fs (sidecar link) of None \<Rightarrow> fs
                      | Some c' \<Rightarrow> fs\<lparr>entries := (entries fs)(sidecar link \<mapsto> File c')\<rparr>)
      | None \<Rightarrow> (IoOk (), fs\<lparr>entries := (entries fs)(sidecar link \<mapsto> File c)\<rparr>))"
  by (subst write_file_def, subst follow_plain) (auto simp: regular_at_def put_file_def split: option.split)

lemma stale_cong:
  "entries fs (sidecar link) = entries fs' (sidecar link) \<Longrightarrow> regular_at fs link \<Longrightarrow> stale os fs link = stale os fs' link"
  using regular_cong [of fs link fs'] by (simp add: stale_def read_sidecar)

lemma stale_has_sidecar: "stale os fs link \<Longrightarrow> entries fs (sidecar link) \<noteq> None"
proof
  assume s: "stale os fs link" "entries fs (sidecar link) = None"
  then have "read_to_string (sidecar link) fs = None" by (simp add: read_to_string_def follow_plain)
  with s(1) show False by (simp add: stale_def pid_sidecar_is_stale_def)
qed

lemma remove_file_simps [simp]:
  "entries (remove_file p fs) = (if removable fs p then (entries fs)(p := None) else entries fs)"
  "create_err (remove_file p fs) = create_err fs" "removable (remove_file p fs) = removable fs"
  "write_err (remove_file p fs) = write_err fs" "write_left (remove_file p fs) = write_left fs"
  by (simp_all add: remove_file_def)

lemma reclaim_eq:
  "reclaim_if_stale os link fs = (if stale os fs link then (True, link_drop link fs) else (False, fs))"
  by (simp add: reclaim_if_stale_def stale_def link_drop_def)

lemma try_claim_busy:
  "entries fs link \<noteq> None \<Longrightarrow> \<not> stale os fs link \<Longrightarrow> try_claim_link os link slave fs = Some (Inr False, fs)"
  by (subst try_claim_link.simps) (simp add: symlink_def reclaim_eq)

lemma try_claim_stale:
  "entries fs link \<noteq> None \<Longrightarrow> stale os fs link \<Longrightarrow>
   try_claim_link os link slave fs = try_claim_link os link slave (link_drop link fs)"
  by (subst try_claim_link.simps) (simp add: symlink_def reclaim_eq)

text \<open>
  A file system is sane when the kernel does not answer \<open>AlreadyExists\<close> at a free path.
\<close>

definition fs_ok :: "fs \<Rightarrow> bool" where
  "fs_ok fs \<longleftrightarrow> (\<forall>p. create_err fs p \<noteq> Some AlreadyExists)"

lemma try_claim_free:
  assumes "entries fs link = None" "fs_ok fs"
  shows "create_err fs link = None \<Longrightarrow> try_claim_link os link slave fs =
      Some (Inr True, fs\<lparr>entries := (entries fs)(link \<mapsto> Symlink slave)\<rparr>)"
    and "create_err fs link = Some e \<Longrightarrow> try_claim_link os link slave fs =
      Some (Inl [SetupError, Msg (chars ''symlink '' @ link), Os e], fs)"
proof -
  have "create_err fs link \<noteq> Some AlreadyExists" using assms(2) by (simp add: fs_ok_def)
  then show "create_err fs link = None \<Longrightarrow> try_claim_link os link slave fs =
      Some (Inr True, fs\<lparr>entries := (entries fs)(link \<mapsto> Symlink slave)\<rparr>)"
    and "create_err fs link = Some e \<Longrightarrow> try_claim_link os link slave fs =
      Some (Inl [SetupError, Msg (chars ''symlink '' @ link), Os e], fs)"
    using assms(1) by (subst try_claim_link.simps; simp add: symlink_def)+
qed

lemma fs_ok_drop [simp]: "fs_ok (link_drop p fs) = fs_ok fs"
  by (simp add: fs_ok_def link_drop_def)

text \<open>The loop never ends exactly when neither the stale link nor its sidecar can be removed.\<close>

definition stuck :: "procs \<Rightarrow> fs \<Rightarrow> rstring \<Rightarrow> bool" where
  "stuck os fs link \<longleftrightarrow> entries fs link \<noteq> None \<and> stale os fs link \<and>
     \<not> removable fs link \<and> \<not> removable fs (sidecar link)"

lemma stuck_drop: "stuck os fs link \<Longrightarrow> link_drop link fs = fs"
  by (simp add: stuck_def link_drop_def remove_file_def)

lemma try_claim_stuck:
  assumes "stuck os fs link"
  shows "try_claim_link os link slave fs = None"
proof -
  have "\<not> stuck os fs link" if "try_claim_link os link slave fs = Some r" for r
  proof (rule try_claim_link.raw_induct [where P = "\<lambda>os link slave fs r. \<not> stuck os fs link", OF _ that])
    fix tcl :: "procs \<Rightarrow> rstring \<Rightarrow> rstring \<Rightarrow> fs \<Rightarrow> ((error + bool) \<times> fs) option"
    fix os link slave fs r
    assume IH: "\<And>os link slave fs r. tcl os link slave fs = Some r \<Longrightarrow> \<not> stuck os fs link"
    assume body: "(case symlink slave link fs of
        (IoOk _, fs') \<Rightarrow> Some (Inr True, fs')
      | (IoErr e, fs') \<Rightarrow>
          if e = AlreadyExists then
            (case reclaim_if_stale os link fs' of
               (again, fs'') \<Rightarrow> if again then tcl os link slave fs'' else Some (Inr False, fs''))
          else Some (Inl [SetupError, Msg (chars ''symlink '' @ link), Os e], fs')) = Some r"
    show "\<not> stuck os fs link"
    proof
      assume s: "stuck os fs link"
      then have "entries fs link \<noteq> None" "reclaim_if_stale os link fs = (True, fs)"
        by (simp_all add: reclaim_eq stuck_drop) (simp_all add: stuck_def)
      with body have "tcl os link slave fs = Some r" by (simp add: symlink_def)
      from IH [OF this] s show False by blast
    qed
  qed
  with assms show ?thesis by (cases "try_claim_link os link slave fs") blast+
qed

lemma try_claim_result:
  assumes "fs_ok fs" "\<not> stuck os fs link"
  obtains (claimed) "create_err fs link = None" "entries fs link = None \<or> stale os fs link"
      "try_claim_link os link slave fs = Some (Inr True,
         if entries fs link = None then fs\<lparr>entries := (entries fs)(link \<mapsto> Symlink slave)\<rparr>
         else (link_drop link fs)\<lparr>entries := (entries (link_drop link fs))(link \<mapsto> Symlink slave)\<rparr>)"
  | (failed) e where "create_err fs link = Some e" "entries fs link = None \<or> stale os fs link"
      "try_claim_link os link slave fs = Some (Inl [SetupError, Msg (chars ''symlink '' @ link), Os e],
         if entries fs link = None then fs else link_drop link fs)"
  | (busy) "entries fs link \<noteq> None" "\<not> stale os fs link"
      "try_claim_link os link slave fs = Some (Inr False, fs)"
  | (kept) "entries fs link \<noteq> None" "stale os fs link" "\<not> removable fs link"
      "try_claim_link os link slave fs = Some (Inr False, link_drop link fs)"
proof (cases "entries fs link = None")
  case True
  with claimed failed assms(1) show ?thesis
    by (cases "create_err fs link") (auto simp: try_claim_free simp del: chars_simps)
next
  case False
  show ?thesis
  proof (cases "stale os fs link")
    case st: True
    show ?thesis
    proof (cases "removable fs link")
      case True
      then have d: "entries (link_drop link fs) link = None" "create_err (link_drop link fs) = create_err fs"
        by (simp_all add: link_drop_def)
      with claimed failed False st assms(1) show ?thesis
        by (cases "create_err fs link") (auto simp: try_claim_stale try_claim_free simp del: chars_simps)
    next
      case nr: False
      with assms(2) False st have "removable fs (sidecar link)" by (simp add: stuck_def)
      then have "entries (link_drop link fs) (sidecar link) = None" by (simp add: link_drop_def)
      then have "\<not> stale os (link_drop link fs) link" using stale_has_sidecar by blast
      moreover have "entries (link_drop link fs) link \<noteq> None"
        using nr False by (simp add: link_drop_def)
      ultimately show ?thesis using kept False st nr by (simp add: try_claim_stale try_claim_busy)
    qed
  qed (use busy False in \<open>simp add: try_claim_busy\<close>)
qed


lemma try_claim_None_iff:
  assumes "fs_ok fs"
  shows "try_claim_link os link slave fs = None \<longleftrightarrow> stuck os fs link"
proof
  show "try_claim_link os link slave fs = None \<Longrightarrow> stuck os fs link"
  proof (rule ccontr)
    assume n: "try_claim_link os link slave fs = None" and s: "\<not> stuck os fs link"
    show False by (rule try_claim_result [OF assms s, of slave]) (use n in auto)
  qed
qed (rule try_claim_stuck)

section \<open>What an attempt leaves alone\<close>

definition same_rules :: "fs \<Rightarrow> fs \<Rightarrow> bool" where
  "same_rules fs fs' \<longleftrightarrow> create_err fs' = create_err fs \<and> removable fs' = removable fs \<and>
     write_err fs' = write_err fs \<and> write_left fs' = write_left fs"

lemma same_rules_simps [simp]:
  "same_rules fs fs" "same_rules fs (fs\<lparr>entries := m\<rparr>)" "same_rules fs (link_drop p fs)"
  "same_rules fs (remove_file p fs)" "same_rules fs (f\<lparr>entries := m\<rparr>) = same_rules fs f"
  by (simp_all add: same_rules_def link_drop_def)

lemma link_drop_entries:
  "q \<noteq> link \<Longrightarrow> q \<noteq> sidecar link \<Longrightarrow> entries (link_drop link fs) q = entries fs q"
  by (simp add: link_drop_def)

lemma try_claim_Some_not_stuck: "try_claim_link os link slave fs = Some x \<Longrightarrow> \<not> stuck os fs link"
  using try_claim_stuck by fastforce

lemma try_claim_frame:
  assumes "fs_ok fs" "try_claim_link os link slave fs = Some (r, fs')"
  shows "same_rules fs fs'" and "q \<noteq> link \<Longrightarrow> q \<noteq> sidecar link \<Longrightarrow> entries fs' q = entries fs q"
    and "entries fs link \<noteq> None \<Longrightarrow> \<not> stale os fs link \<Longrightarrow> r = Inr False \<and> fs' = fs"
    and "r = Inr True \<Longrightarrow> entries fs' link = Some (Symlink slave) \<and> (entries fs link = None \<or> stale os fs link)"
    and "r = Inr False \<Longrightarrow> entries fs link \<noteq> None"
    and "r = Inl e \<Longrightarrow> is_setup e"
proof -
  note split = try_claim_result [OF assms(1) try_claim_Some_not_stuck [OF assms(2)], of slave]
  show "same_rules fs fs'"
    by (rule split) (use assms(2) in \<open>auto split: if_splits\<close>)
  show "q \<noteq> link \<Longrightarrow> q \<noteq> sidecar link \<Longrightarrow> entries fs' q = entries fs q"
    by (rule split) (use assms(2) in \<open>auto simp: link_drop_entries split: if_splits\<close>)
  show "entries fs link \<noteq> None \<Longrightarrow> \<not> stale os fs link \<Longrightarrow> r = Inr False \<and> fs' = fs"
    by (rule split) (use assms(2) in \<open>auto split: if_splits\<close>)
  show "r = Inr True \<Longrightarrow> entries fs' link = Some (Symlink slave) \<and> (entries fs link = None \<or> stale os fs link)"
    by (rule split) (use assms(2) in \<open>auto split: if_splits\<close>)
  show "r = Inr False \<Longrightarrow> entries fs link \<noteq> None"
    by (rule split) (use assms(2) in \<open>auto split: if_splits\<close>)
  show "r = Inl e \<Longrightarrow> is_setup e"
    by (rule split) (use assms(2) in \<open>auto split: if_splits\<close>)
qed

lemma same_rules_ok: "same_rules fs fs' \<Longrightarrow> fs_ok fs' = fs_ok fs"
  by (simp add: same_rules_def fs_ok_def)

section \<open>The default names\<close>

lemma default_link_suffix: "\<exists>a. default_link tag n = a @ chars ''.pty''"
  by (cases "n = 1") (auto simp: default_link_def)

lemma default_link_not_sidecar: "default_link tag n \<noteq> sidecar q"
proof
  assume "default_link tag n = sidecar q"
  moreover obtain a where "default_link tag n = a @ chars ''.pty''" using default_link_suffix by blast
  ultimately have "last (a @ chars ''.pty'') = last (q @ chars ''.pid'')" by (simp add: sidecar_def)
  then show False by simp
qed

lemma decimal_inj: "decimal m = decimal n \<Longrightarrow> m = n"
  using digits_value_decimal by (metis option.inject)

lemma chars_inj: "chars s = chars s' \<Longrightarrow> s = s'"
proof (induction s arbitrary: s')
  case Nil
  then show ?case by (cases s') simp_all
next
  case (Cons c s)
  then show ?case by (cases s') simp_all
qed

lemma default_link_inj:
  assumes "default_link tag m = default_link tag n" "0 < m" "0 < n"
  shows "m = n"
proof -
  have one: "chars ''.pty'' \<noteq> chars ''-'' @ x" for x by simp
  show ?thesis
    using assms one by (auto simp: default_link_def dest: decimal_inj chars_inj split: if_splits)
qed

text \<open>Walking the candidates changes nothing of a link whose owner is not known to be dead.\<close>

definition spared :: "fs \<Rightarrow> fs \<Rightarrow> rstring \<Rightarrow> bool" where
  "spared fs fs' q \<longleftrightarrow> entries fs' q = entries fs q \<and> entries fs' (sidecar q) = entries fs (sidecar q)"

lemma spared_stale: "spared fs fs' q \<Longrightarrow> regular_at fs q \<Longrightarrow> stale os fs' q = stale os fs q"
  using stale_cong [of fs q fs'] by (simp add: spared_def)

lemma spared_regular: "spared fs fs' q \<Longrightarrow> regular_at fs q \<Longrightarrow> regular_at fs' q"
  using regular_cong [of fs q fs'] by (simp add: spared_def)

lemma try_claim_spares:
  assumes "fs_ok fs" "try_claim_link os link slave fs = Some (r, fs')"
    and "entries fs q \<noteq> None" "\<not> stale os fs q" "q \<noteq> sidecar link" "link \<noteq> sidecar q"
  shows "spared fs fs' q"
proof (cases "q = link")
  case True
  with try_claim_frame(3) [OF assms(1,2)] assms(3,4) show ?thesis by (simp add: spared_def)
next
  case False
  then show ?thesis
    using try_claim_frame(2) [OF assms(1,2)] assms(5,6) by (auto simp: spared_def)
qed

lemma claim_first_spares:
  assumes "fs_ok fs" "claim_first os tag slave ns fs = Some (r, fs')"
    and "entries fs q \<noteq> None" "\<not> stale os fs q" "\<forall>b. q \<noteq> sidecar b" "regular_at fs q"
  shows "spared fs fs' q \<and> same_rules fs fs'"
  using assms
proof (induction ns arbitrary: fs)
  case Nil
  then show ?case by (simp add: spared_def)
next
  case (Cons n ns)
  from Cons.prems(2) obtain r1 fs1 where t: "try_claim_link os (default_link tag n) slave fs = Some (r1, fs1)"
    by (cases "try_claim_link os (default_link tag n) slave fs") auto
  have s: "spared fs fs1 q"
    by (rule try_claim_spares [OF Cons.prems(1) t Cons.prems(3,4)])
       (use Cons.prems(5) default_link_not_sidecar in auto)
  note sr = try_claim_frame(1) [OF Cons.prems(1) t]
  show ?case
  proof (cases "r1 = Inr False")
    case True
    then have c: "claim_first os tag slave ns fs1 = Some (r, fs')" using Cons.prems(2) t by simp
    have "spared fs1 fs' q \<and> same_rules fs1 fs'"
      by (rule Cons.IH [OF _ c])
         (use Cons.prems s sr spared_stale [OF s] spared_regular [OF s] same_rules_ok [OF sr] in \<open>auto simp: spared_def\<close>)
    with s sr show ?thesis by (simp add: spared_def same_rules_def)
  next
    case False
    with Cons.prems(2) t have "fs' = fs1" by (cases r1) (auto split: if_splits)
    with s sr show ?thesis by simp
  qed
qed

lemma claim_first_claimed:
  assumes "fs_ok fs" "claim_first os tag slave ns fs = Some (Inr (Some path), fs')"
    and "distinct ns" "\<forall>n \<in> set ns. 0 < n"
  shows "\<exists>ks n ls. ns = ks @ n # ls \<and> path = default_link tag n \<and>
    entries fs' path = Some (Symlink slave) \<and> (\<forall>k \<in> set ks. entries fs (default_link tag k) \<noteq> None)"
  using assms
proof (induction ns arbitrary: fs)
  case Nil
  then show ?case by simp
next
  case (Cons n ns)
  from Cons.prems(2) obtain r1 fs1 where t: "try_claim_link os (default_link tag n) slave fs = Some (r1, fs1)"
    by (cases "try_claim_link os (default_link tag n) slave fs") auto
  note fr = try_claim_frame [OF Cons.prems(1) t]
  show ?case
  proof (cases "r1 = Inr False")
    case True
    then have c: "claim_first os tag slave ns fs1 = Some (Inr (Some path), fs')" using Cons.prems(2) t by simp
    from Cons.IH [OF _ c] Cons.prems(1,3,4) same_rules_ok [OF fr(1)] obtain ks m ls where
      m: "ns = ks @ m # ls" "path = default_link tag m" "entries fs' path = Some (Symlink slave)"
        "\<forall>k \<in> set ks. entries fs1 (default_link tag k) \<noteq> None" by auto
    have "entries fs (default_link tag k) \<noteq> None" if "k \<in> set ks" for k
    proof -
      have "k \<noteq> n" "0 < k" "0 < n" using that m(1) Cons.prems(3,4) by auto
      then have "default_link tag k \<noteq> default_link tag n" using default_link_inj by blast
      then have "entries fs1 (default_link tag k) = entries fs (default_link tag k)"
        using default_link_not_sidecar by (intro fr(2)) auto
      moreover have "entries fs1 (default_link tag k) \<noteq> None" using m(4) that by blast
      ultimately show ?thesis by simp
    qed
    moreover have "entries fs (default_link tag n) \<noteq> None" using fr(5) True by blast
    ultimately have "(n # ns) = (n # ks) @ m # ls \<and> (\<forall>k \<in> set (n # ks). entries fs (default_link tag k) \<noteq> None)"
      using m(1) by simp
    with m(2,3) show ?thesis by blast
  next
    case False
    with Cons.prems(2) t have "r1 = Inr True" "path = default_link tag n" "fs' = fs1"
      by (cases r1; auto split: if_splits)+
    with fr(4) have "n # ns = [] @ n # ns \<and> path = default_link tag n \<and> entries fs' path = Some (Symlink slave) \<and>
        (\<forall>k \<in> set []. entries fs (default_link tag k) \<noteq> None)" by simp
    then show ?thesis by blast
  qed
qed

lemma claim_first_fresh:
  assumes "fs_ok fs" "claim_first os tag slave ns fs = Some (Inr (Some path), fs')"
    and "entries fs q \<noteq> None" "\<not> stale os fs q" "\<forall>b. q \<noteq> sidecar b" "regular_at fs q"
  shows "path \<noteq> q \<and> (\<exists>n. path = default_link tag n)"
  using assms
proof (induction ns arbitrary: fs)
  case (Cons n ns)
  from Cons.prems(2) obtain r1 fs1 where t: "try_claim_link os (default_link tag n) slave fs = Some (r1, fs1)"
    by (cases "try_claim_link os (default_link tag n) slave fs") auto
  note fr = try_claim_frame [OF Cons.prems(1) t]
  have s: "spared fs fs1 q"
    by (rule try_claim_spares [OF Cons.prems(1) t Cons.prems(3,4)])
       (use Cons.prems(5) default_link_not_sidecar in auto)
  show ?case
  proof (cases "r1 = Inr False")
    case True
    then have c: "claim_first os tag slave ns fs1 = Some (Inr (Some path), fs')" using Cons.prems(2) t by simp
    show ?thesis
      by (rule Cons.IH [OF _ c])
         (use Cons.prems s spared_stale [OF s] spared_regular [OF s] same_rules_ok [OF fr(1)] in \<open>auto simp: spared_def\<close>)
  next
    case False
    with Cons.prems(2) t have "r1 = Inr True" "path = default_link tag n"
      by (cases r1; auto split: if_splits)+
    with fr(3) Cons.prems(3,4) show ?thesis by auto
  qed
qed simp

lemma claim_first_error: "claim_first os tag slave ns fs = Some (Inl e, fs') \<Longrightarrow> fs_ok fs \<Longrightarrow> is_setup e"
proof (induction ns arbitrary: fs)
  case (Cons n ns)
  from Cons.prems(1) obtain r1 fs1 where t: "try_claim_link os (default_link tag n) slave fs = Some (r1, fs1)"
    by (cases "try_claim_link os (default_link tag n) slave fs") auto
  note fr = try_claim_frame [OF Cons.prems(2) t]
  from Cons t same_rules_ok [OF fr(1)] show ?case
    by (cases r1) (auto split: if_splits intro: fr(6))
qed simp

section \<open>Whole claims\<close>

lemma claim_first_rules:
  "claim_first os tag slave ns fs = Some (r, fs') \<Longrightarrow> fs_ok fs \<Longrightarrow> same_rules fs fs'"
proof (induction ns arbitrary: fs)
  case (Cons n ns)
  from Cons.prems(1) obtain r1 fs1 where t: "try_claim_link os (default_link tag n) slave fs = Some (r1, fs1)"
    by (cases "try_claim_link os (default_link tag n) slave fs") auto
  note sr = try_claim_frame(1) [OF Cons.prems(2) t]
  have "same_rules fs1 fs'"
  proof (cases "r1 = Inr False")
    case True
    with Cons t same_rules_ok [OF sr] show ?thesis by simp
  next
    case False
    with Cons.prems(1) t show ?thesis by (cases r1) (auto split: if_splits)
  qed
  with sr show ?case by (simp add: same_rules_def)
qed simp

lemma claim_path_explicit:
  assumes "claim_path os (Some p) tag slave fs = Some (r, fs')"
  obtains r0 where "try_claim_link os p slave fs = Some (r0, fs')"
    "r = (case r0 of Inl e \<Rightarrow> Inl e | Inr True \<Rightarrow> Inr p
       | Inr False \<Rightarrow> Inl [SetupError, Msg (chars ''--link '' @ p @ chars '' is busy (claimed by a live process)'')])"
  using assms by (auto simp: claim_path_def split: option.splits sum.splits bool.splits if_splits)

lemma claim_path_default:
  assumes "claim_path os None tag slave fs = Some (r, fs')"
  obtains r0 where "claim_first os tag slave [1..<10000] fs = Some (r0, fs')"
    "r = (case r0 of Inl e \<Rightarrow> Inl e | Inr (Some p) \<Rightarrow> Inr p
       | Inr None \<Rightarrow> Inl [SetupError, Msg (chars ''no free /tmp/ttyforge-'' @ tag @ chars ''*.pty slot (9999 in use?)'')])"
  using assms by (auto simp: claim_path_def simp del: claim_first.simps upt_rec_numeral split: option.splits sum.splits)

lemma candidates: "distinct [1..<10000]" "\<forall>n \<in> set [1..<10000]. 0 < n"
  by (simp_all del: upt_rec_numeral)

lemma claim_path_ok:
  assumes "fs_ok fs" "claim_path os explicit tag slave fs = Some (r, fs')"
  shows "same_rules fs fs'" and "r = Inl e \<Longrightarrow> is_setup e"
    and "r = Inr path \<Longrightarrow> entries fs' path = Some (Symlink slave)"
proof -
  have "same_rules fs fs' \<and> (r = Inl e \<longrightarrow> is_setup e) \<and> (r = Inr path \<longrightarrow> entries fs' path = Some (Symlink slave))"
  proof (cases explicit)
    case None
    from assms(2) [unfolded None] obtain r0 where c: "claim_first os tag slave [1..<10000] fs = Some (r0, fs')"
      and r: "r = (case r0 of Inl e \<Rightarrow> Inl e | Inr (Some p) \<Rightarrow> Inr p
       | Inr None \<Rightarrow> Inl [SetupError, Msg (chars ''no free /tmp/ttyforge-'' @ tag @ chars ''*.pty slot (9999 in use?)'')])"
      by (rule claim_path_default)
    have "r = Inl e \<longrightarrow> is_setup e"
      using claim_first_error [of os tag slave "[1..<10000]" fs e fs'] c r assms(1)
      by (auto split: sum.splits option.splits simp del: upt_rec_numeral)
    moreover have "r = Inr path \<longrightarrow> entries fs' path = Some (Symlink slave)"
    proof
      assume "r = Inr path"
      with r have "r0 = Inr (Some path)" by (auto split: sum.splits option.splits)
      with claim_first_claimed [OF assms(1) _ candidates] c show "entries fs' path = Some (Symlink slave)" by blast
    qed
    ultimately show ?thesis using claim_first_rules [OF c assms(1)] by blast
  next
    case (Some p)
    from assms(2) [unfolded Some] obtain r0 where c: "try_claim_link os p slave fs = Some (r0, fs')"
      and r: "r = (case r0 of Inl e \<Rightarrow> Inl e | Inr True \<Rightarrow> Inr p
       | Inr False \<Rightarrow> Inl [SetupError, Msg (chars ''--link '' @ p @ chars '' is busy (claimed by a live process)'')])"
      by (rule claim_path_explicit)
    show ?thesis
      using try_claim_frame [OF assms(1) c] r by (auto split: sum.splits bool.splits)
  qed
  then show "same_rules fs fs'" and "r = Inl e \<Longrightarrow> is_setup e"
    and "r = Inr path \<Longrightarrow> entries fs' path = Some (Symlink slave)" by blast+
qed

section \<open>What a claim adds\<close>

lemma try_claim_within:
  assumes "fs_ok fs" "try_claim_link os link slave fs = Some (r, fs')"
  shows "r \<noteq> Inr True \<Longrightarrow> entries fs' \<subseteq>\<^sub>m entries fs"
    and "r = Inr True \<Longrightarrow> entries fs' \<subseteq>\<^sub>m (entries fs)(link \<mapsto> Symlink slave)"
    and "r = Inl e \<Longrightarrow> child_exit e = None"
proof -
  note split = try_claim_result [OF assms(1) try_claim_Some_not_stuck [OF assms(2)], of slave]
  show "r \<noteq> Inr True \<Longrightarrow> entries fs' \<subseteq>\<^sub>m entries fs"
    by (rule split) (use assms(2) in \<open>auto simp: map_le_def link_drop_def split: if_splits\<close>)
  show "r = Inr True \<Longrightarrow> entries fs' \<subseteq>\<^sub>m (entries fs)(link \<mapsto> Symlink slave)"
    by (rule split) (use assms(2) in \<open>auto simp: map_le_def link_drop_def split: if_splits\<close>)
  show "r = Inl e \<Longrightarrow> child_exit e = None"
    by (rule split) (use assms(2) in \<open>auto simp: child_exit_def split: if_splits\<close>)
qed

lemma claim_first_within:
  assumes "claim_first os tag slave ns fs = Some (r, fs')" "fs_ok fs"
  shows "case r of Inr (Some p) \<Rightarrow> entries fs' \<subseteq>\<^sub>m (entries fs)(p \<mapsto> Symlink slave)
    | Inr None \<Rightarrow> entries fs' \<subseteq>\<^sub>m entries fs | Inl e \<Rightarrow> entries fs' \<subseteq>\<^sub>m entries fs \<and> child_exit e = None"
  using assms
proof (induction ns arbitrary: fs)
  case (Cons n ns)
  from Cons.prems(1) obtain r1 fs1 where t: "try_claim_link os (default_link tag n) slave fs = Some (r1, fs1)"
    by (cases "try_claim_link os (default_link tag n) slave fs") auto
  note w = try_claim_within [OF Cons.prems(2) t] and ok = same_rules_ok [OF try_claim_frame(1) [OF Cons.prems(2) t]]
  show ?case
  proof (cases "r1 = Inr False")
    case True
    have later: "claim_first os tag slave ns fs1 = Some (r, fs')" using Cons.prems(1) t True by simp
    have le: "entries fs1 \<subseteq>\<^sub>m entries fs" using w(1) True by simp
    note I = Cons.IH [OF later ok [THEN iffD2, OF Cons.prems(2)]]
    show ?thesis
    proof (cases r)
      case (Inl e)
      with I le map_le_trans show ?thesis by fastforce
    next
      case (Inr p)
      with I le map_le_trans [OF _ map_le_upd [OF le]] map_le_trans show ?thesis by (cases p) fastforce+
    qed
  next
    case False
    with Cons.prems(1) t w show ?thesis by (cases r1) auto
  qed
qed auto

lemma claim_path_within:
  assumes "claim_path os explicit tag slave fs = Some (r, fs')" "fs_ok fs"
  shows "case r of Inr p \<Rightarrow> entries fs' \<subseteq>\<^sub>m (entries fs)(p \<mapsto> Symlink slave) \<and> (explicit \<noteq> None \<longrightarrow> explicit = Some p) \<and>
        (explicit = None \<longrightarrow> (\<exists>n. p = default_link tag n))
    | Inl e \<Rightarrow> entries fs' \<subseteq>\<^sub>m entries fs \<and> child_exit e = None"
proof (cases explicit)
  case None
  from assms(1) [unfolded None] obtain r0 where c: "claim_first os tag slave [1..<10000] fs = Some (r0, fs')"
    and r: "r = (case r0 of Inl e \<Rightarrow> Inl e | Inr (Some p) \<Rightarrow> Inr p
     | Inr None \<Rightarrow> Inl [SetupError, Msg (chars ''no free /tmp/ttyforge-'' @ tag @ chars ''*.pty slot (9999 in use?)'')])"
    by (rule claim_path_default)
  from claim_first_within [OF c assms(2)] claim_first_claimed [OF assms(2) _ candidates] c r None show ?thesis
    by (fastforce simp: child_exit_def simp del: chars_simps split: sum.splits option.splits)
next
  case (Some p)
  from assms(1) [unfolded Some] obtain r0 where c: "try_claim_link os p slave fs = Some (r0, fs')"
    and r: "r = (case r0 of Inl e \<Rightarrow> Inl e | Inr True \<Rightarrow> Inr p
     | Inr False \<Rightarrow> Inl [SetupError, Msg (chars ''--link '' @ p @ chars '' is busy (claimed by a live process)'')])"
    by (rule claim_path_explicit)
  from try_claim_within [OF assms(2) c] r Some show ?thesis
    by (auto simp: child_exit_def simp del: chars_simps split: sum.splits bool.splits)
qed

section \<open>Recording the owner\<close>

text \<open>Nothing but files are where a claim may write its sidecar.\<close>

definition unspoofed :: "fs \<Rightarrow> rstring option \<Rightarrow> rstring \<Rightarrow> bool" where
  "unspoofed fs explicit tag \<longleftrightarrow>
     (case explicit of Some p \<Rightarrow> regular_at fs p | None \<Rightarrow> (\<forall>n. regular_at fs (default_link tag n)))"

lemma claim_path_regular:
  assumes "claim_path os explicit tag slave fs = Some (Inr path, fs1)" "fs_ok fs" "unspoofed fs explicit tag"
  shows "regular_at fs1 path"
proof -
  from claim_path_within [OF assms(1,2)]
  have w: "entries fs1 \<subseteq>\<^sub>m (entries fs)(path \<mapsto> Symlink slave)" "regular_at fs path"
    using assms(3) by (auto simp: unspoofed_def split: option.splits)
  then have "entries fs1 (sidecar path) = None \<or> entries fs1 (sidecar path) = entries fs (sidecar path)"
    by (metis domIff fun_upd_other map_le_def sidecar_neq(1))
  with w(2) show ?thesis by (auto simp: regular_at_def)
qed

lemma claim_okE:
  assumes "claim os explicit tag slave fs = Some (Inr path, fs')" "fs_ok fs" "unspoofed fs explicit tag"
  obtains fs1 where "claim_path os explicit tag slave fs = Some (Inr path, fs1)"
    "fs' = fs1\<lparr>entries := (entries fs1)(sidecar path \<mapsto> File (chars (decimal (self_pid os))))\<rparr>"
proof -
  from assms(1) obtain fs1 where p: "claim_path os explicit tag slave fs = Some (Inr path, fs1)"
    "write_file (sidecar path) (chars (decimal (self_pid os))) fs1 = (IoOk (), fs')"
    by (auto simp: claim_def split: option.splits sum.splits prod.splits io_result.splits)
  with write_sidecar [OF claim_path_regular [OF p(1) assms(2,3)]] that [OF p(1)] show thesis
    by (auto split: option.splits)
qed

lemma claim_total: "try_claim_link os p slave fs \<noteq> None \<Longrightarrow> claim os (Some p) tag slave fs \<noteq> None"
  by (auto simp: claim_def claim_path_def split: sum.splits bool.splits prod.splits io_result.splits)

lemma no_space_in_decimal: "trim (chars (decimal n)) = chars (decimal n)"
proof -
  have d: "\<not> is_whitespace c" if "c \<in> set (chars (decimal n))" for c
    using decimal_digits [OF that] by (auto simp: is_ascii_digit_def is_whitespace_def)
  have id: "dropWhile is_whitespace xs = xs" if "set xs \<subseteq> set (chars (decimal n))" for xs
    using that d by (cases xs) auto
  show ?thesis by (simp add: trim_def trim_start_def trim_end_def id)
qed

lemma own_sidecar_live:
  assumes "entries fs (sidecar path) = Some (File (chars (decimal pid)))" "pid < 2 ^ 31"
    and "process_alive os (int pid)"
  shows "\<not> stale os fs path"
  using assms read_sidecar [of fs path]
  by (simp add: stale_def regular_at_def pid_sidecar_is_stale_def no_space_in_decimal parse_i32_decimal)


lemma claim_spares:
  assumes "fs_ok fs" and "claim os explicit tag slave fs = Some (r, fs')"
    and "entries fs q = Some x" and "\<not> stale os fs q"
    and "\<forall>b. q \<noteq> sidecar b" and "explicit \<noteq> Some (sidecar q)"
    and "regular_at fs q" and "unspoofed fs explicit tag"
  shows "entries fs' q = Some x \<and> entries fs' (sidecar q) = entries fs (sidecar q)"
proof -
  obtain r1 fs1 where p: "claim_path os explicit tag slave fs = Some (r1, fs1)"
    using assms(2) by (cases "claim_path os explicit tag slave fs") (auto simp: claim_def)
  have q: "entries fs q \<noteq> None" using assms(3) by simp
  have "spared fs fs1 q \<and> (\<forall>path. r1 = Inr path \<longrightarrow> path \<noteq> q \<and> path \<noteq> sidecar q)"
  proof (cases explicit)
    case None
    from p [unfolded None] obtain r0 where c: "claim_first os tag slave [1..<10000] fs = Some (r0, fs1)"
      and r: "r1 = (case r0 of Inl e \<Rightarrow> Inl e | Inr (Some p) \<Rightarrow> Inr p
       | Inr None \<Rightarrow> Inl [SetupError, Msg (chars ''no free /tmp/ttyforge-'' @ tag @ chars ''*.pty slot (9999 in use?)'')])"
      by (rule claim_path_default)
    have s: "spared fs fs1 q" using claim_first_spares [OF assms(1) c q assms(4,5,7)] by blast
    have "path \<noteq> q \<and> path \<noteq> sidecar q" if "r1 = Inr path" for path
    proof -
      from that r have "r0 = Inr (Some path)" by (auto split: sum.splits option.splits)
      from claim_first_fresh [OF assms(1) c [unfolded this] q assms(4,5,7)]
      show ?thesis using default_link_not_sidecar by auto
    qed
    with s show ?thesis by blast
  next
    case (Some p)
    from p [unfolded Some] obtain r0 where c: "try_claim_link os p slave fs = Some (r0, fs1)"
      and r: "r1 = (case r0 of Inl e \<Rightarrow> Inl e | Inr True \<Rightarrow> Inr p
       | Inr False \<Rightarrow> Inl [SetupError, Msg (chars ''--link '' @ p @ chars '' is busy (claimed by a live process)'')])"
      by (rule claim_path_explicit)
    have "spared fs fs1 q"
      by (rule try_claim_spares [OF assms(1) c q assms(4)]) (use assms(5,6) Some in auto)
    moreover have "path \<noteq> q \<and> path \<noteq> sidecar q" if "r1 = Inr path" for path
    proof -
      from that r have "path = p" "r0 = Inr True" by (auto split: sum.splits bool.splits)
      with try_claim_frame(3) [OF assms(1) c] q assms(4,6) Some show ?thesis by auto
    qed
    ultimately show ?thesis by blast
  qed
  then show ?thesis
    using assms(2,3,5) p write_sidecar [OF claim_path_regular [OF _ assms(1,8)]]
    by (auto simp: claim_def spared_def split: sum.splits option.splits)
qed

section \<open>Properties\<close>

text \<open>A scratch file system with one stale link at \<open>p\<close> and one live one at \<open>q\<close>.\<close>

definition demo_fs :: "(rstring \<Rightarrow> bool) \<Rightarrow> fs" where
  "demo_fs rm = \<lparr>entries = [chars ''/tmp/x'' \<mapsto> Symlink (chars ''/dev/pts/1''),
       chars ''/tmp/x.pid'' \<mapsto> File (chars ''99''),
       chars ''/tmp/y'' \<mapsto> Symlink (chars ''/dev/pts/2''), chars ''/tmp/y.pid'' \<mapsto> File (chars ''7'')],
     create_err = (\<lambda>_. None), removable = rm, write_err = (\<lambda>_. None),
     write_left = (\<lambda>_. None)\<rparr>"

definition demo_procs :: procs where
  "demo_procs = \<lparr>kill0 = (\<lambda>pid. if pid = 7 \<or> pid = 8 \<or> pid = 9 then None else Some 3), ESRCH = 3, self_pid = 8\<rparr>"

lemma demo_ok: "fs_ok (demo_fs rm)"
  by (simp add: fs_ok_def demo_fs_def)

lemma not_sidecar: "xs = [] \<or> last xs \<noteq> 100 \<Longrightarrow> xs \<noteq> sidecar b"
  by (auto simp: sidecar_def)

lemma demo_regular: "regular_at (demo_fs rm) p"
proof -
  have "sidecar p \<noteq> chars ''/tmp/x''" "sidecar p \<noteq> chars ''/tmp/y''"
    using not_sidecar [of "chars ''/tmp/x''" p] not_sidecar [of "chars ''/tmp/y''" p] by auto
  then show ?thesis by (auto simp: regular_at_def demo_fs_def)
qed

lemma demo_unspoofed: "unspoofed (demo_fs rm) explicit tag"
  by (simp add: unspoofed_def demo_regular split: option.split)

lemma demo_stale: "stale demo_procs (demo_fs rm) (chars ''/tmp/x'')" "\<not> stale demo_procs (demo_fs rm) (chars ''/tmp/y'')"
  unfolding stale_def read_sidecar [OF demo_regular]
  by (simp_all add: demo_fs_def demo_procs_def sidecar_def pid_sidecar_is_stale_def
      process_alive_def trim_def trim_start_def trim_end_def is_whitespace_def parse_i32_def parse_unsigned_def
      is_ascii_digit_def)

text \<open>
  (C27) When a claim returns: the retry loop of \<open>try_claim_link\<close> runs forever exactly when the path
  is taken by a link whose recorded owner is dead and neither the link nor its sidecar can be
  removed; in every other case it ends.
\<close>

theorem claim_loops_iff_stuck:
  assumes "fs_ok fs"
  shows "try_claim_link os link slave fs = None \<longleftrightarrow>
    entries fs link \<noteq> None \<and> stale os fs link \<and> \<not> removable fs link \<and> \<not> removable fs (sidecar link)"
  unfolding stuck_def [symmetric] by (rule try_claim_None_iff [OF assms])

theorem claim_loops_iff_stuck_witness:
  "try_claim_link demo_procs (chars ''/tmp/x'') (chars ''/dev/pts/5'') (demo_fs (\<lambda>_. False)) = None"
  using claim_loops_iff_stuck [OF demo_ok [of "\<lambda>_. False"], of demo_procs "chars ''/tmp/x''"]
    demo_stale(1) [of "\<lambda>_. False"] by (simp add: demo_fs_def)

text \<open>
  (C5) Claims spare the living: whatever a claim does, explicit or over all default names,
  successful or not, a link whose recorded owner is not known to be dead still has its target
  and its sidecar afterwards.
\<close>

theorem claim_spares_live_links:
  assumes "fs_ok fs" and "claim os explicit tag slave fs = Some (r, fs')"
    and "entries fs q = Some x" and "\<not> stale os fs q"
    and "\<forall>b. q \<noteq> sidecar b" and "explicit \<noteq> Some (sidecar q)"
    and "regular_at fs q" and "unspoofed fs explicit tag"
  shows "entries fs' q = Some x \<and> entries fs' (sidecar q) = entries fs (sidecar q)"
  by (rule claim_spares [OF assms])

theorem claim_spares_live_links_witness:
  "\<exists>r fs'. claim demo_procs (Some (chars ''/tmp/x'')) [] (chars ''/dev/pts/5'') (demo_fs (\<lambda>_. True)) = Some (r, fs') \<and>
     entries fs' (chars ''/tmp/y'') = Some (Symlink (chars ''/dev/pts/2''))"
proof -
  let ?fs = "demo_fs (\<lambda>_. True)" and ?x = "chars ''/tmp/x''" and ?y = "chars ''/tmp/y''"
  have "\<not> stuck demo_procs ?fs ?x" by (simp add: stuck_def demo_fs_def)
  then have "try_claim_link demo_procs ?x (chars ''/dev/pts/5'') ?fs \<noteq> None"
    using try_claim_None_iff [OF demo_ok] by blast
  then obtain r fs' where c: "claim demo_procs (Some ?x) [] (chars ''/dev/pts/5'') ?fs = Some (r, fs')"
    using claim_total by (metis not_None_eq prod.exhaust)
  have "entries ?fs ?y = Some (Symlink (chars ''/dev/pts/2''))" by (simp add: demo_fs_def)
  moreover have "\<forall>b. ?y \<noteq> sidecar b" using not_sidecar [of ?y] by simp
  moreover have "Some ?x \<noteq> Some (sidecar ?y)" by (simp add: sidecar_def)
  ultimately show ?thesis
    using claim_spares_live_links [OF demo_ok c _ demo_stale(2) _ _ demo_regular demo_unspoofed] c by blast
qed


text \<open>
  (C25) A claimed path is published and ours.  After a successful claim the path is a symlink to
  the port and the sidecar names this process; a later claim of the same path by a process that
  sees this one alive fails with \<open>SetupError\<close> and changes nothing; and dropping the link removes
  both files.
\<close>

theorem claim_publishes_and_excludes:
  assumes "fs_ok fs" and "claim os explicit tag slave fs = Some (Inr path, fs')"
    and "self_pid os < 2 ^ 31" and "process_alive os' (int (self_pid os))"
    and "unspoofed fs explicit tag"
  shows "entries fs' path = Some (Symlink slave) \<and>
    entries fs' (sidecar path) = Some (File (chars (decimal (self_pid os)))) \<and>
    (\<exists>e. claim os' (Some path) tag' slave' fs' = Some (Inl e, fs') \<and> is_setup e) \<and>
    (removable fs path \<and> removable fs (sidecar path) \<longrightarrow>
       entries (link_drop path fs') = (entries fs')(path := None, sidecar path := None))"
proof -
  from assms(2) obtain fs1 where c: "claim_path os explicit tag slave fs = Some (Inr path, fs1)"
    and fs': "fs' = fs1\<lparr>entries := (entries fs1)(sidecar path \<mapsto> File (chars (decimal (self_pid os))))\<rparr>"
    by (rule claim_okE [OF _ assms(1,5)])
  note ok = claim_path_ok [OF assms(1) c]
  have e: "entries fs' path = Some (Symlink slave)"
    "entries fs' (sidecar path) = Some (File (chars (decimal (self_pid os))))"
    using ok(3) by (simp_all add: fs')
  have "\<not> stale os' fs' path" by (rule own_sidecar_live [OF e(2) assms(3,4)])
  then have "try_claim_link os' path slave' fs' = Some (Inr False, fs')"
    using e(1) by (simp add: try_claim_busy)
  then have b: "\<exists>e. claim os' (Some path) tag' slave' fs' = Some (Inl e, fs') \<and> is_setup e"
    by (simp add: claim_def claim_path_def)
  have "removable fs' = removable fs" using ok(1) by (simp add: fs' same_rules_def)
  with e b show ?thesis by (auto simp: link_drop_def)
qed

theorem claim_publishes_and_excludes_witness:
  "\<exists>fs' e. claim demo_procs (Some (chars ''/tmp/z'')) [] (chars ''/dev/pts/5'') (demo_fs (\<lambda>_. True)) =
       Some (Inr (chars ''/tmp/z''), fs') \<and>
     entries fs' (chars ''/tmp/z'') = Some (Symlink (chars ''/dev/pts/5'')) \<and>
     claim (demo_procs\<lparr>self_pid := 9\<rparr>) (Some (chars ''/tmp/z'')) [] (chars ''/dev/pts/6'') fs' = Some (Inl e, fs')"
proof -
  let ?fs = "demo_fs (\<lambda>_. True)" and ?z = "chars ''/tmp/z''"
  have f: "entries ?fs ?z = None" "create_err ?fs ?z = None" "write_err ?fs p = None" for p
    by (simp_all add: demo_fs_def)
  have "try_claim_link demo_procs ?z (chars ''/dev/pts/5'') ?fs =
      Some (Inr True, ?fs\<lparr>entries := (entries ?fs)(?z \<mapsto> Symlink (chars ''/dev/pts/5''))\<rparr>)"
    by (rule try_claim_free(1) [OF f(1) demo_ok f(2)])
  then obtain fs' where c: "claim demo_procs (Some ?z) [] (chars ''/dev/pts/5'') ?fs = Some (Inr ?z, fs')"
    using f(3) by (simp add: claim_def claim_path_def write_sidecar demo_regular)
  have a: "process_alive (demo_procs\<lparr>self_pid := 9\<rparr>) (int (self_pid demo_procs))" "self_pid demo_procs < 2 ^ 31"
    by (simp_all add: process_alive_def demo_procs_def)
  from claim_publishes_and_excludes [OF demo_ok c a(2,1) demo_unspoofed] c show ?thesis by blast
qed

text \<open>
  Default names: a claim without a path takes the first of the 9999 numbered names that can
  be claimed; all names before it were taken, and different numbers are different names.
\<close>

theorem default_claim_takes_first:
  assumes "fs_ok fs" and "claim os None tag slave fs = Some (Inr path, fs')"
  shows "\<exists>n. 1 \<le> n \<and> n \<le> 9999 \<and> path = default_link tag n \<and>
    (\<forall>k. 1 \<le> k \<and> k < n \<longrightarrow> entries fs (default_link tag k) \<noteq> None \<and> default_link tag k \<noteq> path)"
proof -
  from assms(2) obtain fs1 where p: "claim_path os None tag slave fs = Some (Inr path, fs1)"
    by (auto simp: claim_def split: option.splits sum.splits prod.splits io_result.splits)
  then obtain r0 where c: "claim_first os tag slave [1..<10000] fs = Some (r0, fs1)"
    and r: "Inr path = (case r0 of Inl e \<Rightarrow> Inl e | Inr (Some p) \<Rightarrow> Inr p
       | Inr None \<Rightarrow> Inl [SetupError, Msg (chars ''no free /tmp/ttyforge-'' @ tag @ chars ''*.pty slot (9999 in use?)'')])"
    by (rule claim_path_default)
  from r have "r0 = Inr (Some path)" by (auto split: sum.splits option.splits)
  from claim_first_claimed [OF assms(1) c [unfolded this] candidates] obtain ks n ls where
    k: "[1..<10000] = ks @ n # ls" "path = default_link tag n"
      "\<forall>k \<in> set ks. entries fs (default_link tag k) \<noteq> None" by blast
  have l: "length ks < 9999" using arg_cong [OF k(1), of length] by (simp del: upt_rec_numeral)
  have "n = [1..<10000] ! length ks" using k(1) by (simp del: upt_rec_numeral)
  with l have n: "n = 1 + length ks" by (simp del: upt_rec_numeral)
  have "ks = take (length ks) [1..<10000]" using k(1) by (simp del: upt_rec_numeral)
  with l have ks: "ks = [1..<1 + length ks]" by (simp del: upt_rec_numeral add: take_upt)
  have "entries fs (default_link tag k) \<noteq> None \<and> default_link tag k \<noteq> path" if "1 \<le> k" "k < n" for k
  proof -
    have "k \<in> set ks" using that n by (subst ks) auto
    then show ?thesis using k(2,3) that default_link_inj [of tag k n] by auto
  qed
  moreover have "1 \<le> n" "n \<le> 9999" using n l by simp_all
  ultimately show ?thesis using k(2) by blast
qed

theorem default_claim_takes_first_witness:
  "\<exists>fs'. claim demo_procs None (chars ''a'') (chars ''/dev/pts/5'') (demo_fs (\<lambda>_. True)) = Some (Inr (default_link (chars ''a'') 1), fs') \<and>
     (\<exists>n. 1 \<le> n \<and> n \<le> 9999 \<and> default_link (chars ''a'') 1 = default_link (chars ''a'') n)"
proof -
  let ?fs = "demo_fs (\<lambda>_. True)" and ?p = "default_link (chars ''a'') 1"
  have f: "entries ?fs ?p = None" "create_err ?fs ?p = None" "write_err ?fs p = None" for p
    by (simp_all add: demo_fs_def default_link_def)
  have t: "try_claim_link demo_procs ?p (chars ''/dev/pts/5'') ?fs =
      Some (Inr True, ?fs\<lparr>entries := (entries ?fs)(?p \<mapsto> Symlink (chars ''/dev/pts/5''))\<rparr>)"
    by (rule try_claim_free(1) [OF f(1) demo_ok f(2)])
  have u: "[1..<10000] = 1 # [Suc 1..<10000]" by (rule upt_conv_Cons) simp
  obtain fs' where c: "claim demo_procs None (chars ''a'') (chars ''/dev/pts/5'') ?fs = Some (Inr ?p, fs')"
    unfolding claim_def claim_path_def u option.case claim_first.simps t using f(3) by (simp add: write_sidecar demo_regular)
  from default_claim_takes_first [OF demo_ok c] c show ?thesis by blast
qed

end
