(* ===== verification/Claim_Laws.thy ===== *)
theory Claim_Laws
  imports Link
begin

text \<open>
  What a claim of a link (\<open>src/forge/pty.rs\<close>, theory Link) can have added to the file system when it
  returns, and what its errors look like to \<open>main\<close>: the facts the forges' runs rest on.  Then two
  ways it touches files it should not.
\<close>

section \<open>Before the sidecar\<close>

lemma claim_cases:
  assumes "claim os explicit tag slave fs = Some (r, fs')" "fs_ok fs"
  obtains (unclaimed) e where "claim_path os explicit tag slave fs = Some (Inl e, fs')" "r = Inl e"
  | (recorded) path fs1 where "claim_path os explicit tag slave fs = Some (Inr path, fs1)" "r = Inr path"
      "write_file (sidecar path) (chars (decimal (self_pid os))) fs1 = (IoOk (), fs')"
  | (unrecorded) path fs1 fs2 e where "claim_path os explicit tag slave fs = Some (Inr path, fs1)"
      "r = Inl [SetupError, Msg (chars ''write '' @ sidecar path), Os e]"
      "write_file (sidecar path) (chars (decimal (self_pid os))) fs1 = (IoErr e, fs2)" "fs' = remove_file path fs2"
  using assms(1)
  by (auto simp: claim_def simp del: chars_simps split: option.splits sum.splits prod.splits io_result.splits)

lemma write_rules [simp]: "same_rules fs (put_file p c fs)" "same_rules fs (snd (write_file p c fs))"
  by (simp_all add: put_file_def write_file_def split: option.split)

lemma claim_rules:
  assumes "claim os explicit tag slave fs = Some (r, fs')" "fs_ok fs"
  shows "same_rules fs fs'" "fs_ok fs'"
proof -
  have w: "same_rules fs1 fs2" if "write_file p c fs1 = (x, fs2)" for p c fs1 fs2 x
    using write_rules(2) [of fs1 p c] that by simp
  show s: "same_rules fs fs'"
    using assms
  proof (cases rule: claim_cases)
    case (unclaimed e)
    with claim_path_ok(1) [OF assms(2)] show ?thesis by blast
  next
    case (recorded path fs1)
    with claim_path_ok(1) [OF assms(2)] w show ?thesis by (fastforce simp: same_rules_def)
  next
    case (unrecorded path fs1 fs2 e)
    with claim_path_ok(1) [OF assms(2) unrecorded(1)] w [OF unrecorded(3)] show ?thesis by (simp add: same_rules_def)
  qed
  show "fs_ok fs'" using same_rules_ok [OF s] assms(2) by simp
qed

lemma claim_error:
  assumes "claim os explicit tag slave fs = Some (Inl e, fs')" "fs_ok fs"
  shows "is_setup e \<and> child_exit e = None \<and> e \<noteq> []"
  using assms
proof (cases rule: claim_cases)
  case (unclaimed e')
  with claim_path_within [OF unclaimed(1) assms(2)] claim_path_ok(2) [OF assms(2) unclaimed(1)] show ?thesis by auto
next
  case (unrecorded path fs1 fs2 e')
  then show ?thesis by (simp add: child_exit_def)
qed simp

section \<open>What a claim leaves behind\<close>

text \<open>No path a sidecar could be written to holds anything but a file; no write fails half-way.\<close>

definition regular :: "fs \<Rightarrow> bool" where
  "regular fs \<longleftrightarrow> (\<forall>p. regular_at fs p)"

definition whole_writes :: "fs \<Rightarrow> bool" where
  "whole_writes fs \<longleftrightarrow> (\<forall>p. write_left fs p = None)"

definition plain_path :: "rstring \<Rightarrow> bool" where
  "plain_path p \<longleftrightarrow> (\<forall>b. p \<noteq> sidecar b)"

lemma regular_unspoofed: "regular fs \<Longrightarrow> unspoofed fs explicit tag"
  by (simp add: regular_def unspoofed_def split: option.split)

lemma regular_le:
  assumes "entries fs' \<subseteq>\<^sub>m m" "\<And>p x. m (sidecar p) = Some x \<Longrightarrow> \<exists>c. x = File c"
  shows "regular fs'"
proof -
  have "regular_at fs' p" for p
  proof (cases "entries fs' (sidecar p)")
    case (Some x)
    with assms(1) have "m (sidecar p) = Some x" by (force simp: map_le_def dom_def)
    then obtain c where "x = File c" using assms(2) by blast
    with Some show ?thesis by (simp add: regular_at_def)
  qed (simp add: regular_at_def)
  then show ?thesis by (simp add: regular_def)
qed

lemma regular_file: "regular fs \<Longrightarrow> entries fs (sidecar p) = Some x \<Longrightarrow> \<exists>c. x = File c"
  unfolding regular_def regular_at_def by (drule spec [of _ p]) (cases x; simp)

lemma claim_within:
  assumes "claim os explicit tag slave fs = Some (r, fs')" "fs_ok fs" "\<forall>p. removable fs p"
    and "unspoofed fs explicit tag" "whole_writes fs"
  shows "same_rules fs fs' \<and> (case r of
      Inr p \<Rightarrow> entries fs' \<subseteq>\<^sub>m (entries fs)(p \<mapsto> Symlink slave, sidecar p \<mapsto> File (chars (decimal (self_pid os))))
    | Inl e \<Rightarrow> entries fs' \<subseteq>\<^sub>m entries fs)"
  using assms(1,2)
proof (cases rule: claim_cases)
  case (unclaimed e)
  with claim_path_within [OF unclaimed(1) assms(2)] claim_path_ok(1) [OF assms(2) unclaimed(1)] show ?thesis by simp
next
  case (recorded path fs1)
  note w = claim_path_within [OF recorded(1) assms(2)] and s = claim_path_ok(1) [OF assms(2) recorded(1)]
  have le: "entries fs1 \<subseteq>\<^sub>m (entries fs)(path \<mapsto> Symlink slave)" using w by simp
  from recorded write_sidecar [OF claim_path_regular [OF recorded(1) assms(2,4)]] s
    map_le_upd [OF le, of "sidecar path" "Some (File (chars (decimal (self_pid os))))"]
  show ?thesis by (auto simp: same_rules_def split: option.splits)
next
  case (unrecorded path fs1 fs2 e)
  note w = claim_path_within [OF unrecorded(1) assms(2)] and s = claim_path_ok(1) [OF assms(2) unrecorded(1)]
  have le: "entries fs1 \<subseteq>\<^sub>m (entries fs)(path \<mapsto> Symlink slave)" using w by simp
  then have gone: "(entries fs1)(path := None) \<subseteq>\<^sub>m entries fs" by (auto simp: map_le_def split: if_splits)
  have "fs2 = fs1"
    using unrecorded write_sidecar [OF claim_path_regular [OF unrecorded(1) assms(2,4)]] s assms(5)
    by (auto simp: same_rules_def whole_writes_def split: option.splits)
  with unrecorded gone s assms(3) show ?thesis by (simp add: same_rules_def)
qed

text \<open>Claims of plain paths leave the sidecars regular.\<close>

lemma claim_path_keeps_regular:
  assumes "claim_path os explicit tag slave fs = Some (r, fs1)" "fs_ok fs" "regular fs"
    and "\<forall>p. explicit = Some p \<longrightarrow> plain_path p"
  shows "regular fs1 \<and> (\<forall>path. r = Inr path \<longrightarrow> plain_path path)"
proof (cases r)
  case (Inl e)
  with claim_path_within [OF assms(1,2)] regular_le [of fs1 "entries fs"] regular_file [OF assms(3)] show ?thesis by auto
next
  case (Inr path)
  with claim_path_within [OF assms(1,2)] have w: "entries fs1 \<subseteq>\<^sub>m (entries fs)(path \<mapsto> Symlink slave)" by simp
  have "plain_path path"
    using claim_path_within [OF assms(1,2)] Inr assms(4)
    by (cases explicit) (auto simp: plain_path_def default_link_not_sidecar)
  then have "\<exists>c. x = File c" if "((entries fs)(path \<mapsto> Symlink slave)) (sidecar p) = Some x" for p x
    using that regular_file [OF assms(3), of p x] by (auto simp: plain_path_def split: if_splits)
  from regular_le [OF w this] \<open>plain_path path\<close> Inr show ?thesis by simp
qed

lemma claim_keeps_regular:
  assumes "claim os explicit tag slave fs = Some (r, fs')" "fs_ok fs" "regular fs"
    and "\<forall>p. explicit = Some p \<longrightarrow> plain_path p"
  shows "regular fs'"
proof -
  have put: "regular (snd (write_file (sidecar p) c fs1))" if "regular fs1" for p c fs1
  proof -
    have "regular_at fs1 p" using that by (simp add: regular_def)
    from write_sidecar [OF this, of c] that show ?thesis
      by (auto simp: regular_def regular_at_def split: option.split)
  qed
  have rm: "regular fs1 \<Longrightarrow> regular (remove_file p fs1)" for fs1 p
    by (simp add: regular_def regular_at_def)
  from assms(1,2) show ?thesis
  proof (cases rule: claim_cases)
    case (unclaimed e)
    with claim_path_keeps_regular [OF _ assms(2-4)] show ?thesis by blast
  next
    case (recorded path fs1)
    with claim_path_keeps_regular [OF recorded(1) assms(2-4)] put [of fs1] show ?thesis by (metis snd_conv)
  next
    case (unrecorded path fs1 fs2 e)
    with claim_path_keeps_regular [OF unrecorded(1) assms(2-4)] put [of fs1] rm show ?thesis by (metis snd_conv)
  qed
qed

section \<open>Two ways a claim can touch other files\<close>

text \<open>
  A write of the sidecar that fails half-way, on a full disk, is cleaned up only in part: the link
  goes, the sidecar stays.
\<close>

lemma failed_record_is_left:
  assumes "claim_path os explicit tag slave fs = Some (Inr path, fs1)" "fs_ok fs" "unspoofed fs explicit tag"
    and "write_err fs (sidecar path) = Some e" "write_left fs (sidecar path) = Some c"
  shows "\<exists>fs'. claim os explicit tag slave fs =
      Some (Inl [SetupError, Msg (chars ''write '' @ sidecar path), Os e], fs') \<and>
    entries fs' (sidecar path) = Some (File c)"
proof -
  from claim_path_ok(1) [OF assms(2,1)] assms(4,5)
  have "write_err fs1 (sidecar path) = Some e" "write_left fs1 (sidecar path) = Some c" by (simp_all add: same_rules_def)
  with write_sidecar [OF claim_path_regular [OF assms(1-3)]] assms(1) show ?thesis
    by (simp add: claim_def)
qed

text \<open>
  The name of the sidecar is predictable and \<open>fs::write\<close> follows symlinks: whoever has planted one
  there decides which file a successful claim overwrites with the pid.
\<close>

lemma planted_symlink_is_followed:
  assumes "claim_path os explicit tag slave fs = Some (Inr path, fs1)"
    and "entries fs1 (sidecar path) = Some (Symlink victim)" "take 1 victim = [47]" "entries fs1 victim = Some (File c)"
    and "write_err fs1 victim = None"
  shows "\<exists>fs'. claim os explicit tag slave fs = Some (Inr path, fs') \<and>
    entries fs' victim = Some (File (chars (decimal (self_pid os))))"
proof -
  have "(40 :: nat) = Suc 39" by simp
  then have "follow 40 (entries fs1) (sidecar path) = follow 39 (entries fs1) victim"
    using assms(2,3) by (simp only: follow.simps) (simp add: beside_def)
  then have "follow 40 (entries fs1) (sidecar path) = Some victim" using assms(4) by (simp add: follow_plain)
  with assms show ?thesis by (simp add: claim_def write_file_def put_file_def)
qed

end
