(* ===== verification/Claim_Race.thy ===== *)
theory Claim_Race
  imports Claim_Laws
begin

text \<open>
  Claims of one path by several processes at once: \<open>Link::claim\<close> of \<open>src/forge/pty.rs\<close> as a machine of
  single system calls, any number of which run interleaved.  Alone it is the claim of the theory
  Link; on a path that is free or held by a living process at most one of them comes to own it;
  on a stale one two may.
\<close>

section \<open>Claims broken into system calls\<close>

text \<open>
  Two or more processes may be inside \<open>claim\<close> at once.  \<open>tick\<close> performs the next system call of
  one of them: the symlink, the read of the sidecar with the liveness probe, the two unlinks of
  \<open>reclaim_if_stale\<close>, the write of the sidecar.  A claimant is its slave path, its pid and the
  point it has reached.
\<close>

datatype claim_pc = Linking | Probing | Unlinking | UnlinkingSidecar | Recording | Owner | Busy | Failed

record claimant =
  target :: rstring
  pid :: nat
  pc :: claim_pc

definition claim_tick :: "procs \<Rightarrow> rstring \<Rightarrow> claimant \<times> fs \<Rightarrow> claimant \<times> fs" where
  "claim_tick os link = (\<lambda>(c, fs).
     (case pc c of
        Linking \<Rightarrow>
          (case symlink (target c) link fs of
             (IoOk _, fs) \<Rightarrow> (c\<lparr>pc := Recording\<rparr>, fs)
           | (IoErr e, fs) \<Rightarrow> (c\<lparr>pc := (if e = AlreadyExists then Probing else Failed)\<rparr>, fs))
      | Probing \<Rightarrow> (c\<lparr>pc := (if stale os fs link then Unlinking else Busy)\<rparr>, fs)
      | Unlinking \<Rightarrow> (c\<lparr>pc := UnlinkingSidecar\<rparr>, remove_file link fs)
      | UnlinkingSidecar \<Rightarrow> (c\<lparr>pc := Linking\<rparr>, remove_file (sidecar link) fs)
      | Recording \<Rightarrow>
          (case write_file (sidecar link) (chars (decimal (pid c))) fs of
             (IoOk _, fs) \<Rightarrow> (c\<lparr>pc := Owner\<rparr>, fs)
           | (IoErr _, fs) \<Rightarrow> (c\<lparr>pc := Failed\<rparr>, remove_file link fs))
      | _ \<Rightarrow> (c, fs)))"

inductive race :: "procs \<Rightarrow> rstring \<Rightarrow> (nat \<Rightarrow> claimant) \<times> fs \<Rightarrow> (nat \<Rightarrow> claimant) \<times> fs \<Rightarrow> bool"
  for os link where
  race_refl: "race os link s s"
| race_step: "race os link s (cs, fs) \<Longrightarrow> claim_tick os link (cs i, fs) = (c', fs') \<Longrightarrow>
    race os link s (cs(i := c'), fs')"

fun schedule :: "procs \<Rightarrow> rstring \<Rightarrow> nat list \<Rightarrow> (nat \<Rightarrow> claimant) \<times> fs \<Rightarrow> (nat \<Rightarrow> claimant) \<times> fs" where
  "schedule os link [] s = s"
| "schedule os link (i # is) (cs, fs) =
     (case claim_tick os link (cs i, fs) of (c', fs') \<Rightarrow> schedule os link is (cs(i := c'), fs'))"

lemma race_trans: "race os link t u \<Longrightarrow> race os link s t \<Longrightarrow> race os link s u"
  by (induction rule: race.induct) (auto intro: race_step)

lemma schedule_race: "race os link s (schedule os link is s)"
proof (induction "is" arbitrary: s)
  case (Cons i "is")
  obtain cs fs where s: "s = (cs, fs)" by fastforce
  obtain c' fs' where t: "claim_tick os link (cs i, fs) = (c', fs')" by fastforce
  have "race os link s (cs(i := c'), fs')" unfolding s
    by (rule race_step [where cs = cs and i = i, OF race_refl t])
  with Cons.IH [of "(cs(i := c'), fs')"] t show ?case
    by (simp add: s) (rule race_trans)
qed (simp add: race_refl)

text \<open>Alone, the steps are \<open>try_claim_link\<close> followed by the write of the sidecar.\<close>

fun ticks :: "nat \<Rightarrow> procs \<Rightarrow> rstring \<Rightarrow> claimant \<times> fs \<Rightarrow> claimant \<times> fs" where
  "ticks 0 os link s = s"
| "ticks (Suc n) os link s = ticks n os link (claim_tick os link s)"

lemma ticks_stale:
  assumes "entries fs link \<noteq> None" "stale os fs link" "pc c = Linking"
  shows "ticks (Suc (Suc (Suc (Suc n)))) os link (c, fs) = ticks n os link (c, link_drop link fs)"
proof -
  have self: "c\<lparr>pc := Linking\<rparr> = c" using assms(3) by (cases c) simp
  from assms show ?thesis by (simp add: claim_tick_def symlink_def link_drop_def self)
qed

lemma claim_tick_owner [simp]:
  "pc c = Owner \<Longrightarrow> claim_tick os link (c, fs) = (c, fs)" "pc c = Busy \<Longrightarrow> claim_tick os link (c, fs) = (c, fs)"
  "pc c = Failed \<Longrightarrow> claim_tick os link (c, fs) = (c, fs)"
  by (simp_all add: claim_tick_def)

text \<open>The point a claimant has reached when \<open>try_claim_link\<close> returns.\<close>

definition outcome_pc :: "error + bool \<Rightarrow> claim_pc" where
  "outcome_pc r = (case r of Inl _ \<Rightarrow> Failed | Inr b \<Rightarrow> if b then Recording else Busy)"

lemma ticks_fresh:
  assumes "entries fs link = None" "pc c = Linking" "fs_ok fs"
  shows "create_err fs link = None \<Longrightarrow> ticks (Suc 0) os link (c, fs) =
      (c\<lparr>pc := Recording\<rparr>, fs\<lparr>entries := (entries fs)(link \<mapsto> Symlink (target c))\<rparr>)"
    and "create_err fs link = Some e \<Longrightarrow> ticks (Suc 0) os link (c, fs) = (c\<lparr>pc := Failed\<rparr>, fs)"
proof -
  have "create_err fs link \<noteq> Some AlreadyExists" using assms(3) by (simp add: fs_ok_def)
  then show "create_err fs link = None \<Longrightarrow> ticks (Suc 0) os link (c, fs) =
      (c\<lparr>pc := Recording\<rparr>, fs\<lparr>entries := (entries fs)(link \<mapsto> Symlink (target c))\<rparr>)"
    and "create_err fs link = Some e \<Longrightarrow> ticks (Suc 0) os link (c, fs) = (c\<lparr>pc := Failed\<rparr>, fs)"
    using assms(1,2) by (auto simp: claim_tick_def symlink_def)
qed

lemma ticks_busy:
  assumes "entries fs link \<noteq> None" "\<not> stale os fs link" "pc c = Linking"
  shows "ticks (Suc (Suc 0)) os link (c, fs) = (c\<lparr>pc := Busy\<rparr>, fs)"
  using assms by (simp add: claim_tick_def symlink_def)

lemma solo_claim:
  assumes "fs_ok fs" "try_claim_link os link (target c) fs = Some (r, fs')" "pc c = Linking"
  shows "\<exists>n. ticks n os link (c, fs) = (c\<lparr>pc := outcome_pc r\<rparr>, fs')"
proof -
  have fresh: "\<exists>n. ticks n os link (c, g) = (c\<lparr>pc := outcome_pc r\<rparr>, g')"
    if g: "entries g link = None" "fs_ok g" "try_claim_link os link (target c) g = Some (r, g')" for g g'
  proof (cases "create_err g link")
    case None
    from try_claim_free(1) [OF g(1,2) None, of os "target c"] ticks_fresh(1) [OF g(1) assms(3) g(2) None, of os] g(3)
    show ?thesis by (auto simp: outcome_pc_def simp del: ticks.simps)
  next
    case (Some e)
    from try_claim_free(2) [OF g(1,2) Some, of os "target c"] ticks_fresh(2) [OF g(1) assms(3) g(2) Some, of os] g(3)
    show ?thesis by (auto simp: outcome_pc_def simp del: ticks.simps chars_simps)
  qed
  have busy: "\<exists>n. ticks n os link (c, g) = (c\<lparr>pc := outcome_pc r\<rparr>, g')"
    if g: "entries g link \<noteq> None" "\<not> stale os g link" "try_claim_link os link (target c) g = Some (r, g')" for g g'
    using ticks_busy [OF g(1,2) assms(3)] try_claim_busy [OF g(1,2), of "target c"] g(3)
    by (auto simp: outcome_pc_def simp del: ticks.simps)
  show ?thesis
  proof (cases "entries fs link \<noteq> None \<and> stale os fs link")
    case False
    then show ?thesis using fresh [OF _ assms(1,2)] busy [OF _ _ assms(2)] by blast
  next
    case True
    let ?g = "link_drop link fs"
    have t: "try_claim_link os link (target c) ?g = Some (r, fs')"
      using True assms(2) try_claim_stale by metis
    have "\<not> stuck os fs link" by (rule try_claim_Some_not_stuck [OF assms(2)])
    then have "entries ?g link = None \<or> entries ?g (sidecar link) = None"
      using True by (auto simp: stuck_def link_drop_def)
    then have "\<exists>n. ticks n os link (c, ?g) = (c\<lparr>pc := outcome_pc r\<rparr>, fs')"
      using fresh [OF _ _ t] busy [OF _ _ t] assms(1) stale_has_sidecar [of os ?g link]
      by (cases "entries ?g link = None") auto
    then show ?thesis using ticks_stale [of fs link os c] True assms(3) by metis
  qed
qed

text \<open>
  (C37) Two processes that reclaim the same stale link at once can both come to own it: if one has
  found the old owner dead and the other completes its claim before the first goes on, the first
  removes the link and the sidecar of a live process and links its own port.
\<close>

theorem race_removes_live_link:
  "\<exists>cs fs. race demo_procs (chars ''/tmp/x'')
      ((\<lambda>i. \<lparr>target = (if i = 0 then chars ''/dev/pts/5'' else chars ''/dev/pts/6''), pid = (if i = 0 then 8 else 9),
          pc = Linking\<rparr>), demo_fs (\<lambda>_. True)) (cs, fs) \<and>
    pc (cs 0) = Owner \<and> pc (cs 1) = Owner \<and> process_alive demo_procs 8 \<and> process_alive demo_procs 9 \<and>
    entries fs (chars ''/tmp/x'') = Some (Symlink (chars ''/dev/pts/6''))"
proof -
  let ?x = "chars ''/tmp/x''" and ?fs = "demo_fs (\<lambda>_. True)"
  let ?s = "((\<lambda>i. \<lparr>target = (if i = 0 then chars ''/dev/pts/5'' else chars ''/dev/pts/6''),
      pid = (if i = 0 then 8 else 9), pc = Linking\<rparr>) :: nat \<Rightarrow> claimant, ?fs)"
  let ?order = "[1, 1, 0, 0, 0, 0, 0, 0, 1, 1, 1, 1] :: nat list"
  let ?e = "schedule demo_procs ?x ?order ?s"
  have st: "stale demo_procs ?fs ?x" by (rule demo_stale(1))
  have "pc (fst ?e 0) = Owner \<and> pc (fst ?e 1) = Owner \<and>
      entries (snd ?e) ?x = Some (Symlink (chars ''/dev/pts/6''))"
    using st by (simp add: claim_tick_def symlink_def write_file_def follow_plain put_file_def demo_fs_def sidecar_def)
  moreover have "process_alive demo_procs 8" "process_alive demo_procs 9"
    by (simp_all add: process_alive_def demo_procs_def)
  moreover have "race demo_procs ?x ?s (fst ?e, snd ?e)"
    using schedule_race [of demo_procs ?x ?s ?order] by simp
  ultimately show ?thesis by blast
qed


text \<open>
  Without a competitor the system calls add up to the code's loop: a claimant that runs
  alone reaches the file system and the verdict of \<open>try_claim_link\<close>, so the race above comes from
  interleaving only.
\<close>

theorem solo_claim_refines:
  assumes "fs_ok fs" and "try_claim_link os link (target c) fs = Some (r, fs')" and "pc c = Linking"
  shows "\<exists>n. ticks n os link (c, fs) = (c\<lparr>pc := outcome_pc r\<rparr>, fs')"
  by (rule solo_claim [OF assms])

theorem solo_claim_refines_witness:
  "\<exists>n r fs'. ticks n demo_procs (chars ''/tmp/x'') (\<lparr>target = chars ''/dev/pts/5'', pid = 8, pc = Linking\<rparr>, demo_fs (\<lambda>_. True)) =
     (\<lparr>target = chars ''/dev/pts/5'', pid = 8, pc = outcome_pc r\<rparr>, fs')"
proof -
  let ?fs = "demo_fs (\<lambda>_. True)" and ?x = "chars ''/tmp/x''" and ?s = "chars ''/dev/pts/5''"
  have "\<not> stuck demo_procs ?fs ?x" by (simp add: stuck_def demo_fs_def)
  then have "try_claim_link demo_procs ?x ?s ?fs \<noteq> None" using try_claim_None_iff [OF demo_ok] by blast
  then obtain r fs' where "try_claim_link demo_procs ?x ?s ?fs = Some (r, fs')" by force
  then show ?thesis
    using solo_claim_refines [OF demo_ok, of demo_procs ?x "\<lparr>target = ?s, pid = 8, pc = Linking\<rparr>" "\<lambda>_. True" r fs']
    by auto
qed

declare chars_simps [simp del]

section \<open>One owner\<close>

text \<open>
  The invariant of claims of a path that was not stale: nobody is removing anything, at most one
  claimant is past the symlink, the path is its own then, and the sidecar names a living process.
\<close>

definition winning :: "claimant \<Rightarrow> bool" where
  "winning c \<longleftrightarrow> pc c = Recording \<or> pc c = Owner"

definition exclusive :: "procs \<Rightarrow> rstring \<Rightarrow> (nat \<Rightarrow> claimant) \<times> fs \<Rightarrow> bool" where
  "exclusive os link = (\<lambda>(cs, fs).
     fs_ok fs \<and> whole_writes fs \<and> regular_at fs link \<and> \<not> stale os fs link \<and>
     (\<forall>i. pc (cs i) \<noteq> Unlinking \<and> pc (cs i) \<noteq> UnlinkingSidecar \<and>
        pid (cs i) < 2 ^ 31 \<and> process_alive os (int (pid (cs i)))) \<and>
     (\<forall>i. winning (cs i) \<longrightarrow> entries fs link = Some (Symlink (target (cs i))) \<and> (\<forall>j. winning (cs j) \<longrightarrow> j = i)) \<and>
     (\<forall>i. pc (cs i) = Owner \<longrightarrow> entries fs (sidecar link) = Some (File (chars (decimal (pid (cs i)))))))"

lemma claim_tick_cases:
  assumes "claim_tick os link (c, fs) = (c', fs')" "\<not> stale os fs link" "fs_ok fs" "whole_writes fs" "regular_at fs link"
  obtains (linked) "pc c = Linking" "entries fs link = None" "c' = c\<lparr>pc := Recording\<rparr>"
      "fs' = fs\<lparr>entries := (entries fs)(link \<mapsto> Symlink (target c))\<rparr>"
  | (recorded) "pc c = Recording" "c' = c\<lparr>pc := Owner\<rparr>"
      "fs' = fs\<lparr>entries := (entries fs)(sidecar link \<mapsto> File (chars (decimal (pid c))))\<rparr>"
  | (failed) "pc c = Recording" "c' = c\<lparr>pc := Failed\<rparr>" "fs' = remove_file link fs"
  | (waited) q where "pc c = Linking \<or> pc c = Probing" "q = Probing \<or> q = Busy \<or> q = Failed" "c' = c\<lparr>pc := q\<rparr>" "fs' = fs"
  | (stayed) "c' = c" "fs' = fs" "\<not> (pc c = Linking \<or> pc c = Probing \<or> pc c = Recording)"
  | (removing) "pc c = Unlinking \<or> pc c = UnlinkingSidecar"
proof (cases "pc c")
  case Linking
  have "create_err fs link \<noteq> Some AlreadyExists" using assms(3) by (simp add: fs_ok_def)
  with assms(1) Linking show ?thesis
    by (cases "entries fs link"; cases "create_err fs link")
      (auto simp: claim_tick_def symlink_def intro: linked waited [of Failed] waited [of Probing])
next
  case Recording
  with assms(1,4) write_sidecar [OF assms(5), of "chars (decimal (pid c))"] show ?thesis
    by (auto simp: claim_tick_def whole_writes_def intro: recorded failed split: option.splits)
qed (use assms(1,2) in \<open>auto simp: claim_tick_def intro: waited stayed removing\<close>)

lemma exclusive_step:
  assumes "exclusive os link (cs, fs)" "claim_tick os link (cs i, fs) = (c', fs')"
  shows "exclusive os link (cs(i := c'), fs')"
proof -
  from assms(1) have inv: "fs_ok fs" "whole_writes fs" "regular_at fs link" "\<not> stale os fs link"
    "\<And>i. pc (cs i) \<noteq> Unlinking" "\<And>i. pc (cs i) \<noteq> UnlinkingSidecar"
    "\<And>i. pid (cs i) < 2 ^ 31" "\<And>i. process_alive os (int (pid (cs i)))"
    "\<And>i. winning (cs i) \<Longrightarrow> entries fs link = Some (Symlink (target (cs i)))"
    "\<And>i j. winning (cs i) \<Longrightarrow> winning (cs j) \<Longrightarrow> j = i"
    "\<And>i. pc (cs i) = Owner \<Longrightarrow> entries fs (sidecar link) = Some (File (chars (decimal (pid (cs i)))))"
    by (auto simp: exclusive_def)
  from assms(2) inv(4,1,2,3) show ?thesis
  proof (cases rule: claim_tick_cases)
    case linked
    then have none: "\<not> winning (cs j)" for j using inv(9) by fastforce
    have "\<not> stale os fs' link" using stale_cong [of fs link fs' os] linked(4) inv(3,4) by simp
    with linked inv none show ?thesis
      by (auto simp: exclusive_def fs_ok_def whole_writes_def winning_def)
  next
    case recorded
    then have w: "winning (cs i)" by (simp add: winning_def)
    have side: "entries fs' (sidecar link) = Some (File (chars (decimal (pid (cs i)))))" using recorded by simp
    then have "\<not> stale os fs' link" "regular_at fs' link"
      using own_sidecar_live [OF side inv(7,8)] by (simp_all add: regular_at_def)
    moreover have "winning ((cs(i := c')) j) \<longleftrightarrow> j = i" for j using recorded w inv(10) by (auto simp: winning_def)
    moreover have "pc (cs j) \<noteq> Owner" if "j \<noteq> i" for j using that inv(10) [OF w, of j] by (auto simp: winning_def)
    ultimately show ?thesis
      using recorded inv side inv(9) [OF w] by (auto simp: exclusive_def fs_ok_def whole_writes_def)
  next
    case failed
    then have w: "winning (cs i)" by (simp add: winning_def)
    then have none: "\<not> winning ((cs(i := c')) j)" for j using failed inv(10) by (auto simp: winning_def)
    then have "pc ((cs(i := c')) j) \<noteq> Owner" for j by (auto simp: winning_def)
    moreover have "\<not> stale os fs' link" "regular_at fs' link"
      using stale_cong [of fs link fs' os] regular_cong [of fs link fs'] failed(3) inv(3,4) by simp_all
    ultimately show ?thesis
      using failed inv none by (auto simp: exclusive_def fs_ok_def whole_writes_def)
  next
    case (waited q)
    then have "winning ((cs(i := c')) j) \<longleftrightarrow> winning (cs j)" "target ((cs(i := c')) j) = target (cs j)"
      "pid ((cs(i := c')) j) = pid (cs j)" "pc ((cs(i := c')) j) = Owner \<longleftrightarrow> pc (cs j) = Owner" for j
      by (auto simp: winning_def)
    with waited inv show ?thesis by (auto simp: exclusive_def)
  next
    case stayed
    with assms(1) show ?thesis by simp
  next
    case removing
    with inv(5,6) show ?thesis by blast
  qed
qed

lemma race_exclusive: "race os link s t \<Longrightarrow> exclusive os link s \<Longrightarrow> exclusive os link t"
  by (induction rule: race.induct) (auto intro: exclusive_step)

lemma race_keeps_identity:
  "race os link s t \<Longrightarrow> \<forall>i. target (fst t i) = target (fst s i) \<and> pid (fst t i) = pid (fst s i)"
proof (induction rule: race.induct)
  case (race_step s cs fs j c' fs')
  have "target c' = target (cs j) \<and> pid c' = pid (cs j)"
    using race_step.hyps(2) by (auto simp: claim_tick_def split: claim_pc.splits prod.splits io_result.splits)
  with race_step.IH show ?case by auto
qed simp

text \<open>
  (C26) One owner: any number of living processes that claim a path at the same time, whatever the
  order of their system calls and whichever of them fail, end with at most one owner, the path is
  linked to its port and the sidecar names it -- provided the path was not stale when they began,
  that is free or held by a process that may be alive.
\<close>

theorem claims_have_one_owner:
  assumes "race os link (cs0, fs0) (cs, fs)" and "\<forall>i. pc (cs0 i) = Linking"
    and "\<forall>i. pid (cs0 i) < 2 ^ 31 \<and> process_alive os (int (pid (cs0 i)))"
    and "fs_ok fs0" and "whole_writes fs0" and "regular_at fs0 link" and "\<not> stale os fs0 link"
    and "pc (cs i) = Owner"
  shows "entries fs link = Some (Symlink (target (cs0 i))) \<and>
    entries fs (sidecar link) = Some (File (chars (decimal (pid (cs0 i))))) \<and>
    (\<forall>j. pc (cs j) = Owner \<longrightarrow> j = i)"
proof -
  have "exclusive os link (cs0, fs0)" using assms(2-7) by (simp add: exclusive_def winning_def)
  from race_exclusive [OF assms(1) this] race_keeps_identity [OF assms(1)] assms(8)
  show ?thesis by (auto simp: exclusive_def winning_def)
qed

text \<open>Two processes at a free path: one links it, the other finds it busy.\<close>

theorem claims_have_one_owner_witness:
  "\<exists>cs fs. race demo_procs (chars ''/tmp/z'')
      ((\<lambda>i. \<lparr>target = (if i = 0 then chars ''/dev/pts/5'' else chars ''/dev/pts/6''), pid = (if i = 0 then 8 else 9),
          pc = Linking\<rparr>), demo_fs (\<lambda>_. True)) (cs, fs) \<and>
    pc (cs 1) = Owner \<and> pc (cs 0) = Busy \<and> entries fs (chars ''/tmp/z'') = Some (Symlink (chars ''/dev/pts/6''))"
proof -
  let ?z = "chars ''/tmp/z''" and ?fs = "demo_fs (\<lambda>_. True)"
  obtain cs :: "nat \<Rightarrow> claimant" where cs: "cs = (\<lambda>i. \<lparr>target = (if i = 0 then chars ''/dev/pts/5'' else chars ''/dev/pts/6''),
      pid = (if i = 0 then 8 else 9), pc = Linking\<rparr>)" by blast
  let ?fs1 = "?fs\<lparr>entries := (entries ?fs)(?z \<mapsto> Symlink (chars ''/dev/pts/6''))\<rparr>"
  have e: "entries ?fs ?z = None" "entries ?fs (sidecar ?z) = None" "create_err ?fs ?z = None" "write_err ?fs p = None" for p
    by (simp_all add: demo_fs_def sidecar_def chars_simps)
  have free: "\<not> stale demo_procs fs ?z" if "entries fs (sidecar ?z) = None" for fs
    using stale_has_sidecar [of demo_procs fs ?z] that by blast
  have st: "\<not> stale demo_procs ?fs ?z" "\<not> stale demo_procs ?fs1 ?z" by (rule free, simp add: e)+
  have ticks: "claim_tick demo_procs ?z (c\<lparr>pc := Linking, target := chars ''/dev/pts/6''\<rparr>, ?fs) =
      (c\<lparr>pc := Recording, target := chars ''/dev/pts/6''\<rparr>, ?fs1)"
    "claim_tick demo_procs ?z (c\<lparr>pc := Linking\<rparr>, ?fs1) = (c\<lparr>pc := Probing\<rparr>, ?fs1)"
    "claim_tick demo_procs ?z (c\<lparr>pc := Probing\<rparr>, ?fs1) = (c\<lparr>pc := Busy\<rparr>, ?fs1)"
    "\<exists>fs2. claim_tick demo_procs ?z (c\<lparr>pc := Recording\<rparr>, ?fs1) = (c\<lparr>pc := Owner\<rparr>, fs2)" for c
    using st write_sidecar [of ?fs1 ?z] demo_regular
    by (simp_all add: claim_tick_def symlink_def e)
  obtain fs2 where final: "claim_tick demo_procs ?z ((cs 1)\<lparr>pc := Recording\<rparr>, ?fs1) = ((cs 1)\<lparr>pc := Owner\<rparr>, fs2)"
    using ticks(4) by blast
  have first: "claim_tick demo_procs ?z (cs 1, ?fs) = ((cs 1)\<lparr>pc := Recording\<rparr>, ?fs1)"
    using ticks(1) [of "cs 1"] by (simp add: cs)
  have second: "claim_tick demo_procs ?z (cs 0, ?fs1) = ((cs 0)\<lparr>pc := Probing\<rparr>, ?fs1)"
    using ticks(2) [of "cs 0"] by (simp add: cs)
  let ?c1 = "cs(1 := (cs 1)\<lparr>pc := Recording\<rparr>)"
  let ?c2 = "?c1(0 := (cs 0)\<lparr>pc := Probing\<rparr>)"
  let ?c3 = "?c2(0 := (cs 0)\<lparr>pc := Busy\<rparr>)"
  let ?c4 = "?c3(1 := (cs 1)\<lparr>pc := Owner\<rparr>)"
  have r1: "race demo_procs ?z (cs, ?fs) (?c1, ?fs1)"
    by (rule race_step [where i = 1 and cs = cs, OF race_refl first])
  have r2: "race demo_procs ?z (cs, ?fs) (?c2, ?fs1)"
    by (rule race_step [where i = 0, OF r1]) (use second in simp)
  have r3: "race demo_procs ?z (cs, ?fs) (?c3, ?fs1)"
    by (rule race_step [where i = 0, OF r2]) (use ticks(3) [of "cs 0"] in simp)
  have r4: "race demo_procs ?z (cs, ?fs) (?c4, fs2)"
    by (rule race_step [where i = 1, OF r3]) (use final in simp)
  have p: "pc (?c4 1) = Owner" "pc (?c4 0) = Busy" by simp_all
  have h: "\<forall>i. pc (cs i) = Linking" "\<forall>i. pid (cs i) < 2 ^ 31 \<and> process_alive demo_procs (int (pid (cs i)))"
    "whole_writes ?fs" "target (cs 1) = chars ''/dev/pts/6''"
    by (simp_all add: cs process_alive_def demo_procs_def whole_writes_def demo_fs_def)
  have "entries fs2 ?z = Some (Symlink (target (cs 1)))"
    using claims_have_one_owner [OF r4 h(1,2) demo_ok h(3) demo_regular st(1) p(1)] by blast
  with r4 p h(4) show ?thesis unfolding cs [symmetric] by (intro exI [of _ ?c4] exI [of _ fs2]) simp
qed

end
