(* ===== verification/Status.thy ===== *)
theory Status
  imports Wire Failure "HOL-Library.AList"
begin

text \<open>
  The readiness announcement of \<open>src/forge/status.rs\<close>: one path per line, or one JSON object.  The
  JSON writer is a library of another crate; its values are the datatype \<open>json\<close>, a \<open>Map\<close> is the
  association list its inserts build, and the text it writes for a value is a parameter.
\<close>

section \<open>Values\<close>

datatype json = JNull | JBool bool | JNat nat | JFloat f64 | JString rstring | JArray "json list"
  | JObject "(rstring \<times> json) list"

definition member :: "rstring \<Rightarrow> json \<Rightarrow> json option" where
  "member k j = (case j of JObject m \<Rightarrow> map_of m k | _ \<Rightarrow> None)"

definition insert_some :: "rstring \<Rightarrow> ('a \<Rightarrow> json) \<Rightarrow> 'a option \<Rightarrow> (rstring \<times> json) list \<Rightarrow> (rstring \<times> json) list" where
  "insert_some k f v m = (case v of None \<Rightarrow> m | Some x \<Rightarrow> AList.update k (f x) m)"

definition to_millis :: "duration \<Rightarrow> f64" where
  "to_millis d = (case as_secs_f64 d of Finite x \<Rightarrow> mul64 x 1000 | other \<Rightarrow> other)"

definition wire_value :: "wire_spec \<Rightarrow> json" where
  "wire_value w =
     JObject
       (insert_some (chars ''seed'') (\<lambda>s. JNat (unat s)) (spec_seed w)
       (insert_some (chars ''corrupt'') (\<lambda>p. JFloat (Finite p)) (spec_corrupt w)
       (insert_some (chars ''drop'') (\<lambda>p. JFloat (Finite p)) (spec_drop w)
       (insert_some (chars ''jitter_ms'') (\<lambda>d. JFloat (to_millis d)) (spec_jitter w)
       (insert_some (chars ''latency_ms'') (\<lambda>d. JFloat (to_millis d)) (spec_latency w)
       (insert_some (chars ''baud_sim'') (\<lambda>b. JNat (unat b)) (spec_baud w) []))))))"

definition object :: "nat \<Rightarrow> rstring \<Rightarrow> rstring list \<Rightarrow> json \<Rightarrow> wire_spec \<Rightarrow> json" where
  "object pid forge ports details wire =
     (let obj = AList.update (chars ''forge'') (JString forge) [];
          obj = AList.update (chars ''pid'') (JNat pid) obj;
          obj = AList.update (chars ''ports'') (JArray (map JString ports)) obj;
          obj = (case details of JObject extra \<Rightarrow> foldl (\<lambda>m (k, v). AList.update k v m) obj extra | _ \<Rightarrow> obj);
          obj = AList.update (chars ''wire'') (wire_value wire) obj
      in JObject obj)"

section \<open>Standard output\<close>

text \<open>
  \<open>io k\<close> is the outcome of the \<open>k\<close>th call on the locked stream, the flush the last one; what is
  printed is the lines before the first failure.
\<close>

fun write_lines :: "(nat \<Rightarrow> io_error option) \<Rightarrow> nat \<Rightarrow> rstring list \<Rightarrow> rstring \<times> (error + unit)" where
  "write_lines io k [] = ([], case io k of None \<Rightarrow> Inr () | Some e \<Rightarrow> Inl [Os e])"
| "write_lines io k (l # ls) =
     (case io k of
        Some e \<Rightarrow> ([], Inl [Os e])
      | None \<Rightarrow> apfst ((@) (l @ [10])) (write_lines io (Suc k) ls))"

definition announce ::
    "(json \<Rightarrow> rstring) \<Rightarrow> (nat \<Rightarrow> io_error option) \<Rightarrow> nat \<Rightarrow> bool \<Rightarrow> rstring \<Rightarrow> rstring list \<Rightarrow> json \<Rightarrow> wire_spec \<Rightarrow>
     rstring \<times> (error + unit)" where
  "announce render io pid json_mode forge ports details wire =
     write_lines io 0 (if json_mode then [render (object pid forge ports details wire)] else ports)"

section \<open>Laws\<close>

lemma write_lines_ok: "write_lines io k ls = (printed, Inr ()) \<Longrightarrow> printed = concat (map (\<lambda>l. l @ [10]) ls)"
  by (induction ls arbitrary: k printed) (auto simp: apfst_def map_prod_def split: option.splits prod.splits)

lemma write_lines_error: "write_lines io k ls = (printed, Inl e) \<Longrightarrow> (\<exists>x. e = [Os x]) \<and> (\<exists>n x. io n = Some x)"
  by (induction ls arbitrary: k printed) (auto simp: apfst_def map_prod_def split: option.splits prod.splits)

lemma insert_some_other: "k \<noteq> k' \<Longrightarrow> map_of (insert_some k' f v m) k = map_of m k"
  by (simp add: insert_some_def update_conv' split: option.split)

lemma insert_some_same: "map_of m k = None \<Longrightarrow> map_of (insert_some k f v m) k = map_option f v"
  by (simp add: insert_some_def update_conv' split: option.split)

lemma wire_value_members:
  "member (chars ''seed'') (wire_value w) = map_option (\<lambda>s. JNat (unat s)) (spec_seed w)"
  "member (chars ''corrupt'') (wire_value w) = map_option (\<lambda>p. JFloat (Finite p)) (spec_corrupt w)"
  "member (chars ''drop'') (wire_value w) = map_option (\<lambda>p. JFloat (Finite p)) (spec_drop w)"
  "member (chars ''jitter_ms'') (wire_value w) = map_option (\<lambda>d. JFloat (to_millis d)) (spec_jitter w)"
  "member (chars ''latency_ms'') (wire_value w) = map_option (\<lambda>d. JFloat (to_millis d)) (spec_latency w)"
  "member (chars ''baud_sim'') (wire_value w) = map_option (\<lambda>b. JNat (unat b)) (spec_baud w)"
  by (simp_all add: member_def wire_value_def insert_some_same insert_some_other)

lemma extend_lookup:
  "map_of (foldl (\<lambda>m (k, v). AList.update k v m) m extra) k =
     (case map_of (rev extra) k of None \<Rightarrow> map_of m k | Some v \<Rightarrow> Some v)"
  by (induction extra arbitrary: m) (auto simp: update_conv' map_of_append map_add_def split: option.split)

lemma resolved:
  assumes "spec_drop spec \<noteq> None \<or> spec_corrupt spec \<noteq> None \<or> spec_jitter spec \<noteq> None"
  obtains seed where "resolve_seed subsec pid spec = spec\<lparr>spec_seed := Some seed\<rparr>"
proof (cases "spec_seed spec")
  case None
  with assms that show ?thesis by (auto simp: resolve_seed_def Let_def)
next
  case (Some a)
  then have "spec\<lparr>spec_seed := Some a\<rparr> = spec" by (cases spec) simp
  with Some that [of a] show ?thesis by (simp add: resolve_seed_def Let_def)
qed

lemma resolve_given: "resolve_seed subsec pid (spec\<lparr>spec_seed := Some seed\<rparr>) = spec\<lparr>spec_seed := Some seed\<rparr>"
  by (simp add: resolve_seed_def Let_def)

section \<open>Properties\<close>

text \<open>
  (C35) The announced object is faithful and enough to replay a run: \<open>wire\<close> is the wire in use
  whatever the forge's own details are, and the other standard members are the forge's unless its
  details replace them; if the wire is stochastic a seed is in it, and the same options with that
  seed build, whenever and in whatever process, the very wires of this run for every session.
\<close>

theorem announced_seed_replays:
  "let used = resolve_seed subsec pid spec; j = object p forge ports (JObject details) used in
     member (chars ''wire'') j = Some (wire_value used) \<and>
     (map_of details (chars ''ports'') = None \<longrightarrow> member (chars ''ports'') j = Some (JArray (map JString ports))) \<and>
     (spec_drop spec \<noteq> None \<or> spec_corrupt spec \<noteq> None \<or> spec_jitter spec \<noteq> None \<longrightarrow>
       (\<exists>seed. member (chars ''seed'') (wire_value used) = Some (JNat (unat seed)) \<and>
          (\<forall>subsec' pid' n now. build_pair_nth (resolve_seed subsec' pid' (spec\<lparr>spec_seed := Some seed\<rparr>)) n now =
             build_pair_nth used n now)))"
proof -
  have d: "map_of (rev details) k = None" if "map_of details k = None" for k
    using that by (simp add: map_of_eq_None_iff)
  have r: "\<exists>seed. member (chars ''seed'') (wire_value used) = Some (JNat (unat seed)) \<and>
      (\<forall>subsec' pid' n now. build_pair_nth (resolve_seed subsec' pid' (spec\<lparr>spec_seed := Some seed\<rparr>)) n now =
         build_pair_nth used n now)"
    if "spec_drop spec \<noteq> None \<or> spec_corrupt spec \<noteq> None \<or> spec_jitter spec \<noteq> None"
      "used = resolve_seed subsec pid spec" for used
  proof -
    note u = that
    obtain seed where "used = spec\<lparr>spec_seed := Some seed\<rparr>"
      using resolved [OF u(1), of subsec pid] u(2) by metis
    with wire_value_members(1) [of used] show ?thesis by (auto intro!: exI [of _ seed] simp: resolve_given)
  qed
  show ?thesis
    unfolding Let_def
  proof (intro conjI impI)
    show "member (chars ''wire'') (object p forge ports (JObject details) (resolve_seed subsec pid spec)) =
        Some (wire_value (resolve_seed subsec pid spec))"
      by (simp add: object_def member_def update_conv')
    show "member (chars ''ports'') (object p forge ports (JObject details) (resolve_seed subsec pid spec)) =
        Some (JArray (map JString ports))" if "map_of details (chars ''ports'') = None"
      using d [OF that] by (simp add: object_def member_def update_conv' extend_lookup)
  qed (rule r [OF _ refl])
qed

theorem announced_seed_replays_witness:
  "\<exists>seed. member (chars ''seed'') (wire_value (resolve_seed 7 9 (default_spec\<lparr>spec_drop := Some (1 / 100)\<rparr>))) =
      Some (JNat (unat seed)) \<and>
    build_pair_nth (resolve_seed 1 2 (default_spec\<lparr>spec_drop := Some (1 / 100), spec_seed := Some seed\<rparr>)) 3 4 =
      build_pair_nth (resolve_seed 7 9 (default_spec\<lparr>spec_drop := Some (1 / 100)\<rparr>)) 3 4"
  using announced_seed_replays [of 7 9 "default_spec\<lparr>spec_drop := Some (1 / 100)\<rparr>" 9 "chars ''sim''" "[chars ''/tmp/p'']"
      "[(chars ''preset'', JString (chars ''at''))]"]
  unfolding Let_def by auto

end
