(* ===== verification/Wire_Args.thy ===== *)
theory Wire_Args
  imports Wire_Laws Endpoint
begin

text \<open>
  The wire's command line: \<open>parse_duration\<close> and \<open>parse_probability\<close> of \<open>src/forge/wire.rs\<close> over
  Rust's \<open>f64::from_str\<close>, and \<open>WireArgs\<close> with \<open>to_spec\<close> of \<open>src/main.rs\<close>.
\<close>

section \<open>Reading a double\<close>

text \<open>
  \<open>f64::from_str\<close>: an optional sign, then \<open>inf\<close>, \<open>infinity\<close> or \<open>nan\<close> in any case, or digits with
  at most one point and an optional exponent; the value is rounded once.
\<close>

definition digits_nat :: "rstring \<Rightarrow> nat" where
  "digits_nat ds = foldl (\<lambda>n c. 10 * n + (c - 48)) 0 ds"

definition split_sign :: "rstring \<Rightarrow> bool \<times> rstring" where
  "split_sign s = (case s of [] \<Rightarrow> (False, []) | c # cs \<Rightarrow> if c = 45 then (True, cs) else if c = 43 then (False, cs) else (False, s))"

definition read_exponent :: "rstring \<Rightarrow> int option" where
  "read_exponent s =
     (case s of
        [] \<Rightarrow> Some 0
      | c # cs \<Rightarrow>
          if c = 101 \<or> c = 69 then
            (case split_sign cs of (negative, ds) \<Rightarrow>
               if ds \<noteq> [] \<and> list_all is_ascii_digit ds
               then Some ((if negative then - 1 else 1) * int (digits_nat ds)) else None)
          else None)"

definition read_number :: "rstring \<Rightarrow> rat option" where
  "read_number s =
     (let whole = takeWhile is_ascii_digit s; after = dropWhile is_ascii_digit s;
          frac = (case after of c # cs \<Rightarrow> if c = 46 then takeWhile is_ascii_digit cs else [] | [] \<Rightarrow> []);
          rest = (case after of c # cs \<Rightarrow> if c = 46 then dropWhile is_ascii_digit cs else after | [] \<Rightarrow> [])
      in if whole = [] \<and> frac = [] then None
         else map_option (\<lambda>e. of_nat (digits_nat (whole @ frac)) * 10 powi (e - int (length frac))) (read_exponent rest))"

definition parse_f64 :: "rstring \<Rightarrow> f64 option" where
  "parse_f64 s =
     (case split_sign s of (negative, body) \<Rightarrow>
        if map to_ascii_lower body \<in> {chars ''inf'', chars ''infinity''} then Some (Infinity negative)
        else if map to_ascii_lower body = chars ''nan'' then Some NaN
        else map_option (\<lambda>x. round64 (if negative then - x else x)) (read_number body))"

section \<open>Durations and probabilities\<close>

text \<open>The literals \<open>1e-6\<close>, \<open>1e-3\<close> and \<open>1.0\<close>.\<close>

definition literal :: "rat \<Rightarrow> rat" where
  "literal x = (case round64 x of Finite v \<Rightarrow> v | _ \<Rightarrow> 0)"

definition duration_unit :: "rstring \<Rightarrow> rstring \<times> rat" where
  "duration_unit s =
     (case strip_suffix (chars ''us'') s of Some v \<Rightarrow> (v, literal (1 / 1000000))
      | None \<Rightarrow> (case strip_suffix (chars ''ms'') s of Some v \<Rightarrow> (v, literal (1 / 1000))
      | None \<Rightarrow> (case strip_suffix (chars ''s'') s of Some v \<Rightarrow> (v, literal 1)
      | None \<Rightarrow> (s, literal (1 / 1000)))))"

definition parse_duration :: "rstring \<Rightarrow> (rstring + duration) option" where
  "parse_duration s =
     (case duration_unit s of (num, scale) \<Rightarrow>
      case parse_f64 (trim num) of
        None \<Rightarrow> Some (Inl (chars ''bad duration '' @ debug_str s @ chars '' (try 5ms, 250us, 1.5s)''))
      | Some (Finite n) \<Rightarrow>
          if n < 0 then Some (Inl (chars ''duration '' @ debug_str s @ chars '' must be non-negative''))
          else map_option Inr (from_secs_f64 (mul64 n scale))
      | Some _ \<Rightarrow> Some (Inl (chars ''duration '' @ debug_str s @ chars '' must be non-negative'')))"

text \<open>\<open>show_f64\<close> is Rust's \<open>{}\<close> of a double.\<close>

definition parse_probability :: "(f64 \<Rightarrow> rstring) \<Rightarrow> rstring \<Rightarrow> rstring + rat" where
  "parse_probability show_f64 s =
     (case parse_f64 s of
        None \<Rightarrow> Inl (chars ''bad probability '' @ debug_str s @ chars '' (0.0..=1.0)'')
      | Some p \<Rightarrow>
          (case p of
             Finite v \<Rightarrow>
               if 0 \<le> v \<and> v \<le> 1 then Inr v
               else Inl (chars ''probability '' @ show_f64 p @ chars '' out of range 0.0..=1.0'')
           | _ \<Rightarrow> Inl (chars ''probability '' @ show_f64 p @ chars '' out of range 0.0..=1.0'')))"

section \<open>The options\<close>

record wire_args =
  baud_sim :: "u32 option"
  arg_latency :: "duration option"
  arg_jitter :: "duration option"
  arg_drop :: "rat option"
  arg_corrupt :: "rat option"
  arg_seed :: "u64 option"

definition to_spec :: "wire_args \<Rightarrow> wire_spec" where
  "to_spec a =
     \<lparr>spec_baud = baud_sim a, spec_latency = arg_latency a, spec_jitter = arg_jitter a, spec_drop = arg_drop a,
      spec_corrupt = arg_corrupt a, spec_seed = arg_seed a\<rparr>"

text \<open>
  What the attributes of \<open>WireArgs\<close> have clap run on the option values as given; the two integers
  have clap's own parsers.  The outer \<open>None\<close> is a panic of a parser.
\<close>

record raw_args =
  raw_baud_sim :: "u32 option"
  raw_latency :: "rstring option"
  raw_jitter :: "rstring option"
  raw_drop :: "rstring option"
  raw_corrupt :: "rstring option"
  raw_seed :: "u64 option"

definition opt_arg :: "('a \<Rightarrow> (rstring + 'b) option) \<Rightarrow> 'a option \<Rightarrow> (rstring + 'b option) option" where
  "opt_arg p v = (case v of None \<Rightarrow> Some (Inr None) | Some s \<Rightarrow> map_option (map_sum id Some) (p s))"

definition then_arg :: "(rstring + 'a) option \<Rightarrow> ('a \<Rightarrow> (rstring + 'b) option) \<Rightarrow> (rstring + 'b) option" where
  "then_arg r f = (case r of None \<Rightarrow> None | Some (Inl e) \<Rightarrow> Some (Inl e) | Some (Inr x) \<Rightarrow> f x)"

definition parse_wire_args :: "(f64 \<Rightarrow> rstring) \<Rightarrow> raw_args \<Rightarrow> (rstring + wire_args) option" where
  "parse_wire_args show_f64 raw =
     then_arg (opt_arg parse_duration (raw_latency raw)) (\<lambda>l.
     then_arg (opt_arg parse_duration (raw_jitter raw)) (\<lambda>j.
     then_arg (opt_arg (\<lambda>s. Some (parse_probability show_f64 s)) (raw_drop raw)) (\<lambda>d.
     then_arg (opt_arg (\<lambda>s. Some (parse_probability show_f64 s)) (raw_corrupt raw)) (\<lambda>c.
       Some (Inr \<lparr>baud_sim = raw_baud_sim raw, arg_latency = l, arg_jitter = j, arg_drop = d, arg_corrupt = c,
         arg_seed = raw_seed raw\<rparr>)))))"

section \<open>Laws\<close>

lemma digits_nat_value: "digits_value acc ds = Some n \<Longrightarrow> foldl (\<lambda>n c. 10 * n + (c - 48)) acc ds = n"
  by (induction ds arbitrary: acc) (auto split: if_splits)

lemma digits_nat_decimal: "digits_nat (chars (decimal n)) = n"
  unfolding digits_nat_def by (rule digits_nat_value [OF digits_value_decimal])

lemma decimal_all_digits: "list_all is_ascii_digit (chars (decimal n))"
  using decimal_digits by (auto simp: list_all_iff)

lemma takeWhile_all: "list_all P xs \<Longrightarrow> takeWhile P xs = xs \<and> dropWhile P xs = []"
  by (induction xs) auto

lemma parse_f64_decimal: "parse_f64 (chars (decimal n)) = Some (round64 (of_nat n))"
proof -
  obtain c cs where d: "chars (decimal n) = c # cs"
    by (metis chars_decimal_not_Nil neq_Nil_conv)
  then have c: "is_ascii_digit c" using hd_decimal_digit by blast
  then have "c \<noteq> 45" "c \<noteq> 43" "to_ascii_lower c \<noteq> 105" "to_ascii_lower c \<noteq> 110"
    by (auto simp: is_ascii_digit_def to_ascii_lower_def)
  moreover have "read_number (chars (decimal n)) = Some (of_nat n)"
    by (simp add: read_number_def digits_nat_decimal read_exponent_def takeWhile_all [OF decimal_all_digits])
  ultimately show ?thesis
    by (simp add: d parse_f64_def split_sign_def) (simp add: chars_def)
qed


lemma trim_decimal: "trim (chars (decimal n)) = chars (decimal n)"
proof -
  have d: "\<not> is_whitespace c" if "c \<in> set (chars (decimal n))" for c
    using decimal_digits [OF that] by (auto simp: is_ascii_digit_def is_whitespace_def)
  have id: "dropWhile is_whitespace xs = xs" if "set xs \<subseteq> set (chars (decimal n))" for xs
    using that d by (cases xs) auto
  show ?thesis by (simp add: trim_def trim_start_def trim_end_def id)
qed

lemma duration_unit_digits:
  assumes "is_ascii_digit d"
  shows "duration_unit ((r @ [d]) @ chars ''us'') = (r @ [d], literal (1 / 1000000))"
    "duration_unit ((r @ [d]) @ chars ''ms'') = (r @ [d], literal (1 / 1000))"
    "duration_unit ((r @ [d]) @ chars ''s'') = (r @ [d], literal 1)"
    "duration_unit (r @ [d]) = (r @ [d], literal (1 / 1000))"
proof -
  have "d \<noteq> 117" "d \<noteq> 109" "d \<noteq> 115" using assms by (auto simp: is_ascii_digit_def)
  then show "duration_unit ((r @ [d]) @ chars ''us'') = (r @ [d], literal (1 / 1000000))"
    "duration_unit ((r @ [d]) @ chars ''ms'') = (r @ [d], literal (1 / 1000))"
    "duration_unit ((r @ [d]) @ chars ''s'') = (r @ [d], literal 1)"
    "duration_unit (r @ [d]) = (r @ [d], literal (1 / 1000))"
    by (simp_all add: duration_unit_def strip_suffix_def chars_def)
qed

lemma decimal_snoc: obtains r d where "chars (decimal n) = r @ [d]" "is_ascii_digit d"
  by (metis chars_decimal_not_Nil decimal_digits in_set_conv_decomp rev_exhaust)

text \<open>Integers below \<open>2 ^ 53\<close> are doubles.\<close>

lemma round64_integer:
  assumes "n < 2 ^ 53"
  shows "round64 (of_nat n) = Finite (of_nat n)"
proof (cases "n = 0")
  case False
  let ?x = "of_nat n :: rat" and ?e = "max (exponent (of_nat n)) (-1022) - 52"
  have x: "0 < ?x" "?x < 2 ^ 53" using False assms by (simp, metis of_nat_less_iff of_nat_numeral of_nat_power)
  have "(2 :: rat) powi exponent ?x < 2 powi 53"
    using exponent_lower [OF x(1)] x(2) by (simp add: power_int_def)
  then have "exponent ?x < 53" using power_int_increasing [of 53 "exponent ?x" "2 :: rat"] by linarith
  then have e: "?e \<le> 0" by simp
  define k where "k = nat (- ?e)"
  have "?e = - int k" using e unfolding k_def by linarith
  then have u: "ulp ?x = inverse (2 ^ k)" unfolding ulp_def by (simp only: power_int_minus power_int_of_nat)
  have "?x / ulp ?x = of_int (int (n * 2 ^ k))" unfolding u by (simp add: field_simps)
  then have "of_int (rne (?x / ulp ?x)) * ulp ?x = ?x" using u by (simp only: rne_of_int) (simp add: field_simps)
  moreover have "\<not> ?x \<ge> 2 ^ 1024"
  proof -
    have "(2 :: rat) ^ 53 \<le> 2 ^ 1024" by (rule power_increasing) simp_all
    with x(2) show ?thesis by linarith
  qed
  ultimately show ?thesis using x(1) by (simp add: round64_def Let_def)
qed (simp add: round64_def)


lemma parse_duration_decimal:
  assumes "duration_unit (chars (decimal n) @ u) = (chars (decimal n), scale)" and "n < 2 ^ 53"
  shows "parse_duration (chars (decimal n) @ u) = map_option Inr (from_secs_f64 (mul64 (of_nat n) scale))"
  using assms(1) round64_integer [OF assms(2)]
  by (simp add: parse_duration_def trim_decimal parse_f64_decimal)

lemma from_secs_close:
  assumes "0 \<le> x" "\<bar>x * 10 ^ 9 - of_nat n\<bar> < 1 / 2" "n < DUR_LIMIT"
  shows "from_secs_f64 (Finite x) = Some n"
proof -
  have "rne (x * 10 ^ 9) = int n"
    using rne_error [of "x * 10 ^ 9"] assms(2) by linarith
  with assms(1,3) show ?thesis by (simp add: from_secs_f64_def Let_def)
qed

lemma literal_error:
  assumes "0 \<le> x" "x \<le> 1"
  shows "0 \<le> literal x" "\<bar>literal x - x\<bar> \<le> x / 2 ^ 53 + 1 / 10 ^ 30"
proof -
  have "x \<le> 2 ^ 1000" using assms(2) by (rule order_trans) simp
  from round64_finite [OF assms(1) this] obtain v where "round64 x = Finite v" "0 \<le> v" "\<bar>v - x\<bar> \<le> x / 2 ^ 53 + 1 / 10 ^ 30" .
  then show "0 \<le> literal x" "\<bar>literal x - x\<bar> \<le> x / 2 ^ 53 + 1 / 10 ^ 30" by (simp_all add: literal_def)
qed

text \<open>The product with a unit's literal is within half a nanosecond of what the digits say.\<close>

lemma scaled_duration:
  assumes "n \<le> 10 ^ 9" and u: "u \<le> 1 / 1000" "0 \<le> u" and k: "of_nat k = u * 10 ^ 9"
  shows "from_secs_f64 (mul64 (of_nat n) (literal u)) = Some (n * k)"
proof -
  have l: "0 \<le> literal u" "\<bar>literal u - u\<bar> \<le> u / 2 ^ 53 + 1 / 10 ^ 30" using literal_error [of u] u by simp_all
  have n: "(of_nat n :: rat) \<le> 10 ^ 9" using assms(1) by (metis of_nat_le_iff of_nat_numeral of_nat_power)
  let ?y = "of_nat n * literal u"
  have lu: "literal u \<le> 2 / 1000" using l(2) u(1) by (simp add: abs_le_iff)
  have y: "0 \<le> ?y" "?y \<le> 2 * 10 ^ 6"
    using l(1) mult_mono [OF n lu] by simp_all
  have "?y \<le> 2 ^ 1000" using y(2) by (rule order_trans) simp
  from round64_finite [OF y(1) this] obtain v where v: "round64 ?y = Finite v" "0 \<le> v" "\<bar>v - ?y\<bar> \<le> ?y / 2 ^ 53 + 1 / 10 ^ 30" .
  have "\<bar>?y - of_nat n * u\<bar> = of_nat n * \<bar>literal u - u\<bar>" by (simp add: abs_mult flip: right_diff_distrib)
  also have "\<dots> \<le> 10 ^ 9 * (1 / 1000 / 2 ^ 53 + 1 / 10 ^ 30)"
    using l(2) u(1) n by (intro mult_mono) (auto intro: order_trans)
  finally have "\<bar>?y - of_nat n * u\<bar> \<le> 10 ^ 9 * (1 / 1000 / 2 ^ 53 + 1 / 10 ^ 30)" .
  moreover have "\<bar>v - ?y\<bar> \<le> 2 * 10 ^ 6 / 2 ^ 53 + 1 / 10 ^ 30"
    by (rule order_trans [OF v(3) add_right_mono [OF divide_right_mono [OF y(2)]]]) simp
  moreover have "\<bar>v - of_nat n * u\<bar> \<le> \<bar>v - ?y\<bar> + \<bar>?y - of_nat n * u\<bar>"
    using abs_triangle_ineq [of "v - ?y" "?y - of_nat n * u"] by simp
  moreover have "2 * 10 ^ 6 / 2 ^ 53 + 1 / 10 ^ 30 + 10 ^ 9 * (1 / 1000 / 2 ^ 53 + 1 / 10 ^ 30) \<le> (2 / 5 / 10 ^ 9 :: rat)"
    by simp
  ultimately have "\<bar>v - of_nat n * u\<bar> \<le> 2 / 5 / 10 ^ 9" by linarith
  then have "\<bar>v - of_nat n * u\<bar> * 10 ^ 9 < 1 / 2" by simp
  moreover have e: "v * 10 ^ 9 - of_nat (n * k) = (v - of_nat n * u) * 10 ^ 9" using k by (simp add: field_simps)
  ultimately have "\<bar>v * 10 ^ 9 - of_nat (n * k)\<bar> < 1 / 2" unfolding e abs_mult by simp
  moreover have "n * k < DUR_LIMIT"
  proof -
    have "(of_nat k :: rat) \<le> of_nat (10 ^ 6)" using k u(1) by simp
    then have "k \<le> 10 ^ 6" by (simp only: of_nat_le_iff)
    with assms(1) have "n * k \<le> 10 ^ 9 * 10 ^ 6" by (rule mult_le_mono)
    then show ?thesis by simp
  qed
  ultimately show ?thesis using from_secs_close [OF v(2)] v(1) by (simp add: mul64_def)
qed


lemma literal_one [simp]: "literal 1 = 1"
  using round64_integer [of 1] by (simp add: literal_def)

lemma too_long:
  assumes "2 ^ 64 \<le> x"
  shows "from_secs_f64 (Finite x) = None"
proof -
  have "of_int (rne (x * 10 ^ 9)) \<ge> x * 10 ^ 9 - 1 / 2" using rne_error [of "x * 10 ^ 9"] by linarith
  moreover have "x * 10 ^ 9 \<ge> 2 ^ 64 * 10 ^ 9" using assms by simp
  ultimately have "of_int (rne (x * 10 ^ 9)) \<ge> (of_int (2 ^ 64 * 10 ^ 9) :: rat) - 1 / 2" by simp
  then have "rne (x * 10 ^ 9) \<ge> 2 ^ 64 * 10 ^ 9" by linarith
  with assms show ?thesis by (simp add: from_secs_f64_def Let_def)
qed

section \<open>Properties\<close>

text \<open>
  Whole durations are read exactly: a decimal number of microseconds, milliseconds or seconds
  up to a thousand million, or a bare one taken as milliseconds, gives exactly that many
  nanoseconds, although the code multiplies by the inexact doubles \<open>1e-6\<close> and \<open>1e-3\<close>.
\<close>

theorem durations_are_exact:
  assumes "n \<le> 10 ^ 9"
  shows "parse_duration (chars (decimal n) @ chars ''us'') = Some (Inr (n * 10 ^ 3)) \<and>
    parse_duration (chars (decimal n) @ chars ''ms'') = Some (Inr (n * 10 ^ 6)) \<and>
    parse_duration (chars (decimal n) @ chars ''s'') = Some (Inr (n * 10 ^ 9)) \<and>
    parse_duration (chars (decimal n)) = Some (Inr (n * 10 ^ 6))"
proof -
  obtain r d where d: "chars (decimal n) = r @ [d]" "is_ascii_digit d" by (rule decimal_snoc)
  note u = duration_unit_digits [OF d(2), of r, folded d(1)]
  have n: "n < 2 ^ 53" using assms by simp
  note p = parse_duration_decimal [OF _ n]
  have "n * 10 ^ 9 < DUR_LIMIT" using assms by simp
  then have s: "from_secs_f64 (mul64 (of_nat n) (literal 1)) = Some (n * 10 ^ 9)"
    using from_secs_close [of "of_nat n" "n * 10 ^ 9"] round64_integer [OF n] by (simp add: mul64_def)
  show ?thesis
    using p [OF u(1)] p [OF u(2)] p [OF u(3)] p [of "[]", simplified, OF u(4)] s
      scaled_duration [OF assms, of "1 / 1000000" "10 ^ 3"] scaled_duration [OF assms, of "1 / 1000" "10 ^ 6"]
    by simp
qed

theorem durations_are_exact_witness:
  "(250 :: nat) \<le> 10 ^ 9 \<and> parse_duration (chars (decimal 250) @ chars ''us'') = Some (Inr 250000)"
  using durations_are_exact [of 250] by simp

text \<open>
  A duration too long for the type is not an error but a panic: a number of seconds from
  \<open>2 ^ 65\<close> on is finite and non-negative, so the check lets it through, and the conversion panics.
\<close>

theorem huge_duration_panics:
  assumes "2 ^ 65 \<le> n" and "n \<le> 2 ^ 1000"
  shows "parse_duration (chars (decimal n) @ chars ''s'') = None"
proof -
  let ?x = "of_nat n :: rat"
  have x: "2 ^ 65 \<le> ?x" "?x \<le> 2 ^ 1000"
    using assms by (metis of_nat_le_iff of_nat_numeral of_nat_power)+
  have "0 \<le> ?x" by simp
  from round64_finite [OF this x(2)] obtain v where v: "round64 ?x = Finite v" "0 \<le> v" "\<bar>v - ?x\<bar> \<le> ?x / 2 ^ 53 + 1 / 10 ^ 30" .
  have big: "2 ^ 64 \<le> w" if "2 ^ 64 + 2 ^ 63 \<le> y" "\<bar>w - y\<bar> \<le> y / 2 ^ 53 + 1 / 10 ^ 30" for w y :: rat
    using that by (simp add: abs_le_iff)
  have v': "2 ^ 64 + 2 ^ 63 \<le> v" using v(3) x(1) by (simp add: abs_le_iff)
  obtain r d where d: "chars (decimal n) = r @ [d]" "is_ascii_digit d" by (rule decimal_snoc)
  have "from_secs_f64 (mul64 v 1) = None"
  proof (cases "round64 v")
    case (Finite w)
    with too_long [OF big [OF v' round64_error [OF v(2) Finite]]] show ?thesis by (simp add: mul64_def)
  qed (simp_all add: mul64_def from_secs_f64_def)
  with v(1,2) show ?thesis
    using duration_unit_digits(3) [OF d(2), of r, folded d(1)]
    by (simp add: parse_duration_def trim_decimal parse_f64_decimal)
qed

theorem huge_duration_panics_witness:
  "parse_duration (chars (decimal (2 ^ 65)) @ chars ''s'') = None"
proof -
  have "(2 :: nat) ^ 65 \<le> 2 ^ 1000" by (rule power_increasing) simp_all
  from huge_duration_panics [OF order_refl this] show ?thesis .
qed

definition spec_ok :: "wire_spec \<Rightarrow> bool" where
  "spec_ok spec \<longleftrightarrow>
     pred_option (\<lambda>d. d < DUR_LIMIT) (spec_latency spec) \<and> pred_option (\<lambda>d. d < DUR_LIMIT) (spec_jitter spec) \<and>
     pred_option (\<lambda>p. 0 \<le> p \<and> p \<le> 1) (spec_drop spec) \<and> pred_option (\<lambda>p. 0 \<le> p \<and> p \<le> 1) (spec_corrupt spec)"

lemma map_sum_Inr: "map_sum f g x = Inr r \<longleftrightarrow> (\<exists>y. x = Inr y \<and> r = g y)"
  by (cases x) auto

lemma opt_argE:
  assumes "opt_arg p v = Some (Inr r)" "\<And>s x. p s = Some (Inr x) \<Longrightarrow> Q x"
  shows "pred_option Q r"
  using assms by (cases v) (auto simp: opt_arg_def map_sum_Inr)

lemma parse_duration_bound: "parse_duration s = Some (Inr d) \<Longrightarrow> d < DUR_LIMIT"
  by (auto simp: parse_duration_def from_secs_f64_def Let_def split: option.splits f64.splits if_splits prod.splits)

lemma parse_probability_bound: "parse_probability show_f64 s = Inr p \<Longrightarrow> 0 \<le> p \<and> p \<le> 1"
  by (auto simp: parse_probability_def split: option.splits f64.splits if_splits)

text \<open>
  (C39) What the options yield is a well-formed wire: if the parsers accept them, the
  probabilities lie between 0 and 1 and the latency and jitter are representable, whatever was typed.
\<close>

theorem options_are_well_typed:
  assumes "parse_wire_args show_f64 raw = Some (Inr a)"
  shows "spec_ok (resolve_seed subsec pid (to_spec a))"
proof -
  from assms have "opt_arg parse_duration (raw_latency raw) = Some (Inr (arg_latency a))"
    "opt_arg parse_duration (raw_jitter raw) = Some (Inr (arg_jitter a))"
    "opt_arg (\<lambda>s. Some (parse_probability show_f64 s)) (raw_drop raw) = Some (Inr (arg_drop a))"
    "opt_arg (\<lambda>s. Some (parse_probability show_f64 s)) (raw_corrupt raw) = Some (Inr (arg_corrupt a))"
    by (auto simp: parse_wire_args_def then_arg_def split: option.splits sum.splits)
  note p = this [THEN opt_argE]
  have "pred_option (\<lambda>d. d < DUR_LIMIT) (arg_latency a)" "pred_option (\<lambda>d. d < DUR_LIMIT) (arg_jitter a)"
    "pred_option (\<lambda>p. 0 \<le> p \<and> p \<le> 1) (arg_drop a)" "pred_option (\<lambda>p. 0 \<le> p \<and> p \<le> 1) (arg_corrupt a)"
    by (rule p, auto dest: parse_duration_bound parse_probability_bound)+
  then show ?thesis by (simp add: spec_ok_def resolve_seed_def to_spec_def Let_def)
qed


theorem options_are_well_typed_witness:
  "\<exists>a. parse_wire_args (\<lambda>_. []) \<lparr>raw_baud_sim = Some 9600, raw_latency = Some (chars (decimal 5) @ chars ''ms''), raw_jitter = None,
      raw_drop = Some (chars (decimal 1)), raw_corrupt = None, raw_seed = None\<rparr> = Some (Inr a) \<and>
    arg_latency a = Some 5000000 \<and> arg_drop a = Some 1 \<and> spec_ok (resolve_seed 1 2 (to_spec a))"
proof -
  have "parse_duration (chars (decimal 5) @ chars ''ms'') = Some (Inr 5000000)"
    using durations_are_exact [of 5] by simp
  moreover have "parse_probability (\<lambda>_. []) (chars (decimal 1)) = Inr 1"
    using round64_integer [of 1] by (simp add: parse_probability_def parse_f64_decimal)
  ultimately obtain a where a: "parse_wire_args (\<lambda>_. []) \<lparr>raw_baud_sim = Some 9600,
      raw_latency = Some (chars (decimal 5) @ chars ''ms''), raw_jitter = None,
      raw_drop = Some (chars (decimal 1)), raw_corrupt = None, raw_seed = None\<rparr> = Some (Inr a)"
      "arg_latency a = Some 5000000" "arg_drop a = Some 1"
    by (simp add: parse_wire_args_def then_arg_def opt_arg_def)
  from options_are_well_typed [OF a(1)] a show ?thesis by blast
qed

end
