(* ===== verification/Forges.thy ===== *)
theory Forges
  imports Sim Mux Null_Modem Claim_Race Status Wire_Args
begin

text \<open>
  The four forges from the command line to the exit code: the \<open>run\<close> functions of \<open>pair.rs\<close>,
  \<open>sim.rs\<close>, \<open>bridge.rs\<close> and \<open>mux.rs\<close>, \<open>Shutdown::install\<close> of \<open>signals.rs\<close>, and \<open>main\<close> of
  \<open>src/main.rs\<close>.  A \<open>run\<close> is written in the shape its values have in the code: what follows a
  claimed link runs in its scope, and the link is dropped when that scope is left, by whichever
  return.
\<close>

section \<open>The machine a forge runs on\<close>

text \<open>
  What the kernel and the libraries answer: \<open>h_openpty\<close>, \<open>h_ptsname\<close> and \<open>h_register\<close> to the \<open>n\<close>th
  \<open>VirtualPort::create\<close>, \<open>h_listen\<close> to binding an address (with the local address, if it can be
  told), \<open>h_spawn\<close> to starting a program, \<open>h_recv\<close> to receiving from a broadcast channel, \<open>h_stdout\<close> to the \<open>n\<close>th call on standard output.
\<close>

record host =
  h_procs :: procs
  h_libc :: libc
  h_strerror :: "int \<Rightarrow> rstring"
  h_openpty :: "nat \<Rightarrow> (nat \<times> nat \<times> tty, int option) sum"
  h_ptsname :: "nat \<Rightarrow> nat + rstring"
  h_register :: "nat \<Rightarrow> bool"
  h_device :: "tty io_result"
  h_device_registers :: bool
  h_listen :: "rstring \<Rightarrow> rstring option io_result"
  h_sigterm :: "io_error option"
  h_sigint :: "io_error option"
  h_stdout :: "nat \<Rightarrow> io_error option"
  h_render :: "json \<Rightarrow> rstring"
  h_spawn :: "rstring list \<Rightarrow> io_error option"
  h_join_error :: rstring
  h_recv :: "bytes list \<Rightarrow> nat \<Rightarrow> recv_result option"
  h_now :: instant

text \<open>
  How a run ended: what it returned (\<open>None\<close> is a panic), the file system it left, and, if it
  announced readiness, what it printed, the ports it published and the file system at that moment.
\<close>

type_synonym published = "(rstring \<times> rstring) list"

record outcome =
  o_result :: "(error + unit) option"
  o_fs :: fs
  o_ready :: "(rstring \<times> published \<times> fs) option"

text \<open>A phase of a run; \<open>None\<close> as long as it has not returned.\<close>

type_synonym phase = "fs \<Rightarrow> outcome option"

definition fails :: "error \<Rightarrow> phase" where
  "fails e fs = Some \<lparr>o_result = Some (Inl e), o_fs = fs, o_ready = None\<rparr>"

text \<open>\<open>ctx\<close>: the contexts the caller wraps around an error.\<close>

definition with_port :: "host \<Rightarrow> nat \<Rightarrow> error \<Rightarrow> (virtual_port \<Rightarrow> rstring \<Rightarrow> phase) \<Rightarrow> phase" where
  "with_port host n ctx rest fs =
     (case fst (create (h_strerror host) (h_openpty host n) (h_ptsname host n) (h_register host n)) of
        Inl e \<Rightarrow> fails (ctx @ e) fs
      | Inr (port, slave) \<Rightarrow> rest port slave fs)"

definition drop_links :: "rstring list \<Rightarrow> outcome \<Rightarrow> outcome" where
  "drop_links paths o' = o'\<lparr>o_fs := fold link_drop paths (o_fs o')\<rparr>"

definition with_link ::
    "host \<Rightarrow> rstring option \<Rightarrow> rstring \<Rightarrow> rstring \<Rightarrow> error \<Rightarrow> (rstring \<Rightarrow> phase) \<Rightarrow> phase" where
  "with_link host explicit tag slave ctx rest fs =
     (case claim (h_procs host) explicit tag slave fs of
        None \<Rightarrow> None
      | Some (Inl e, fs') \<Rightarrow> fails (ctx @ e) fs'
      | Some (Inr path, fs') \<Rightarrow> map_option (drop_links [path]) (rest path fs'))"

text \<open>The ports of \<open>mux\<close>: one after the other; on leaving, the vector of links is dropped in order.\<close>

fun with_links ::
    "host \<Rightarrow> nat \<Rightarrow> rstring list \<Rightarrow> virtual_port list \<Rightarrow> published \<Rightarrow> (virtual_port list \<Rightarrow> published \<Rightarrow> phase) \<Rightarrow> phase" where
  "with_links host n [] ports links rest fs = map_option (drop_links (map fst links)) (rest ports links fs)"
| "with_links host n (path # paths) ports links rest fs =
     (case fst (create (h_strerror host) (h_openpty host n) (h_ptsname host n) (h_register host n)) of
        Inl e \<Rightarrow> map_option (drop_links (map fst links)) (fails (Msg (chars (''port '' @ decimal (n + 1))) # e) fs)
      | Inr (port, slave) \<Rightarrow>
          (case claim (h_procs host) (Some path) (chars ''mux'') slave fs of
             None \<Rightarrow> None
           | Some (Inl e, fs') \<Rightarrow> map_option (drop_links (map fst links)) (fails e fs')
           | Some (Inr p, fs') \<Rightarrow>
               with_links host (Suc n) paths (ports @ [port]) (links @ [(p, slave)]) rest fs'))"

definition install :: "host \<Rightarrow> error + unit" where
  "install host =
     (case h_sigterm host of
        Some e \<Rightarrow> Inl [Msg (chars ''install SIGTERM handler''), Os e]
      | None \<Rightarrow>
          (case h_sigint host of
             Some e \<Rightarrow> Inl [Msg (chars ''install SIGINT handler''), Os e]
           | None \<Rightarrow> Inr ()))"

text \<open>Signals, readiness, and then the running phase with its result.\<close>

definition serve ::
    "host \<Rightarrow> bool \<Rightarrow> rstring \<Rightarrow> published \<Rightarrow> json \<Rightarrow> wire_spec \<Rightarrow> (error + unit) option option \<Rightarrow> phase" where
  "serve host json forge published details spec body fs =
     (case install host of
        Inl e \<Rightarrow> fails e fs
      | Inr _ \<Rightarrow>
          (case announce (h_render host) (h_stdout host) (self_pid (h_procs host)) json forge (map fst published) details spec of
             (printed, Inl e) \<Rightarrow> fails e fs
           | (printed, Inr _) \<Rightarrow>
               map_option (\<lambda>r. \<lparr>o_result = r, o_fs = fs, o_ready = Some (printed, published, fs)\<rparr>) body))"

section \<open>Running\<close>

text \<open>
  What runs is the machine of the forge's component, on a history of its events; it has returned
  when the history ends it.  The null modem, which ends when it is signalled:
\<close>

definition pair_body ::
    "host \<Rightarrow> wire_spec \<Rightarrow> virtual_port \<Rightarrow> virtual_port \<Rightarrow> (instant \<times> modem_event) list \<Rightarrow> (error + unit) option option" where
  "pair_body host spec port_a port_b es =
     (case build_pair_nth spec 0 (h_now host) of
        None \<Rightarrow> Some None
      | Some wires \<Rightarrow>
          (case modem_run (h_libc host) wires port_a port_b es of
             None \<Rightarrow> None
           | Some (m, _) \<Rightarrow> if nm_open m then None else Some (Some (Inr ()))))"

text \<open>The select loop of \<open>mux\<close>: ticks of the watchdog until a signal, which ends the tasks.\<close>

datatype watch = Ticked | Interrupted

fun watch_ports :: "libc \<Rightarrow> virtual_port list \<Rightarrow> watch list \<Rightarrow> virtual_port list option" where
  "watch_ports lc ports [] = None"
| "watch_ports lc ports (Interrupted # ws) = Some ports"
| "watch_ports lc ports (Ticked # ws) = watch_ports lc (map (\<lambda>p. snd (reassert_raw_if_needed lc p)) ports) ws"

definition mux_body ::
    "host \<Rightarrow> wire_spec \<Rightarrow> virtual_port list \<Rightarrow> (instant \<times> mux_event) list \<Rightarrow> watch list \<Rightarrow> (error + unit) option option" where
  "mux_body host spec ports es ws =
     (case mux_wires spec 0 (length ports) (h_now host) of
        None \<Rightarrow> Some None
      | Some wires \<Rightarrow>
          (case mux_run (h_recv host) wires es of
             None \<Rightarrow> None
           | Some _ \<Rightarrow> map_option (\<lambda>_. Some (Inr ())) (watch_ports (h_libc host) ports ws)))"

text \<open>In RFC2217 mode the bridge's watchdog spares the line parameters.\<close>

fun watch_bridge :: "libc \<Rightarrow> bool \<Rightarrow> virtual_port \<Rightarrow> watch list \<Rightarrow> virtual_port option" where
  "watch_bridge lc rfc port [] = None"
| "watch_bridge lc rfc port (Interrupted # ws) = Some port"
| "watch_bridge lc rfc port (Ticked # ws) =
     watch_bridge lc rfc
       (snd (if rfc then reassert_line_discipline_if_needed lc port else reassert_raw_if_needed lc port)) ws"

text \<open>\<open>es\<close> is the history of the spawned \<open>bridge_loop\<close>; if it has panicked, its join error ends the run.\<close>

definition bridge_body ::
    "host \<Rightarrow> wire_spec \<Rightarrow> bool \<Rightarrow> virtual_port \<Rightarrow> (instant \<times> bridge_event) list \<Rightarrow> watch list \<Rightarrow> (error + unit) option option" where
  "bridge_body host spec rfc port es ws =
     (case bridge_run \<lparr>bc_spec = spec, bc_rfc2217 = rfc, bc_libc = h_libc host,
             bc_pristine = pristine_settings (h_libc host) (port_termios port)\<rparr> es of
        None \<Rightarrow> None
      | Some (b, _) \<Rightarrow>
          if mode b = Dead then Some (Some (Inl [Msg (chars ''bridge task failed: '' @ h_join_error host)]))
          else map_option (\<lambda>_. Some (Inr ())) (watch_bridge (h_libc host) rfc port ws))"

definition preset_body ::
    "host \<Rightarrow> wire_spec \<Rightarrow> rstring \<Rightarrow> virtual_port \<Rightarrow> (instant \<times> preset_event) list \<Rightarrow> (error + unit) option option" where
  "preset_body host spec name port es =
     (case make_device name of
        Inl e \<Rightarrow> Some (Some (Inl e))
      | Inr dev \<Rightarrow>
          (case build_pair_nth spec 0 (h_now host) of
             None \<Rightarrow> Some None
           | Some wires \<Rightarrow>
               (case preset_run (h_libc host) wires dev port (h_now host) es of
                  None \<Rightarrow> None
                | Some (s, _) \<Rightarrow> (case p_pc s of PEnded r \<Rightarrow> Some (Some r) | PPanicked \<Rightarrow> Some None | _ \<Rightarrow> None))))"

definition exec_body ::
    "host \<Rightarrow> wire_spec \<Rightarrow> rstring list \<Rightarrow> virtual_port \<Rightarrow> (instant \<times> exec_event) list \<Rightarrow> (error + unit) option option" where
  "exec_body host spec exec port es =
     (case build_pair_nth spec 0 (h_now host) of
        None \<Rightarrow> Some None
      | Some wires \<Rightarrow>
          (case exec of
             [] \<Rightarrow> Some None
           | prog # args \<Rightarrow>
               (case h_spawn host exec of
                  Some e \<Rightarrow> Some (Some (Inl [SetupError, Msg (chars ''spawn device program `'' @ prog @ chars ''`''), Os e]))
                | None \<Rightarrow>
                    (case exec_run (h_libc host) wires port es of
                       None \<Rightarrow> None
                     | Some (s, _) \<Rightarrow> map_option Some (x_result s)))))"

section \<open>The forges\<close>

text \<open>What happens while a forge runs.\<close>

record history =
  hist_modem :: "(instant \<times> modem_event) list"
  hist_mux :: "(instant \<times> mux_event) list"
  hist_watch :: "watch list"
  hist_bridge :: "(instant \<times> bridge_event) list"
  hist_preset :: "(instant \<times> preset_event) list"
  hist_exec :: "(instant \<times> exec_event) list"

definition pair_forge :: "host \<Rightarrow> rstring list \<Rightarrow> wire_spec \<Rightarrow> bool \<Rightarrow> history \<Rightarrow> phase" where
  "pair_forge host link spec json hist =
     (if \<not> (link = [] \<or> length link = 2)
      then fails [Msg (chars ''--link must be given exactly twice (side A, then side B), or not at all'')]
      else
        with_port host 0 [Msg (chars ''side A'')] (\<lambda>port_a slave_a.
        with_port host 1 [Msg (chars ''side B'')] (\<lambda>port_b slave_b.
        with_link host (if link = [] then None else Some (link ! 0)) (chars ''a'') slave_a [Msg (chars ''side A'')] (\<lambda>link_a.
        with_link host (if link = [] then None else Some (link ! 1)) (chars ''b'') slave_b [Msg (chars ''side B'')] (\<lambda>link_b.
          serve host json (chars ''pair'') [(link_a, slave_a), (link_b, slave_b)] JNull spec
            (pair_body host spec port_a port_b (hist_modem hist)))))))"

definition sim_forge ::
    "host \<Rightarrow> rstring option \<Rightarrow> rstring option \<Rightarrow> rstring list \<Rightarrow> wire_spec \<Rightarrow> bool \<Rightarrow> history \<Rightarrow> phase" where
  "sim_forge host preset link exec spec json hist =
     (if preset = None \<and> exec = []
      then fails [Msg (chars ''pick a device: --preset echo|shell|uboot|at, or `-- CMD ...` to run your own'')]
      else
        with_port host 0 [] (\<lambda>port slave.
        with_link host link (chars ''sim'') slave [] (\<lambda>path.
          serve host json (chars ''sim'') [(path, slave)]
            (JObject (case preset of
               Some p \<Rightarrow> [(chars ''preset'', JString p)]
             | None \<Rightarrow> [(chars ''exec'', JArray (map JString exec))])) spec
            (case preset of
               Some name \<Rightarrow> preset_body host spec name port (hist_preset hist)
             | None \<Rightarrow> exec_body host spec exec port (hist_exec hist)))))"

definition peers_bind :: "host \<Rightarrow> endpoint \<Rightarrow> error + rstring" where
  "peers_bind host ep =
     (case ep of
        Dial addr \<Rightarrow> Inr (chars ''tcp://'' @ addr)
      | Accept addr \<Rightarrow>
          (case h_listen host addr of
             IoErr e \<Rightarrow> Inl [Msg (chars ''listen on '' @ addr), Os e]
           | IoOk (Some a) \<Rightarrow> Inr (chars ''listen://'' @ a)
           | IoOk None \<Rightarrow> Inr (chars ''listen://?'')))"

definition bridge_forge ::
    "host \<Rightarrow> rstring \<Rightarrow> rstring option \<Rightarrow> bool \<Rightarrow> wire_spec \<Rightarrow> bool \<Rightarrow> history \<Rightarrow> phase" where
  "bridge_forge host endpoint link rfc spec json hist =
     (case context_err SetupError (endpoint_parse endpoint) of
        Inl e \<Rightarrow> fails e
      | Inr ep \<Rightarrow>
          if rfc \<and> (case ep of Accept _ \<Rightarrow> True | Dial _ \<Rightarrow> False)
          then fails [SetupError, Msg (chars ''--rfc2217 is a client mode '' @ [0x2014] @
                 chars '' use tcp://HOST:PORT. Accepting would mean *being* the ser2net-style server, which is out of scope.'')]
          else
            with_port host 0 [] (\<lambda>port slave.
            with_link host link (chars ''bridge'') slave [] (\<lambda>path.
              (case context_err SetupError (peers_bind host ep) of
                 Inl e \<Rightarrow> fails e
               | Inr peer \<Rightarrow>
                   serve host json (chars ''bridge'') [(path, slave)]
                     (JObject [(chars ''endpoint'', JString peer), (chars ''rfc2217'', JBool rfc)]) spec
                     (bridge_body host spec rfc port (hist_bridge hist) (hist_watch hist))))))"

definition mux_forge ::
    "host \<Rightarrow> rstring \<Rightarrow> u32 \<Rightarrow> rstring list \<Rightarrow> wire_spec \<Rightarrow> bool \<Rightarrow> history \<Rightarrow> phase" where
  "mux_forge host dev_path baud link spec json hist =
     (if \<not> check_baud (h_libc host) baud
      then fails [Msg (chars (''baud '' @ decimal (unat baud)) @
             chars '' has no termios encoding on this platform (try 9600, 115200, 921600'' @ [0x2026] @ chars '')'')]
      else
        (case serial_open (h_libc host) dev_path baud (h_device host) (h_device_registers host) of
           Inl e \<Rightarrow> fails e
         | Inr _ \<Rightarrow>
             with_links host 0 link [] [] (\<lambda>ports links.
               serve host json (chars ''mux'') links
                 (JObject [(chars ''device'', JString dev_path), (chars ''baud'', JNat (unat baud))]) spec
                 (mux_body host spec ports (hist_mux hist) (hist_watch hist)))))"

section \<open>main\<close>

datatype cmd =
    CmdPair "rstring list"
  | CmdSim "rstring option" "rstring option" "rstring list"
  | CmdBridge rstring "rstring option" bool
  | CmdMux rstring u32 "rstring list"

record cli =
  cli_json :: bool
  cli_wire :: wire_args
  cli_cmd :: cmd

definition main_run :: "host \<Rightarrow> u32 \<Rightarrow> history \<Rightarrow> cli \<Rightarrow> phase" where
  "main_run host subsec hist cli =
     (let wire = resolve_seed subsec (of_nat (self_pid (h_procs host))) (to_spec (cli_wire cli)); json = cli_json cli
      in case cli_cmd cli of
           CmdPair link \<Rightarrow> pair_forge host link wire json hist
         | CmdSim preset link exec \<Rightarrow> sim_forge host preset link exec wire json hist
         | CmdBridge endpoint link rfc2217 \<Rightarrow> bridge_forge host endpoint link rfc2217 wire json hist
         | CmdMux dev_path baud link \<Rightarrow> mux_forge host dev_path baud link wire json hist)"

text \<open>The exit code; a panic of \<open>main\<close> exits with 101.\<close>

definition exit_code :: "(error + unit) option \<Rightarrow> nat" where
  "exit_code r =
     (case r of
        None \<Rightarrow> 101
      | Some (Inr _) \<Rightarrow> 0
      | Some (Inl e) \<Rightarrow>
          (case child_exit e of
             Some code \<Rightarrow> nat (max 0 (min code 255))
           | None \<Rightarrow> if is_setup e then 3 else 2))"


section \<open>Reasoning about a run\<close>

text \<open>
  A property of phases that the building blocks of a run keep, and that set-up failures have, is
  one of every run that is not a misuse -- and of every run, if all failures have it.
\<close>

definition misuse :: "libc \<Rightarrow> cmd \<Rightarrow> bool" where
  "misuse lc c =
     (case c of
        CmdPair link \<Rightarrow> link \<noteq> [] \<and> length link \<noteq> 2
      | CmdSim preset _ exec \<Rightarrow> preset = None \<and> exec = []
      | CmdBridge _ _ _ \<Rightarrow> False
      | CmdMux _ baud _ \<Rightarrow> \<not> check_baud lc baud)"

lemma child_exit_append [simp]: "e \<noteq> [] \<Longrightarrow> child_exit (ctx @ e) = child_exit e"
  by (cases "rev e") (auto simp: child_exit_def)

lemma child_exit_Cons [simp]: "e \<noteq> [] \<Longrightarrow> child_exit (l # e) = child_exit e"
  using child_exit_append [of e "[l]"] by simp

lemma is_setup_append [simp]: "is_setup (ctx @ e) \<longleftrightarrow> is_setup ctx \<or> is_setup e"
  by (auto simp: is_setup_def)

lemma tagged_error: "context_err SetupError r = Inl e \<Longrightarrow> (\<And>e'. r = Inl e' \<Longrightarrow> e' \<noteq> [] \<and> child_exit e' = None) \<Longrightarrow>
    is_setup e \<and> child_exit e = None"
  by (cases r) auto

lemma endpoint_error: "endpoint_parse s = Inl e \<Longrightarrow> e \<noteq> [] \<and> child_exit e = None"
  by (auto simp: endpoint_parse_def split_host_port_def child_exit_def and_then_def simp del: chars_simps
      split: option.splits sum.splits prod.splits if_splits)

lemma bind_error: "peers_bind host ep = Inl e \<Longrightarrow> e \<noteq> [] \<and> child_exit e = None"
  by (auto simp: peers_bind_def child_exit_def simp del: chars_simps split: endpoint.splits io_result.splits option.splits)

lemma open_error:
  "serial_open lc path baud opened afd = Inl e \<Longrightarrow> check_baud lc baud \<Longrightarrow> is_setup e \<and> child_exit e = None"
  by (auto simp: serial_open_def check_baud_def configure_def child_exit_def and_then_def simp del: chars_simps
      split: option.splits sum.splits if_splits io_result.splits)

lemma misused:
  assumes "misuse (h_libc host) (cli_cmd cli)"
  shows "\<exists>m. main_run host subsec hist cli = fails [Msg m]"
  using assms by (auto simp: main_run_def Let_def misuse_def pair_forge_def sim_forge_def mux_forge_def
      simp del: chars_simps split: cmd.split)

text \<open>The links asked for on the command line; \<open>None\<close> is a default name.\<close>

definition requested :: "cmd \<Rightarrow> rstring option list" where
  "requested c =
     (case c of
        CmdPair link \<Rightarrow> if link = [] then [None, None] else map Some link
      | CmdSim _ link _ \<Rightarrow> [link]
      | CmdBridge _ link _ \<Rightarrow> [link]
      | CmdMux _ _ link \<Rightarrow> map Some link)"

locale forge_rules =
  fixes host :: host and may :: "rstring option \<Rightarrow> bool" and good :: "phase \<Rightarrow> bool"
  assumes good_setup: "is_setup e \<Longrightarrow> child_exit e = None \<Longrightarrow> good (fails e)"
    and good_serve: "good (serve host json forge pub details spec body)"
    and good_port: "(\<And>port slave. good (rest port slave)) \<Longrightarrow> good (with_port host n ctx rest)"
    and good_link: "may explicit \<Longrightarrow> (\<And>path. good (scope path)) \<Longrightarrow> good (with_link host explicit tag slave ctx scope)"
    and good_links: "\<forall>p \<in> set paths. may (Some p) \<Longrightarrow> (\<And>ports pub. good (body' ports pub)) \<Longrightarrow>
      good (with_links host n paths ports [] body')"
begin

lemma cases:
  "(b \<Longrightarrow> good p) \<Longrightarrow> (\<not> b \<Longrightarrow> good q) \<Longrightarrow> good (if b then p else q)"
  "(\<And>e. s = Inl e \<Longrightarrow> good (f e)) \<Longrightarrow> (\<And>x. s = Inr x \<Longrightarrow> good (g x)) \<Longrightarrow> good (case s of Inl e \<Rightarrow> f e | Inr x \<Rightarrow> g x)"
  by (simp_all split: sum.split)

lemmas intros = good_serve good_port good_link good_links

lemma used:
  "link = [] \<or> length link = 2 \<Longrightarrow> list_all may (requested (CmdPair link)) \<Longrightarrow> good (pair_forge host link spec json hist)"
  "preset \<noteq> None \<or> exec \<noteq> [] \<Longrightarrow> may lnk \<Longrightarrow> good (sim_forge host preset lnk exec spec json hist)"
  "may lnk \<Longrightarrow> good (bridge_forge host endpoint lnk rfc spec json hist)"
  "check_baud (h_libc host) baud \<Longrightarrow> \<forall>p \<in> set link. may (Some p) \<Longrightarrow> good (mux_forge host dev_path baud link spec json hist)"
proof -
  show "good (pair_forge host link spec json hist)" if "link = [] \<or> length link = 2" "list_all may (requested (CmdPair link))"
  proof -
    from that have "may (if link = [] then None else Some (link ! 0))" "may (if link = [] then None else Some (link ! 1))"
      by (auto simp: requested_def list_all_iff split: if_splits)
    with that(1) show ?thesis unfolding pair_forge_def by (intro cases intros) simp
  qed
  show "good (sim_forge host preset lnk exec spec json hist)" if "preset \<noteq> None \<or> exec \<noteq> []" "may lnk"
    using that unfolding sim_forge_def by (intro cases intros) simp
  show "good (bridge_forge host endpoint lnk rfc spec json hist)" if "may lnk"
    using that unfolding bridge_forge_def
    by (intro cases intros good_setup)
      (auto dest: tagged_error [OF _ endpoint_error] tagged_error [OF _ bind_error] simp: child_exit_def simp del: chars_simps)
  show "good (mux_forge host dev_path baud link spec json hist)"
    if "check_baud (h_libc host) baud" "\<forall>p \<in> set link. may (Some p)"
    using that unfolding mux_forge_def by (intro cases intros good_setup) (auto dest: open_error)
qed

lemma main:
  assumes "misuse (h_libc host) (cli_cmd cli) \<Longrightarrow> \<forall>e. good (fails e)" "list_all may (requested (cli_cmd cli))"
  shows "good (main_run host subsec hist cli)"
proof (cases "misuse (h_libc host) (cli_cmd cli)")
  case True
  with misused [OF True, of subsec hist] assms(1) show ?thesis by metis
next
  case False
  with assms(2) show ?thesis
    by (auto simp: main_run_def Let_def misuse_def used list_all_iff requested_def [of "CmdSim _ _ _"]
        requested_def [of "CmdBridge _ _ _"] requested_def [of "CmdMux _ _ _"] split: cmd.split)
qed

end

section \<open>Leaving no trace\<close>

text \<open>
  A file system where whatever a forge creates it can remove: every path is removable, no write
  fails half-way, and nothing but files are where sidecars go.
\<close>

definition clean_fs :: "fs \<Rightarrow> bool" where
  "clean_fs fs \<longleftrightarrow> fs_ok fs \<and> (\<forall>p. removable fs p) \<and> regular fs \<and> whole_writes fs"

definition plain :: "rstring option \<Rightarrow> bool" where
  "plain r \<longleftrightarrow> (\<forall>p. r = Some p \<longrightarrow> plain_path p)"

lemma claim_clean:
  assumes "claim os explicit tag slave fs = Some (r, fs')" "clean_fs fs" "plain explicit"
  shows "clean_fs fs'" "same_rules fs fs'" "case r of
      Inr p \<Rightarrow> entries fs' \<subseteq>\<^sub>m (entries fs)(p \<mapsto> Symlink slave, sidecar p \<mapsto> File (chars (decimal (self_pid os))))
    | Inl e \<Rightarrow> entries fs' \<subseteq>\<^sub>m entries fs"
  using assms claim_within [OF assms(1)] claim_rules [OF assms(1)] claim_keeps_regular [OF assms(1)]
  by (auto simp: clean_fs_def plain_def same_rules_def whole_writes_def regular_unspoofed)

definition tidy :: "phase \<Rightarrow> bool" where
  "tidy ph \<longleftrightarrow> (\<forall>fs o'. clean_fs fs \<longrightarrow> ph fs = Some o' \<longrightarrow>
     same_rules fs (o_fs o') \<and> entries (o_fs o') \<subseteq>\<^sub>m entries fs)"

definition without :: "rstring list \<Rightarrow> (rstring \<Rightarrow> entry option) \<Rightarrow> rstring \<Rightarrow> entry option" where
  "without ps m q = (if q \<in> set ps \<or> q \<in> sidecar ` set ps then None else m q)"

lemma without_le: "without ps m \<subseteq>\<^sub>m m" "m \<subseteq>\<^sub>m m' \<Longrightarrow> without ps m \<subseteq>\<^sub>m without ps m'"
  by (auto simp: without_def map_le_def dom_def)

lemma without_Nil: "without [] m = m"
  by (simp add: without_def fun_eq_iff)

lemma drop_links_entries:
  "(\<forall>p. removable fs p) \<Longrightarrow> entries (fold link_drop ps fs) = without ps (entries fs) \<and> same_rules fs (fold link_drop ps fs)"
proof (induction ps arbitrary: fs)
  case (Cons p ps)
  then have "\<forall>q. removable (link_drop p fs) q" by (simp add: link_drop_def)
  from Cons.IH [OF this] Cons.prems show ?case
    by (auto simp: without_def link_drop_def same_rules_def)
qed (simp add: without_def fun_eq_iff)

lemma o_drop_links [simp]:
  "o_result (drop_links ps o') = o_result o'" "o_ready (drop_links ps o') = o_ready o'"
  "o_fs (drop_links ps o') = fold link_drop ps (o_fs o')"
  by (simp_all add: drop_links_def)

lemma same_rules_trans: "same_rules a b \<Longrightarrow> same_rules b c \<Longrightarrow> same_rules a c"
  by (simp add: same_rules_def)

lemma tidy_fails : "tidy (fails e)"
  by (simp add: tidy_def fails_def)

lemma tidy_serve : "tidy (serve host json forge pub details spec body)"
  by (auto simp: tidy_def serve_def fails_def split: sum.splits prod.splits)

lemma tidy_with_port : "(\<And>port slave. tidy (rest port slave)) \<Longrightarrow> tidy (with_port host n ctx rest)"
  using tidy_fails by (fastforce simp: tidy_def with_port_def fails_def split: sum.splits prod.splits)

lemma tidy_with_links:
  "\<forall>ports pub. tidy (rest ports pub) \<Longrightarrow> clean_fs fs \<Longrightarrow> \<forall>p \<in> set paths. plain_path p \<Longrightarrow> with_links host n paths ports links rest fs = Some o' \<Longrightarrow>
    same_rules fs (o_fs o') \<and> entries (o_fs o') \<subseteq>\<^sub>m without (map fst links) (entries fs)"
proof (induction host n paths ports links rest fs rule: with_links.induct)
  case (1 host n ports links rest fs)
  then obtain o1 where o1: "rest ports links fs = Some o1" "o' = drop_links (map fst links) o1" by auto
  with 1 have "same_rules fs (o_fs o1)" "entries (o_fs o1) \<subseteq>\<^sub>m entries fs" by (auto simp: tidy_def)
  with o1 1(2) drop_links_entries [of "o_fs o1" "map fst links"] without_le(2) show ?case
    by (auto simp: same_rules_def clean_fs_def)
next
  case (2 host n path paths ports links rest fs)
  show ?case
  proof (cases "fst (create (h_strerror host) (h_openpty host n) (h_ptsname host n) (h_register host n))")
    case (Inl e)
    with 2 drop_links_entries [of fs "map fst links"] show ?thesis by (auto simp: fails_def clean_fs_def)
  next
    case (Inr x)
    then obtain port slave where c: "fst (create (h_strerror host) (h_openpty host n) (h_ptsname host n) (h_register host n)) = Inr (port, slave)"
      by (cases x) auto
    with 2(5) obtain r fs1 where cl: "claim (h_procs host) (Some path) (chars ''mux'') slave fs = Some (r, fs1)"
      by (cases "claim (h_procs host) (Some path) (chars ''mux'') slave fs") auto
    have "plain (Some path)" using 2(4) by (simp add: plain_def)
    note g = claim_clean [OF cl 2(3) this]
    have rm: "\<forall>p. removable fs1 p" using g(1) by (simp add: clean_fs_def)
    show ?thesis
    proof (cases r)
      case (Inl e)
      with c cl 2(5) g rm drop_links_entries [OF rm, of "map fst links"] without_le(2) show ?thesis
        by (auto simp: fails_def intro: same_rules_trans)
    next
      case (Inr p)
      with c cl 2(5) have w: "with_links host (Suc n) paths (ports @ [port]) (links @ [(p, slave)]) rest fs1 = Some o'" by simp
      have "\<forall>p \<in> set paths. plain_path p" using 2(4) by simp
      from 2(1) [OF c refl cl refl Inr 2(2) g(1) this w]
      have "same_rules fs1 (o_fs o')" "entries (o_fs o') \<subseteq>\<^sub>m without (map fst (links @ [(p, slave)])) (entries fs1)" by auto
      moreover have "without (map fst (links @ [(p, slave)])) (entries fs1) \<subseteq>\<^sub>m without (map fst links) (entries fs)"
        using g(3) Inr by (auto simp: without_def map_le_def dom_def split: if_splits)
      ultimately show ?thesis using g(2) by (auto intro: same_rules_trans map_le_trans)
    qed
  qed
qed


lemma tidy_links : "\<forall>p \<in> set paths. plain (Some p) \<Longrightarrow> (\<And>ports pub. tidy (rest ports pub)) \<Longrightarrow> tidy (with_links host n paths ports [] rest)"
  unfolding tidy_def [of "with_links host n paths ports [] rest"]
  using tidy_with_links [of rest _ paths host n ports "[]"] by (simp add: without_Nil plain_def)

lemma tidy_with_link :
  assumes "plain explicit" "\<And>path. tidy (rest path)"
  shows "tidy (with_link host explicit tag slave ctx rest)"
proof -
  have "same_rules fs (o_fs o') \<and> entries (o_fs o') \<subseteq>\<^sub>m entries fs"
    if ok: "clean_fs fs" and run: "with_link host explicit tag slave ctx rest fs = Some o'" for fs o'
  proof -
    from run obtain r fs1 where cl: "claim (h_procs host) explicit tag slave fs = Some (r, fs1)"
      by (cases "claim (h_procs host) explicit tag slave fs") (auto simp: with_link_def)
    note g = claim_clean [OF cl ok assms(1)]
    show ?thesis
    proof (cases r)
      case (Inl e)
      with cl run g show ?thesis by (auto simp: with_link_def fails_def)
    next
      case (Inr path)
      with cl run obtain o1 where o1: "rest path fs1 = Some o1" "o' = drop_links [path] o1" by (auto simp: with_link_def)
      with assms(2) [of path] g(1) have t: "same_rules fs1 (o_fs o1)" "entries (o_fs o1) \<subseteq>\<^sub>m entries fs1"
        by (auto simp: tidy_def)
      have "\<forall>p. removable (o_fs o1) p" using g(1) t(1) by (simp add: same_rules_def clean_fs_def)
      from drop_links_entries [OF this, of "[path]"] o1(2)
      have d: "entries (o_fs o') = without [path] (entries (o_fs o1))" "same_rules (o_fs o1) (o_fs o')" by simp_all
      have "without [path] (entries fs1) \<subseteq>\<^sub>m entries fs"
        using g(3) Inr by (auto simp: without_def map_le_def dom_def split: if_splits)
      with d t g(2) without_le(2) [OF t(2), of "[path]"] show ?thesis
        by (auto intro: same_rules_trans map_le_trans)
    qed
  qed
  then show ?thesis by (simp add: tidy_def)
qed

interpretation tidy_rules: forge_rules host plain tidy
  by unfold_locales (auto intro: tidy_fails tidy_serve tidy_with_port tidy_with_link tidy_links)

lemma tidy_main: "list_all plain (requested (cli_cmd cli)) \<Longrightarrow> tidy (main_run host subsec hist cli)"
  by (rule tidy_rules.main) (simp_all add: tidy_fails)

section \<open>Failing before readiness\<close>

definition troubled :: "host \<Rightarrow> bool" where
  "troubled host \<longleftrightarrow> h_sigterm host \<noteq> None \<or> h_sigint host \<noteq> None \<or> (\<exists>k. h_stdout host k \<noteq> None)"

definition orderly :: "host \<Rightarrow> phase \<Rightarrow> bool" where
  "orderly host ph \<longleftrightarrow> (\<forall>fs o'. fs_ok fs \<longrightarrow> ph fs = Some o' \<longrightarrow> o_ready o' = None \<longrightarrow>
     (\<exists>e. o_result o' = Some (Inl e) \<and> child_exit e = None \<and> (is_setup e \<or> troubled host)))"

lemma create_error:
  "fst (create strerror opened name afd) = Inl e \<Longrightarrow> is_setup e \<and> child_exit e = None \<and> e \<noteq> []"
  by (auto simp: create_def child_exit_def Let_def simp del: chars_simps split: sum.splits prod.splits option.splits if_splits)

lemma orderly_fails: "child_exit e = None \<Longrightarrow> is_setup e \<Longrightarrow> orderly host (fails e)"
  by (simp add: orderly_def fails_def)

lemma orderly_serve : "orderly host (serve host json forge pub details spec body)"
proof -
  have "\<exists>e. o_result o' = Some (Inl e) \<and> child_exit e = None \<and> (is_setup e \<or> troubled host)"
    if "serve host json forge pub details spec body fs = Some o'" "o_ready o' = None" for fs o'
  proof (cases "install host")
    case (Inl e)
    with that show ?thesis
      by (auto simp: serve_def fails_def install_def troubled_def child_exit_def simp del: chars_simps split: option.splits)
  next
    case (Inr u)
    obtain printed r where a: "announce (h_render host) (h_stdout host) (self_pid (h_procs host)) json forge (map fst pub) details spec
        = (printed, r)" by fastforce
    with that Inr obtain e where "r = Inl e" "o_result o' = Some (Inl e)"
      by (cases r) (auto simp: serve_def fails_def)
    with write_lines_error a show ?thesis by (fastforce simp: announce_def troubled_def child_exit_def)
  qed
  then show ?thesis by (simp add: orderly_def)
qed

lemma orderly_with_port :
  assumes "\<And>port slave. orderly host (rest port slave)"
  shows "orderly host (with_port host n ctx rest)"
proof (unfold orderly_def, intro allI impI)
  fix fs o' assume a: "fs_ok fs" "with_port host n ctx rest fs = Some o'" "o_ready o' = None"
  show "\<exists>e. o_result o' = Some (Inl e) \<and> child_exit e = None \<and> (is_setup e \<or> troubled host)"
  proof (cases "fst (create (h_strerror host) (h_openpty host n) (h_ptsname host n) (h_register host n))")
    case (Inl e)
    with a create_error [OF Inl] show ?thesis by (auto simp: with_port_def fails_def)
  next
    case (Inr x)
    with a assms show ?thesis by (cases x) (auto simp: with_port_def orderly_def)
  qed
qed

lemma orderly_with_link :
  assumes "\<And>path. orderly host (rest path)"
  shows "orderly host (with_link host explicit tag slave ctx rest)"
proof (unfold orderly_def, intro allI impI)
  fix fs o' assume a: "fs_ok fs" "with_link host explicit tag slave ctx rest fs = Some o'" "o_ready o' = None"
  from a(2) obtain r fs1 where cl: "claim (h_procs host) explicit tag slave fs = Some (r, fs1)"
    by (cases "claim (h_procs host) explicit tag slave fs") (auto simp: with_link_def)
  show "\<exists>e. o_result o' = Some (Inl e) \<and> child_exit e = None \<and> (is_setup e \<or> troubled host)"
  proof (cases r)
    case (Inl e)
    with cl a claim_error [OF _ a(1)] show ?thesis by (fastforce simp: with_link_def fails_def)
  next
    case (Inr path)
    with cl a assms [of path] claim_rules(2) [OF cl a(1)] show ?thesis by (auto simp: with_link_def orderly_def)
  qed
qed

lemma orderly_with_links:
  "\<forall>ports pub. orderly host (rest ports pub) \<Longrightarrow> fs_ok fs \<Longrightarrow> with_links host n paths ports links rest fs = Some o' \<Longrightarrow>
   o_ready o' = None \<Longrightarrow> \<exists>e. o_result o' = Some (Inl e) \<and> child_exit e = None \<and> (is_setup e \<or> troubled host)"
proof (induction host n paths ports links rest fs rule: with_links.induct)
  case (1 host n ports links rest fs)
  then show ?case by (auto simp: orderly_def)
next
  case (2 host n path paths ports links rest fs)
  show ?case
  proof (cases "fst (create (h_strerror host) (h_openpty host n) (h_ptsname host n) (h_register host n))")
    case (Inl e)
    with 2 create_error [OF Inl] show ?thesis by (auto simp: fails_def simp del: chars_simps)
  next
    case (Inr x)
    then obtain port slave where c: "fst (create (h_strerror host) (h_openpty host n) (h_ptsname host n) (h_register host n)) = Inr (port, slave)"
      by (cases x) auto
    with 2(4) obtain r fs1 where cl: "claim (h_procs host) (Some path) (chars ''mux'') slave fs = Some (r, fs1)"
      by (cases "claim (h_procs host) (Some path) (chars ''mux'') slave fs") auto
    show ?thesis
    proof (cases r)
      case (Inl e)
      with c cl 2 claim_error [OF _ 2(3)] show ?thesis by (fastforce simp: fails_def)
    next
      case (Inr p)
      with c cl 2(4) have w: "with_links host (Suc n) paths (ports @ [port]) (links @ [(p, slave)]) rest fs1 = Some o'" by simp
      from 2(1) [OF c refl cl refl Inr 2(2) claim_rules(2) [OF cl 2(3)] w 2(5)] show ?thesis .
    qed
  qed
qed


lemma orderly_links:
  "(\<And>ports pub. orderly host (rest ports pub)) \<Longrightarrow> orderly host (with_links host n paths ports links rest)"
  unfolding orderly_def [of host "with_links host n paths ports links rest"]
  using orderly_with_links [of host rest _ n paths ports links] by simp

interpretation orderly_rules: forge_rules host "\<lambda>_. True" "orderly host"
  by unfold_locales (auto intro: orderly_fails orderly_serve orderly_with_port orderly_with_link orderly_links)

lemma orderly_main:
  "\<not> misuse (h_libc host) (cli_cmd cli) \<Longrightarrow> orderly host (main_run host subsec hist cli)"
  by (rule orderly_rules.main) (simp_all add: list_all_iff)

section \<open>Being ready\<close>

definition published_ok :: "host \<Rightarrow> published \<Rightarrow> fs \<Rightarrow> bool" where
  "published_ok host pub fs \<longleftrightarrow> (\<forall>(p, slave) \<in> set pub. plain_path p \<and> entries fs p = Some (Symlink slave) \<and>
     entries fs (sidecar p) = Some (File (chars (decimal (self_pid (h_procs host))))))"

text \<open>The process sees itself alive.\<close>

definition alive_host :: "host \<Rightarrow> bool" where
  "alive_host host \<longleftrightarrow> self_pid (h_procs host) < 2 ^ 31 \<and> process_alive (h_procs host) (int (self_pid (h_procs host)))"

definition matches :: "rstring option list \<Rightarrow> published \<Rightarrow> bool" where
  "matches = list_all2 (\<lambda>r (p, _). r = None \<or> r = Some p)"

lemma claim_published:
  assumes "alive_host host" "fs_ok fs" "published_ok host pub fs" and reg: "regular fs"
    and c: "claim (h_procs host) explicit tag slave fs = Some (Inr path, fs')"
    and plain: "\<forall>p. explicit = Some p \<longrightarrow> plain_path p"
  shows "published_ok host (pub @ [(path, slave)]) fs' \<and> regular fs' \<and> (explicit = None \<or> explicit = Some path)"
proof -
  let ?pid = "self_pid (h_procs host)"
  from c obtain fs1 where p: "claim_path (h_procs host) explicit tag slave fs = Some (Inr path, fs1)"
    and fs': "fs' = fs1\<lparr>entries := (entries fs1)(sidecar path \<mapsto> File (chars (decimal ?pid)))\<rparr>"
    by (rule claim_okE [OF _ assms(2) regular_unspoofed [OF reg]])
  have path: "explicit = None \<or> explicit = Some path" "plain_path path"
    using claim_path_within [OF p assms(2)] plain by (cases explicit; auto simp: plain_path_def default_link_not_sidecar)+
  have new: "entries fs' path = Some (Symlink slave)" "entries fs' (sidecar path) = Some (File (chars (decimal ?pid)))"
    using claim_path_ok(3) [OF assms(2) p refl] fs' by simp_all
  have "entries fs' q = Some (Symlink s) \<and> entries fs' (sidecar q) = Some (File (chars (decimal ?pid)))"
    if "(q, s) \<in> set pub" for q s
  proof -
    from that assms(3) have q: "plain_path q" "entries fs q = Some (Symlink s)"
      "entries fs (sidecar q) = Some (File (chars (decimal ?pid)))" by (auto simp: published_ok_def)
    have "\<not> stale (h_procs host) fs q"
      using own_sidecar_live [OF q(3)] assms(1) by (simp add: alive_host_def)
    from claim_spares [OF assms(2) c q(2) this] q plain reg regular_unspoofed [OF reg] show ?thesis
      by (auto simp: plain_path_def regular_def)
  qed
  with claim_keeps_regular [OF c assms(2) reg plain] new path assms(3) show ?thesis by (auto simp: published_ok_def)
qed

definition honest :: "host \<Rightarrow> bool \<Rightarrow> rstring option list \<Rightarrow> published \<Rightarrow> phase \<Rightarrow> bool" where
  "honest host json req pub ph \<longleftrightarrow>
     (\<forall>fs o' printed pub' fs1. fs_ok fs \<longrightarrow> regular fs \<longrightarrow> published_ok host pub fs \<longrightarrow> ph fs = Some o' \<longrightarrow>
        o_ready o' = Some (printed, pub', fs1) \<longrightarrow>
        published_ok host pub' fs1 \<and> matches req pub' \<and>
        (\<not> json \<longrightarrow> printed = concat (map (\<lambda>(p, _). p @ [10]) pub')))"

lemma honest_fails: "honest host json req pub (fails e)"
  by (simp add: honest_def fails_def)

lemma honest_serve:
  assumes "matches req pub"
  shows "honest host json req pub (serve host json forge pub details spec body)"
proof (unfold honest_def, intro allI impI)
  fix fs o' printed pub' fs1
  assume a: "published_ok host pub fs" "serve host json forge pub details spec body fs = Some o'"
    "o_ready o' = Some (printed, pub', fs1)"
  obtain x r where an: "announce (h_render host) (h_stdout host) (self_pid (h_procs host)) json forge (map fst pub) details spec
      = (x, r)" by fastforce
  with a have s: "r = Inr ()" "printed = x" "pub' = pub" "fs1 = fs"
    by (cases "install host"; cases r; auto simp: serve_def fails_def)+
  from an s have "x = concat (map (\<lambda>l. l @ [10]) (map fst pub))" if "\<not> json"
    using that write_lines_ok [of "h_stdout host" 0 "map fst pub" x] by (simp add: announce_def)
  moreover have "(\<lambda>(p, slave). p @ [10]) = (\<lambda>l. l @ [10 :: rchar]) \<circ> (fst :: rstring \<times> rstring \<Rightarrow> rstring)" by auto
  ultimately show "published_ok host pub' fs1 \<and> matches req pub' \<and>
      (\<not> json \<longrightarrow> printed = concat (map (\<lambda>(p, _). p @ [10]) pub'))"
    using a(1) s assms by auto
qed

lemma honest_with_port:
  "(\<And>port slave. honest host json req pub (rest port slave)) \<Longrightarrow> honest host json req pub (with_port host n ctx rest)"
  unfolding honest_def [of host json req pub "with_port host n ctx rest"] with_port_def fails_def
  by (auto simp: honest_def split: sum.splits)

lemma honest_with_link:
  assumes "alive_host host" "\<forall>p. explicit = Some p \<longrightarrow> plain_path p"
    and "\<And>path. explicit = None \<or> explicit = Some path \<Longrightarrow> honest host json req (pub @ [(path, slave)]) (rest path)"
  shows "honest host json req pub (with_link host explicit tag slave ctx rest)"
proof (unfold honest_def, intro allI impI)
  fix fs o' printed pub' fs1
  assume a: "fs_ok fs" "published_ok host pub fs" "regular fs" "with_link host explicit tag slave ctx rest fs = Some o'"
    "o_ready o' = Some (printed, pub', fs1)"
  then obtain path fs2 o1 where c: "claim (h_procs host) explicit tag slave fs = Some (Inr path, fs2)"
    "rest path fs2 = Some o1" "o_ready o1 = Some (printed, pub', fs1)"
    by (auto simp: with_link_def fails_def split: option.splits sum.splits)
  from claim_published [OF assms(1) a(1,2,3) c(1) assms(2)] assms(3) [of path] claim_rules(2) [OF c(1) a(1)] c(2,3)
  show "published_ok host pub' fs1 \<and> matches req pub' \<and>
      (\<not> json \<longrightarrow> printed = concat (map (\<lambda>(p, _). p @ [10]) pub'))"
    by (auto simp: honest_def)
qed

lemma honest_with_links:
  "alive_host host \<Longrightarrow> \<forall>p \<in> set paths. plain_path p \<Longrightarrow>
   \<forall>ports pub. map fst pub = map fst links @ paths \<longrightarrow> honest host json req pub (rest ports pub) \<Longrightarrow>
   honest host json req links (with_links host n paths ports links rest)"
proof (induction paths arbitrary: n ports links)
  case Nil
  then have "honest host json req links (rest ports links)" by simp
  then show ?case by (auto simp: honest_def)
next
  case (Cons path paths)
  show ?case
  proof (unfold honest_def, intro allI impI)
    fix fs o' printed pub' fs1
    assume a: "fs_ok fs" "published_ok host links fs" "regular fs" "with_links host n (path # paths) ports links rest fs = Some o'"
      "o_ready o' = Some (printed, pub', fs1)"
    then obtain port slave p fs2 where c: "claim (h_procs host) (Some path) (chars ''mux'') slave fs = Some (Inr p, fs2)"
      "with_links host (Suc n) paths (ports @ [port]) (links @ [(p, slave)]) rest fs2 = Some o'"
      by (auto simp: fails_def simp del: chars_simps split: option.splits sum.splits prod.splits)
    have cp: "published_ok host (links @ [(p, slave)]) fs2" "regular fs2" "p = path"
      using claim_published [OF Cons.prems(1) a(1,2,3) c(1)] Cons.prems(2) by auto
    have "honest host json req (links @ [(p, slave)]) (with_links host (Suc n) paths (ports @ [port]) (links @ [(p, slave)]) rest)"
      by (rule Cons.IH) (use Cons.prems cp in auto)
    from this [unfolded honest_def] claim_rules(2) [OF c(1) a(1)] cp(1,2) c(2) a(5)
    show "published_ok host pub' fs1 \<and> matches req pub' \<and>
        (\<not> json \<longrightarrow> printed = concat (map (\<lambda>(p, _). p @ [10]) pub'))" by blast
  qed
qed

lemma honest_cases:
  "(b \<Longrightarrow> honest host json req pub p) \<Longrightarrow> (\<not> b \<Longrightarrow> honest host json req pub q) \<Longrightarrow> honest host json req pub (if b then p else q)"
  "(\<And>e. honest host json req pub (f e)) \<Longrightarrow> (\<And>x. honest host json req pub (g x)) \<Longrightarrow>
   honest host json req pub (case s of Inl e \<Rightarrow> f e | Inr x \<Rightarrow> g x)"
  by (simp_all split: sum.split)


lemma honest_main:
  assumes alive: "alive_host host" and plain: "\<forall>p. Some p \<in> set (requested (cli_cmd cli)) \<longrightarrow> plain_path p"
  shows "honest host (cli_json cli) (requested (cli_cmd cli)) [] (main_run host subsec hist cli)"
proof (cases "cli_cmd cli")
  case (CmdPair link)
  show ?thesis
  proof (cases "link = [] \<or> length link = 2")
    case True
    then consider "link = []" | a b where "link = [a, b]" by (auto simp: length_Suc_conv numeral_2_eq_2)
    then show ?thesis
      by cases (use plain CmdPair in \<open>auto simp: main_run_def Let_def pair_forge_def requested_def matches_def
          intro!: honest_with_port honest_with_link [OF alive] honest_serve\<close>)
  next
    case False
    with CmdPair show ?thesis by (simp add: main_run_def pair_forge_def honest_fails Let_def)
  qed
next
  case (CmdSim preset link exec)
  with plain show ?thesis
    by (auto simp: main_run_def Let_def sim_forge_def requested_def matches_def
        intro!: honest_cases honest_fails honest_with_port honest_with_link [OF alive] honest_serve)
next
  case (CmdBridge endpoint link rfc)
  with plain show ?thesis
    by (auto simp: main_run_def Let_def bridge_forge_def requested_def matches_def
        intro!: honest_cases honest_fails honest_with_port honest_with_link [OF alive] honest_serve)
next
  case (CmdMux dev_path baud link)
  have "matches (map Some link) pub" if "map fst pub = link" for pub :: published
    using that by (auto simp: matches_def list_all2_conv_all_nth split: prod.split)
  with CmdMux plain show ?thesis
    by (auto simp: main_run_def Let_def mux_forge_def requested_def
        intro!: honest_cases honest_fails honest_with_links [OF alive] honest_serve)
qed


section \<open>A program as the device\<close>

lemma build_pair_zero: "spec_baud spec = Some 0 \<Longrightarrow> build_pair_nth spec n now = None"
  by (simp add: build_pair_nth_def wire_new_def wire_byte_time_def byte_time_zero Let_def)

lemma sim_ready:
  assumes "sim_forge host None link exec spec json hist fs = Some o'" "o_ready o' \<noteq> None"
  shows "\<exists>port. exec_body host spec exec port (hist_exec hist) = Some (o_result o') \<and> exec \<noteq> []"
  using assms
  by (auto simp: sim_forge_def with_port_def with_link_def serve_def fails_def simp del: chars_simps
      split: if_splits sum.splits option.splits prod.splits)

lemma exec_run_exited:
  assumes "exec_run lc wires port (es @ [(t, ChildExited code)]) = Some (s, outs)"
  shows "x_result s = Some (child_result code)"
  using assms by (auto simp: exec_run_def run_events_append exec_step_def split: bind_splits prod.splits if_splits)

section \<open>Properties\<close>

text \<open>A machine where every call succeeds, and a simulator whose program is killed by a signal.\<close>

definition demo_host :: host where
  "demo_host = \<lparr>h_procs = demo_procs, h_libc = linux_libc, h_strerror = (\<lambda>_. []),
     h_openpty = (\<lambda>n. Inl (3 + 2 * n, 4 + 2 * n, plain_tty cooked_tio)), h_ptsname = (\<lambda>n. Inr (chars ''/dev/pts/5'')),
     h_register = (\<lambda>_. True), h_device = IoOk (plain_tty cooked_tio), h_device_registers = True,
     h_listen = (\<lambda>a. IoOk (Some a)), h_sigterm = None, h_sigint = None, h_stdout = (\<lambda>_. None),
     h_render = (\<lambda>_. []), h_spawn = (\<lambda>_. None), h_join_error = [],
     h_recv = ring_recv, h_now = 0\<rparr>"

definition demo_cli :: cli where
  "demo_cli = \<lparr>cli_json = False,
     cli_wire = \<lparr>baud_sim = None, arg_latency = None, arg_jitter = None, arg_drop = None, arg_corrupt = None, arg_seed = None\<rparr>,
     cli_cmd = CmdSim None (Some (chars ''/tmp/z'')) [chars ''board'']\<rparr>"

definition demo_hist :: history where
  "demo_hist = \<lparr>hist_modem = [], hist_mux = [], hist_watch = [], hist_bridge = [], hist_preset = [], hist_exec = [] @ [(9, ChildExited None)]\<rparr>"

lemma demo_claim:
  obtains fs1 where "claim demo_procs (Some (chars ''/tmp/z'')) tag (chars ''/dev/pts/5'') (demo_fs (\<lambda>_. True)) =
    Some (Inr (chars ''/tmp/z''), fs1)"
proof -
  let ?fs = "demo_fs (\<lambda>_. True)" and ?z = "chars ''/tmp/z''" and ?s = "chars ''/dev/pts/5''"
  have "create_err ?fs ?z = None" "entries ?fs ?z = None" by (simp_all add: demo_fs_def)
  from try_claim_free(1) [OF this(2) demo_ok this(1)]
  have t: "try_claim_link demo_procs ?z ?s ?fs = Some (Inr True, ?fs\<lparr>entries := (entries ?fs)(?z \<mapsto> Symlink ?s)\<rparr>)" .
  have "\<exists>fs1. claim demo_procs (Some ?z) tag ?s ?fs = Some (Inr ?z, fs1)"
    unfolding claim_def claim_path_def option.case t by (simp add: write_sidecar demo_regular) (simp add: demo_fs_def)
  then show thesis using that by blast
qed

lemma demo_rules: "regular (demo_fs rm)" "whole_writes (demo_fs rm)"
  by (simp_all add: regular_def demo_regular whole_writes_def) (simp add: demo_fs_def)

lemma demo_plain: "\<forall>p. Some p \<in> set (requested (cli_cmd demo_cli)) \<longrightarrow> plain_path p"
  using not_sidecar [of "chars ''/tmp/z''"] by (simp add: plain_path_def demo_cli_def requested_def)

lemma demo_sim_run:
  obtains o' pub fs1 where "main_run demo_host 0 demo_hist demo_cli (demo_fs (\<lambda>_. True)) = Some o'"
    "o_ready o' = Some (chars ''/tmp/z'' @ [10], pub, fs1)" "pub = [(chars ''/tmp/z'', chars ''/dev/pts/5'')]"
proof -
  let ?fs = "demo_fs (\<lambda>_. True)" and ?z = "chars ''/tmp/z''" and ?s = "chars ''/dev/pts/5''"
  obtain fs1 where c: "claim demo_procs (Some ?z) (chars ''sim'') ?s ?fs = Some (Inr ?z, fs1)" by (rule demo_claim)
  obtain w where "build_pair_nth default_spec 0 0 = Some w"
    using build_pair_total [of default_spec 0 0] by (auto simp: default_spec_def)
  then have "\<exists>o' pub fs1. main_run demo_host 0 demo_hist demo_cli ?fs = Some o' \<and>
      o_ready o' = Some (?z @ [10], pub, fs1) \<and> pub = [(?z, ?s)]"
    using c
    by (simp add: main_run_def Let_def demo_cli_def resolve_seed_def to_spec_def sim_forge_def with_port_def create_def
        demo_host_def with_link_def serve_def install_def announce_def exec_body_def default_spec_def demo_hist_def
        exec_run_def exec_start_def exec_step_def child_result_def drop_links_def demo_procs_def del: chars_simps)
  then show thesis using that by blast
qed

text \<open>
  (C6) A forge leaves no trace: whichever command, and however its run ends -- a failure of any
  step before readiness, a panic, a signal -- every file that is there afterwards was there before,
  with the same contents; what it has removed are links of dead processes.  This takes a file
  system where it can remove what it creates, nobody has planted a symlink or a device where a
  sidecar goes and no write fails half-way, and links that are not themselves named as sidecars.
\<close>

theorem no_trace_left:
  assumes "main_run host subsec hist cli fs = Some o'" and "fs_ok fs" and "\<forall>p. removable fs p"
    and "regular fs" and "whole_writes fs" and "\<forall>p. Some p \<in> set (requested (cli_cmd cli)) \<longrightarrow> plain_path p"
  shows "entries (o_fs o') \<subseteq>\<^sub>m entries fs"
proof -
  have "list_all plain (requested (cli_cmd cli))" using assms(6) by (auto simp: list_all_iff plain_def)
  from tidy_main [OF this, of host subsec hist] assms(1-5) show ?thesis by (simp add: tidy_def clean_fs_def)
qed

theorem no_trace_left_witness:
  "\<exists>o'. main_run demo_host 0 demo_hist demo_cli (demo_fs (\<lambda>_. True)) = Some o' \<and>
     entries (o_fs o') \<subseteq>\<^sub>m entries (demo_fs (\<lambda>_. True))"
proof -
  have "\<forall>p. removable (demo_fs (\<lambda>_. True)) p" by (simp add: demo_fs_def)
  with no_trace_left [OF _ demo_ok _ demo_rules demo_plain] show ?thesis by (rule_tac demo_sim_run) blast
qed

text \<open>
  (C7) Ready means published: when a forge announces readiness, every path it names, in the order
  asked for, is a link to its port with this process's pid beside it -- also when it has claimed
  several -- and, without \<open>--json\<close>, what it printed is those paths, one to a line.  Again no
  sidecar's place is taken by anything but a file, and no link asked for is named as a sidecar.
\<close>

theorem ready_means_published:
  assumes "main_run host subsec hist cli fs = Some o'" and "fs_ok fs"
    and "o_ready o' = Some (printed, pub, fs1)"
    and "self_pid (h_procs host) < 2 ^ 31" and "process_alive (h_procs host) (int (self_pid (h_procs host)))"
    and "regular fs" and "\<forall>p. Some p \<in> set (requested (cli_cmd cli)) \<longrightarrow> plain_path p"
  shows "list_all2 (\<lambda>r (p, _). r = None \<or> r = Some p) (requested (cli_cmd cli)) pub \<and>
    (\<forall>(p, slave) \<in> set pub. entries fs1 p = Some (Symlink slave) \<and>
       entries fs1 (sidecar p) = Some (File (chars (decimal (self_pid (h_procs host)))))) \<and>
    (\<not> cli_json cli \<longrightarrow> printed = concat (map (\<lambda>(p, _). p @ [10]) pub))"
proof -
  have "alive_host host" using assms(4,5) by (simp add: alive_host_def)
  from honest_main [OF this assms(7), of subsec hist, unfolded honest_def] assms(1-3,6)
  have "published_ok host pub fs1 \<and> matches (requested (cli_cmd cli)) pub \<and>
      (\<not> cli_json cli \<longrightarrow> printed = concat (map (\<lambda>(p, _). p @ [10]) pub))"
    by (auto simp: published_ok_def)
  then show ?thesis by (auto simp: published_ok_def matches_def)
qed

theorem ready_means_published_witness:
  "\<exists>o' printed pub fs1. main_run demo_host 0 demo_hist demo_cli (demo_fs (\<lambda>_. True)) = Some o' \<and>
     o_ready o' = Some (printed, pub, fs1) \<and> printed = chars ''/tmp/z'' @ [10] \<and>
     entries fs1 (chars ''/tmp/z'') = Some (Symlink (chars ''/dev/pts/5''))"
proof -
  obtain o' pub fs1 where d: "main_run demo_host 0 demo_hist demo_cli (demo_fs (\<lambda>_. True)) = Some o'"
    "o_ready o' = Some (chars ''/tmp/z'' @ [10], pub, fs1)" "pub = [(chars ''/tmp/z'', chars ''/dev/pts/5'')]" by (rule demo_sim_run)
  have a: "self_pid (h_procs demo_host) < 2 ^ 31" "process_alive (h_procs demo_host) (int (self_pid (h_procs demo_host)))"
    by (simp_all add: demo_host_def demo_procs_def process_alive_def)
  from ready_means_published [OF d(1) demo_ok d(2) a demo_rules(1) demo_plain] d show ?thesis by fastforce
qed



text \<open>
  (C30) The exit code of a simulator that runs a program, once it is ready: 101 at a simulated line
  rate of 0, which panics; 3 if the program cannot be started; and the program's own status, clamped
  to a byte, when it exits -- but 0, success, when a signal killed it.
\<close>

theorem program_exit_code:
  assumes "main_run host subsec hist cli fs = Some o'" and "cli_cmd cli = CmdSim None link exec" and "o_ready o' \<noteq> None"
  shows "if baud_sim (cli_wire cli) = Some 0 then exit_code (o_result o') = 101
    else if h_spawn host exec \<noteq> None then exit_code (o_result o') = 3
    else \<forall>es t code. hist_exec hist = es @ [(t, ChildExited code)] \<longrightarrow>
      exit_code (o_result o') = (case code of Some c \<Rightarrow> nat (max 0 (min c 255)) | None \<Rightarrow> 0)"
proof -
  let ?spec = "resolve_seed subsec (of_nat (self_pid (h_procs host))) (to_spec (cli_wire cli))"
  have b: "spec_baud ?spec = baud_sim (cli_wire cli)" by (simp add: resolve_seed_def to_spec_def Let_def)
  from assms(1,2) have "sim_forge host None link exec ?spec (cli_json cli) hist fs = Some o'" by (simp add: main_run_def Let_def)
  from sim_ready [OF this assms(3)] obtain port where r: "exec_body host ?spec exec port (hist_exec hist) = Some (o_result o')"
    "exec \<noteq> []" by blast
  show ?thesis
  proof (cases "baud_sim (cli_wire cli) = Some 0")
    case True
    with r build_pair_zero [of ?spec] b show ?thesis by (simp add: exec_body_def exit_code_def)
  next
    case False
    with build_pair_total [of ?spec 0 "h_now host"] b obtain wires where w: "build_pair_nth ?spec 0 (h_now host) = Some wires" by auto
    show ?thesis
    proof (cases "h_spawn host exec")
      case (Some e)
      with r w have "\<exists>m. o_result o' = Some (Inl [SetupError, Msg m, Os e])"
        by (cases exec) (auto simp: exec_body_def dest: sym)
      with False Some show ?thesis by (auto simp: exit_code_def child_exit_def is_setup_def)
    next
      case None
      have "exit_code (o_result o') = (case code of Some c \<Rightarrow> nat (max 0 (min c 255)) | None \<Rightarrow> 0)"
        if "hist_exec hist = es @ [(t, ChildExited code)]" for es t code
      proof -
        from r w None that have "o_result o' = Some (child_result code)"
          by (auto simp: exec_body_def dest!: exec_run_exited split: list.splits option.splits)
        then show ?thesis by (auto simp: exit_code_def child_result_def split: option.split)
      qed
      with False None show ?thesis by simp
    qed
  qed
qed


theorem program_exit_code_witness:
  "\<exists>o'. main_run demo_host 0 demo_hist demo_cli (demo_fs (\<lambda>_. True)) = Some o' \<and> exit_code (o_result o') = 0"
proof -
  obtain o' pub fs1 where d: "main_run demo_host 0 demo_hist demo_cli (demo_fs (\<lambda>_. True)) = Some o'"
    "o_ready o' = Some (chars ''/tmp/z'' @ [10], pub, fs1)" by (rule demo_sim_run)
  have c: "cli_cmd demo_cli = CmdSim None (Some (chars ''/tmp/z'')) [chars ''board'']"
    "baud_sim (cli_wire demo_cli) \<noteq> Some 0" "h_spawn demo_host x = None" for x
    by (simp_all add: demo_cli_def demo_host_def)
  have h: "hist_exec demo_hist = [] @ [(9, ChildExited None)]" by (simp add: demo_hist_def)
  from program_exit_code [OF d(1) c(1)] d(2) c(2,3) h have "exit_code (o_result o') = 0" by fastforce
  with d(1) show ?thesis by blast
qed

end
