(* ===== verification/Exit_Codes.thy ===== *)
theory Exit_Codes
  imports Forges
begin

declare chars_simps [simp del]

text \<open>
  How a run ends that has announced readiness: what it returned is what its running phase returned,
  which depends on the command.
\<close>

section \<open>From readiness to the running phase\<close>

lemma serve_ready:
  "serve host json forge pub details spec body fs = Some o' \<Longrightarrow> o_ready o' \<noteq> None \<Longrightarrow> body = Some (o_result o')"
  by (auto simp: serve_def fails_def split: sum.splits prod.splits)

lemma with_port_ready:
  "with_port host n ctx rest fs = Some o' \<Longrightarrow> o_ready o' \<noteq> None \<Longrightarrow> \<exists>port slave. rest port slave fs = Some o'"
  by (auto simp: with_port_def fails_def split: sum.splits)

lemma with_link_ready:
  "with_link host explicit tag slave ctx rest fs = Some o' \<Longrightarrow> o_ready o' \<noteq> None \<Longrightarrow>
   \<exists>path fs1 o1. rest path fs1 = Some o1 \<and> o_result o1 = o_result o' \<and> o_ready o1 \<noteq> None"
  by (fastforce simp: with_link_def fails_def split: option.splits sum.splits)

lemma with_links_ready:
  "with_links host n paths ports links rest fs = Some o' \<Longrightarrow> o_ready o' \<noteq> None \<Longrightarrow>
   \<exists>ports' pub fs1 o1. length ports' = length ports + length paths \<and> rest ports' pub fs1 = Some o1 \<and>
     o_result o1 = o_result o' \<and> o_ready o1 \<noteq> None"
proof (induction host n paths ports links rest fs rule: with_links.induct)
  case (1 host n ports links rest fs)
  then show ?case by fastforce
next
  case (2 host n path paths ports links rest fs)
  from 2(2,3) obtain port slave p fs2 where
    c: "fst (create (h_strerror host) (h_openpty host n) (h_ptsname host n) (h_register host n)) = Inr (port, slave)"
      "claim (h_procs host) (Some path) (chars ''mux'') slave fs = Some (Inr p, fs2)"
      "with_links host (Suc n) paths (ports @ [port]) (links @ [(p, slave)]) rest fs2 = Some o'"
    by (auto simp: fails_def split: option.splits sum.splits prod.splits)
  from 2(1) [OF c(1) refl c(2) refl refl c(3) 2(3)] show ?case by simp
qed

lemma mux_wires_iff: "mux_wires spec i n now = None \<longleftrightarrow> spec_baud spec = Some 0 \<and> n \<noteq> 0"
proof (induction n arbitrary: i)
  case (Suc n)
  then show ?case
    by (cases "build_pair_nth spec i now") (auto simp: build_pair_zero dest: build_pair_None split: bind_splits)
qed simp

section \<open>What a preset returns\<close>

definition preset_result :: "preset \<Rightarrow> bool" where
  "preset_result s \<longleftrightarrow> (\<forall>r. p_pc s = PEnded r \<longrightarrow> r = Inr () \<or> (\<exists>m e. r = Inl [Msg m, Os e]))"

lemma preset_result_pc [simp]:
  "preset_result (preset_inbound ins s)" "preset_result (preset_outbound outs ins s)"
  "preset_result (preset_deliver out ins now s)" "preset_result (preset_feed c ins now s)"
  by (auto simp: preset_result_def preset_inbound_def preset_outbound_def preset_deliver_def preset_feed_def
      split: option.splits)

interpretation preset_end: traced "preset_step lc" "\<lambda>_. True" "\<lambda>s _ _. preset_result s" for lc
proof
  fix s es outs e s' out
  assume s: "preset_result s" "preset_step lc s e = Some (s', out)"
  obtain now ev where e: "e = (now, ev)" by fastforce
  have "preset_read r now s = Some s' \<Longrightarrow> preset_result s'" for r
    by (auto simp: preset_read_def split: io_result.splits if_splits option.splits) (simp_all add: preset_result_def)
  with s show "preset_result s'"
    by (auto simp: e preset_step_def split: if_splits preset_pc.splits preset_event.splits list.splits)
      (auto simp: preset_result_def)
qed


section \<open>The four forges\<close>

lemma pair_ready:
  assumes "pair_forge host link spec json hist fs = Some o'" "o_ready o' \<noteq> None"
  shows "o_result o' = (if spec_baud spec = Some 0 then None else Some (Inr ()))"
proof -
  from assms obtain port_a port_b where b: "pair_body host spec port_a port_b (hist_modem hist) = Some (o_result o')"
    unfolding pair_forge_def
    by (fastforce simp: fails_def split: if_splits dest!: with_port_ready with_link_ready serve_ready)
  then show ?thesis
    by (auto simp: pair_body_def build_pair_zero dest: build_pair_None split: option.splits prod.splits if_splits)
qed

lemma mux_ready:
  assumes "mux_forge host dev_path baud link spec json hist fs = Some o'" "o_ready o' \<noteq> None"
  shows "o_result o' = (if spec_baud spec = Some 0 \<and> link \<noteq> [] then None else Some (Inr ()))"
proof -
  from assms obtain ports where b: "mux_body host spec ports (hist_mux hist) (hist_watch hist) = Some (o_result o')"
    "length ports = length link"
    unfolding mux_forge_def
    by (fastforce simp: fails_def split: if_splits sum.splits dest!: with_links_ready serve_ready)
  have "mux_wires spec 0 (length ports) (h_now host) = None \<longleftrightarrow> spec_baud spec = Some 0 \<and> link \<noteq> []"
    using b(2) mux_wires_iff [of spec 0 "length ports"] by auto
  with b(1) show ?thesis
    by (cases "mux_wires spec 0 (length ports) (h_now host)") (auto simp: mux_body_def split: option.splits)
qed

lemma bridge_ready:
  assumes "bridge_forge host endpoint link rfc spec json hist fs = Some o'" "o_ready o' \<noteq> None"
  shows "o_result o' = Some (Inr ()) \<or> spec_baud spec = Some 0 \<and> (\<exists>m. o_result o' = Some (Inl [Msg m]))"
proof -
  from assms obtain port where b: "bridge_body host spec rfc port (hist_bridge hist) (hist_watch hist) = Some (o_result o')"
    unfolding bridge_forge_def
    by (fastforce simp: fails_def split: if_splits sum.splits dest!: with_port_ready with_link_ready serve_ready)
  let ?cfg = "\<lparr>bc_spec = spec, bc_rfc2217 = rfc, bc_libc = h_libc host,
    bc_pristine = pristine_settings (h_libc host) (port_termios port)\<rparr>"
  from b obtain c outs where r: "bridge_run ?cfg (hist_bridge hist) = Some (c, outs)"
    "o_result o' = Some (if mode c = Dead then Inl [Msg (chars ''bridge task failed: '' @ h_join_error host)] else Inr ())"
    by (auto simp: bridge_body_def split: option.splits prod.splits if_splits)
  have "alive ?cfg bridge_start" by (simp add: alive_def bridge_start_def)
  from living.inv_run [OF this _ r(1) [unfolded bridge_run_def]] have "alive ?cfg c" by (simp add: list_all_iff)
  with r show ?thesis by (auto simp: alive_def split: if_splits)
qed

lemma preset_ready:
  assumes "sim_forge host (Some name) link exec spec json hist fs = Some o'" "o_ready o' \<noteq> None"
    and "make_device name = Inr dev"
  shows "if spec_baud spec = Some 0 then o_result o' = None
    else case o_result o' of None \<Rightarrow> True | Some r \<Rightarrow> r = Inr () \<or> (\<exists>m e. r = Inl [Msg m, Os e])"
proof -
  from assms(1,2) obtain port where b: "preset_body host spec name port (hist_preset hist) = Some (o_result o')"
    unfolding sim_forge_def
    by (fastforce simp: fails_def dest!: with_port_ready with_link_ready serve_ready)
  show ?thesis
  proof (cases "build_pair_nth spec 0 (h_now host)")
    case None
    with b assms(3) build_pair_None [OF None] show ?thesis by (auto simp: preset_body_def)
  next
    case (Some wires)
    with b assms(3) obtain s outs where r: "preset_run (h_libc host) wires dev port (h_now host) (hist_preset hist) = Some (s, outs)"
      "o_result o' = (case p_pc s of PEnded r \<Rightarrow> Some r | _ \<Rightarrow> None)"
      by (auto simp: preset_body_def split: option.splits prod.splits preset_pc.splits)
    have "preset_result (preset_start wires dev port (h_now host))" by (simp add: preset_start_def)
    from preset_end.inv_run [OF this _ r(1) [unfolded preset_run_def]] have "preset_result s" by (simp add: list_all_iff)
    with r(2) Some show ?thesis
      by (auto simp: preset_result_def build_pair_zero split: preset_pc.splits)
  qed
qed

section \<open>Property\<close>



end
