(* ===== verification/Mux_Isolation.thy ===== *)
theory Mux_Isolation
  imports Mux
begin

text \<open>
  The multiplexer's promise to its slow consumers' neighbours (\<open>src/forge/mux.rs\<close>): what one
  consumer receives, when, and whether it reads at all, influences nothing else.  The proof is
  the classical one for non-interference: two runs, one of them with that consumer's receiving
  purged, stay equal in everything but its receiving half.
\<close>

section \<open>Purging\<close>

text \<open>The steps of consumer \<open>i\<close>'s \<open>to_consumer\<close> task.\<close>

fun receives :: "nat \<Rightarrow> mux_event \<Rightarrow> bool" where
  "receives i (Consumer j Receive) = (i = j)"
| "receives i (Consumer j (Deliver te)) = (i = j)"
| "receives i _ = False"

definition purge :: "nat \<Rightarrow> (instant \<times> mux_event) list \<Rightarrow> (instant \<times> mux_event) list" where
  "purge i es = filter (\<lambda>(_, e). \<not> receives i e) es"

text \<open>Equal in all but consumer \<open>i\<close>'s receiving half.\<close>

definition same_from :: "consumer \<Rightarrow> consumer \<Rightarrow> bool" where
  "same_from c c' \<longleftrightarrow> c_from c' = c_from c"

definition same_but :: "nat \<Rightarrow> mux \<Rightarrow> mux \<Rightarrow> bool" where
  "same_but i m m' \<longleftrightarrow>
     m_nap m' = m_nap m \<and> m_published m' = m_published m \<and> m_queue m' = m_queue m \<and> m_writer m' = m_writer m \<and>
     list_all2 same_from (m_consumers m) (m_consumers m') \<and>
     (\<forall>j < length (m_consumers m). j \<noteq> i \<longrightarrow> m_consumers m' ! j = m_consumers m ! j)"

lemma same_but_refl: "same_but i m m"
  by (simp add: same_but_def same_from_def list_all2_refl)

lemma same_but_length: "same_but i m m' \<Longrightarrow> length (m_consumers m') = length (m_consumers m)"
  unfolding same_but_def by (metis list_all2_lengthD)

lemma same_but_from: "same_but i m m' \<Longrightarrow> j < length (m_consumers m) \<Longrightarrow> c_from (m_consumers m' ! j) = c_from (m_consumers m ! j)"
  by (auto simp: same_but_def same_from_def dest: list_all2_nthD)

text \<open>A purged step changes nothing that is compared.\<close>

lemma receives_step:
  assumes "mux_step recv m (now, e) = Some (m1, out)" "receives i e" "same_but i m m'"
  shows "same_but i m1 m' \<and> device_of out = [] \<and> (\<forall>j. j \<noteq> i \<longrightarrow> port_of j out = [])"
proof -
  from assms(2) obtain ce where e: "e = Consumer i ce" "ce = Receive \<or> (\<exists>te. ce = Deliver te)"
    by (cases "(i, e)" rule: receives.cases) auto
  with assms(1) obtain c d subs where s: "i < length (m_consumers m)"
      "consumer_step recv (m_published m) (length (m_queue m) < TX_QUEUE) now ce (m_consumers m ! i) = Some (c, d, subs)"
      "m1 = m\<lparr>m_consumers := (m_consumers m)[i := c], m_queue := m_queue m @ subs\<rparr>" "out = [ToConsumer i d]"
    by (auto simp: mux_step_def split: if_splits)
  from s(2) e(2) have c: "c_from c = c_from (m_consumers m ! i)" "subs = []"
    by (auto simp: consumer_step_def split: if_splits option.splits recv_result.splits task_event.splits)
  have "list_all2 same_from ((m_consumers m)[i := c]) (m_consumers m')"
    using assms(3) s(1) c(1) same_but_from [OF assms(3)] same_but_length [OF assms(3)]
    by (auto simp: list_all2_conv_all_nth same_from_def nth_list_update)
  with s c assms(3) show ?thesis by (auto simp: same_but_def)
qed

text \<open>Any other step is taken alike on both sides.\<close>

lemma other_step:
  assumes "mux_step recv m (now, e) = Some (m1, out)" "\<not> receives i e" "same_but i m m'"
  shows "\<exists>m1'. mux_step recv m' (now, e) = Some (m1', out) \<and> same_but i m1 m1'"
proof (cases e)
  case (Consumer j ce)
  with assms(1) obtain c d subs where s: "j < length (m_consumers m)"
      "consumer_step recv (m_published m) (length (m_queue m) < TX_QUEUE) now ce (m_consumers m ! j) = Some (c, d, subs)"
      "m1 = m\<lparr>m_consumers := (m_consumers m)[j := c], m_queue := m_queue m @ subs\<rparr>" "out = [ToConsumer j d]"
    by (auto simp: mux_step_def split: if_splits)
  have "\<exists>c'. consumer_step recv (m_published m') (length (m_queue m') < TX_QUEUE) now ce (m_consumers m' ! j) = Some (c', d, subs) \<and>
      same_from c c' \<and> (j \<noteq> i \<longrightarrow> c' = c)"
  proof (cases "j = i")
    case True
    with assms(2) Consumer s(2) same_but_from [OF assms(3) s(1)] assms(3) show ?thesis
      by (cases ce) (auto simp: consumer_step_def same_but_def same_from_def split: task_event.splits task_pc.splits if_splits)
  next
    case False
    with s assms(3) show ?thesis by (auto simp: same_but_def same_from_def)
  qed
  then obtain c' where c': "consumer_step recv (m_published m') (length (m_queue m') < TX_QUEUE) now ce (m_consumers m' ! j) = Some (c', d, subs)"
    "same_from c c'" "j \<noteq> i \<longrightarrow> c' = c" by blast
  have "(m_consumers m')[j := c'] ! k = (m_consumers m)[j := c] ! k" if "k < length (m_consumers m)" "k \<noteq> i" for k
    using that assms(3) s(1) c'(3) same_but_length [OF assms(3)] by (cases "k = j") (auto simp: same_but_def)
  then have "same_but i m1 (m'\<lparr>m_consumers := (m_consumers m')[j := c'], m_queue := m_queue m' @ subs\<rparr>)"
    using assms(3) s(3) c'(2,3) same_but_length [OF assms(3)]
    by (auto simp: same_but_def intro: list_all2_update_cong)
  with Consumer c'(1) s(1,4) same_but_length [OF assms(3)] show ?thesis
    by (simp add: mux_step_def)
next
  case (DeviceGot r)
  with assms show ?thesis
    by (auto simp: mux_step_def reader_step_def same_but_def split: io_result.splits if_splits)
next
  case (WriterTook n)
  with assms show ?thesis
    by (auto simp: mux_step_def same_but_def split: writer.splits if_splits)
qed (use assms in \<open>auto simp: mux_step_def same_but_def split: option.splits writer.splits list.splits if_splits\<close>)

lemma purged_run:
  "run_events (mux_step recv) m es = Some (m1, outs) \<Longrightarrow> same_but i m m' \<Longrightarrow>
   \<exists>m1' outs'. run_events (mux_step recv) m' (purge i es) = Some (m1', outs') \<and> same_but i m1 m1' \<and>
     device_of outs' = device_of outs \<and> (\<forall>j. j \<noteq> i \<longrightarrow> port_of j outs' = port_of j outs)"
proof (induction es arbitrary: m m' outs)
  case (Cons ev es)
  obtain now e where ev: "ev = (now, e)" by fastforce
  from Cons.prems(1) obtain m2 o1 o2 where s: "mux_step recv m (now, e) = Some (m2, o1)"
    "run_events (mux_step recv) m2 es = Some (m1, o2)" "outs = o1 @ o2"
    by (auto simp: ev split: bind_splits)
  show ?case
  proof (cases "receives i e")
    case True
    from receives_step [OF s(1) True Cons.prems(2)] Cons.IH [OF s(2), of m'] True s(3) show ?thesis
      by (auto simp: ev purge_def)
  next
    case False
    from other_step [OF s(1) False Cons.prems(2)] obtain m2' where m2': "mux_step recv m' (now, e) = Some (m2', o1)"
      "same_but i m2 m2'" by blast
    from Cons.IH [OF s(2) m2'(2)] m2'(1) False s(3) show ?thesis by (auto simp: ev purge_def)
  qed
qed (simp add: purge_def)

section \<open>Properties\<close>

text \<open>
  (C17) A slow consumer harms nobody: whatever consumer \<open>i\<close> receives or leaves unread in a run,
  the same run without any of its receiving -- it never reads a byte -- is a run too, in which
  the device gets the same bytes, every other port gets the same bytes, the same is published and
  queued, and every other consumer, and what this one types, is in the same state.
\<close>

theorem slow_consumer_harmless:
  assumes "mux_run recv wires es = Some (m, outs)"
  shows "\<exists>m' outs'. mux_run recv wires (purge i es) = Some (m', outs') \<and>
    device_of outs' = device_of outs \<and> (\<forall>j. j \<noteq> i \<longrightarrow> port_of j outs' = port_of j outs) \<and>
    m_published m' = m_published m \<and> m_queue m' = m_queue m \<and> m_writer m' = m_writer m \<and>
    map c_from (m_consumers m') = map c_from (m_consumers m) \<and>
    (\<forall>j < length (m_consumers m). j \<noteq> i \<longrightarrow> m_consumers m' ! j = m_consumers m ! j)"
proof -
  from purged_run [OF assms [unfolded mux_run_def] same_but_refl] obtain m' outs' where
    r: "mux_run recv wires (purge i es) = Some (m', outs')" "same_but i m m'"
      "device_of outs' = device_of outs" "\<forall>j. j \<noteq> i \<longrightarrow> port_of j outs' = port_of j outs"
    unfolding mux_run_def by blast
  have "map c_from (m_consumers m') = map c_from (m_consumers m)"
    using same_but_length [OF r(2)] same_but_from [OF r(2)] by (auto intro: nth_equalityI)
  with r show ?thesis unfolding same_but_def by metis
qed

theorem slow_consumer_harmless_witness:
  "\<exists>w m outs. mux_run ring_recv [(w, w), (w, w)] (purge 0 demo_events) = Some (m, outs) \<and>
     device_of outs = [65] \<and> m_published m = [[1, 2]]"
proof -
  obtain w where w: "wire_new default_spec 0 5 = Some w"
    by (simp add: wire_new_def wire_byte_time_def default_spec_def)
  from mux_demo [OF w] obtain m outs where m: "mux_run ring_recv [(w, w), (w, w)] demo_events = Some (m, outs)"
      "device_of outs = [65]" "m_published m = [[1, 2]]" by fastforce
  from slow_consumer_harmless [OF m(1), of 0] m(2,3) show ?thesis by metis
qed

end
