(* ===== verification/Rfc_Progress.thy ===== *)
theory Rfc_Progress
  imports Rfc_Session
begin

text \<open>
  Progress of an RFC2217 session (\<open>run_rfc2217_session\<close> of \<open>src/forge/bridge.rs\<close>): its two tasks
  share the peer's writer behind a mutex, and each waits for it with bytes in hand.  At most one
  holds it, nobody waits for anything else while holding it than the peer taking those bytes, and
  once the peer has taken them both tasks can go on.
\<close>

section \<open>What a session can wait for\<close>

definition up_can_step :: "libc \<Rightarrow> rfc_session \<Rightarrow> bool" where
  "up_can_step lc s \<longleftrightarrow> (\<exists>now e. rfc_step lc s (now, UpEv e) \<noteq> None)"

definition down_can_step :: "libc \<Rightarrow> rfc_session \<Rightarrow> bool" where
  "down_can_step lc s \<longleftrightarrow> (\<exists>now e. rfc_step lc s (now, DownEv e) \<noteq> None)"

text \<open>The peer takes bytes that are being written to it.\<close>

primrec takes :: "rfc_event \<Rightarrow> bool" where
  "takes (OfferTook n) = True" | "takes OfferFailed = False"
| "takes (UpEv e) = (case e of UpTook n \<Rightarrow> True | _ \<Rightarrow> False)"
| "takes (DownEv e) = (case e of DownTook n \<Rightarrow> True | _ \<Rightarrow> False)"

definition plan_fails :: "rfc_session \<Rightarrow> bool" where
  "plan_fails s \<longleftrightarrow> (\<exists>now d. plan (up_wire s) now d = None \<or> plan (down_wire s) now d = None)"

section \<open>The invariant\<close>

definition well_placed :: "rfc_session \<Rightarrow> bool" where
  "well_placed s \<longleftrightarrow> exclusive s \<and> up s \<noteq> UpCells [] \<and> down s \<noteq> DownCells []"

lemma up_cells_placed [simp]: "up_cells cs \<noteq> UpCells []"
  by (simp add: up_cells_def)

lemma down_cells_placed [simp]: "down_cells cs \<noteq> DownCells []"
  by (simp add: down_cells_def)

lemma up_continue_placed [simp]: "up (up_continue k now s) \<noteq> UpCells []"
  by (auto simp: up_continue_def split: after_sync.split option.split)

lemma sync_placed [simp]: "up (sync_settings lc tio k now s) \<noteq> UpCells []"
  by (auto simp: sync_settings_def Let_def split: option.split)

lemma sync_write_placed [simp]: "up (sync_write ms k now s) \<noteq> UpCells []"
  by (auto simp: sync_write_def split: list.split)

lemma down_deliver_placed [simp]: "down (down_deliver d now s) \<noteq> DownCells []"
  by (auto simp: down_deliver_def split: option.split)

lemma down_decode_placed [simp]: "down (down_decode d now s) \<noteq> DownCells []"
  by (auto simp: down_decode_def Let_def split: prod.split)

lemma well_placed_step:
  assumes "well_placed s" "rfc_step lc s e = Some (s', out)"
  shows "well_placed s'"
proof -
  obtain now ev where e: "e = (now, ev)" by fastforce
  from assms(2) [unfolded e] show ?thesis
  proof (cases rule: rfc_stepE)
    case (up u)
    from up(4) show ?thesis
      by (cases rule: up_stepE) (use assms(1) up(2) in \<open>auto simp: well_placed_def exclusive_def writer_free_def\<close>)
  next
    case (down d)
    from down(4) show ?thesis
      by (cases rule: down_stepE) (use assms(1) down(2) in \<open>auto simp: well_placed_def exclusive_def writer_free_def\<close>)
  qed (use assms(1) in \<open>auto simp: well_placed_def exclusive_def\<close>)
qed

interpretation placed: traced "rfc_step lc" "\<lambda>_. True" "\<lambda>s es outs. well_placed s" for lc
  by unfold_locales (rule well_placed_step)

lemma rfc_run_placed: "rfc_run lc p w0 w1 es = Some (s, outs) \<Longrightarrow> well_placed s"
  using placed.inv_run [of "rfc_open p w0 w1" es lc s outs]
  by (simp add: rfc_run_def list_all_iff well_placed_def exclusive_def rfc_open_def)

lemma running_step:
  "\<not> over s \<Longrightarrow> phase s = Running \<Longrightarrow> rfc_step lc s (now, UpEv u) = up_step lc now u s"
  "\<not> over s \<Longrightarrow> phase s = Running \<Longrightarrow> rfc_step lc s (now, DownEv d) = down_step now d s"
  by (simp_all add: rfc_step_def)

section \<open>With the writer free, both tasks can step\<close>

lemma up_free:
  assumes "\<not> over s" "phase s = Running" "writer_free s" "up s \<noteq> UpCells []"
  shows "up_can_step lc s"
proof -
  have "\<exists>now e. up_step lc now e s \<noteq> None"
  proof (cases "up s")
    case UpSelect
    then have "up_step lc 0 (UpTick None) s \<noteq> None" by (simp add: up_step_def)
    then show ?thesis by blast
  next
    case (UpNap t)
    then have "up_step lc t UpTimer s \<noteq> None" by (simp add: up_step_def)
    then show ?thesis by blast
  next
    case (UpCells cells)
    with assms(4) obtain c cs where "up s = UpCells (c # cs)" by (cases cells) auto
    then have "up_step lc (due c) UpTimer s \<noteq> None" by (simp add: up_step_def)
    then show ?thesis by blast
  next
    case (UpSyncLock ms k)
    with assms(3) have "up_step lc 0 UpLocked s \<noteq> None" by (simp add: up_step_def)
    then show ?thesis by blast
  next
    case (UpCellLock c cs)
    with assms(3) have "up_step lc 0 UpLocked s \<noteq> None" by (simp add: up_step_def)
    then show ?thesis by blast
  qed (use assms in \<open>auto simp: writer_free_def over_def\<close>)
  with assms(1,2) show ?thesis by (simp add: up_can_step_def running_step)
qed

lemma down_free:
  assumes "\<not> over s" "phase s = Running" "writer_free s" "down s \<noteq> DownCells []"
  shows "down_can_step lc s"
proof -
  have "\<exists>now e. down_step now e s \<noteq> None"
  proof (cases "down s")
    case DownRead
    then have "down_step 0 (DownGot (IoOk [])) s \<noteq> None" by (simp add: down_step_def)
    then show ?thesis by blast
  next
    case (DownReplyLock r d)
    with assms(3) have "down_step 0 DownLocked s \<noteq> None" by (simp add: down_step_def)
    then show ?thesis by blast
  next
    case (DownCells cells)
    with assms(4) obtain c cs where "down s = DownCells (c # cs)" by (cases cells) auto
    then have "down_step (due c) DownTimer s \<noteq> None" by (simp add: down_step_def)
    then show ?thesis by blast
  next
    case (DownPort m cs)
    then have "down_step 0 (PortTook (length m)) s \<noteq> None" by (simp add: down_step_def)
    then show ?thesis by blast
  qed (use assms in \<open>auto simp: writer_free_def over_def\<close>)
  with assms(1,2) show ?thesis by (simp add: down_can_step_def running_step)
qed

section \<open>The writer is given back\<close>

lemma up_continue_over:
  "over (up_continue k now s) \<Longrightarrow> \<not> over s \<Longrightarrow> plan_fails s"
  unfolding plan_fails_def
  by (auto simp: up_continue_def over_def split: after_sync.splits option.splits)

lemma down_deliver_over:
  "over (down_deliver d now s) \<Longrightarrow> \<not> over s \<Longrightarrow> plan_fails s"
  unfolding plan_fails_def
  by (auto simp: down_deliver_def over_def split: option.splits if_splits)

text \<open>The commands of one sync go out under one lock.\<close>

lemma commands_taken:
  "up s = UpSyncWrite m ms k \<Longrightarrow> phase s = Running \<Longrightarrow> \<not> over s \<Longrightarrow>
   \<exists>later outs. list_all (\<lambda>(_, e). takes e) later \<and>
     run_events (rfc_step lc) s later = Some (up_continue k now (s\<lparr>up := UpSyncWrite (last (m # ms)) [] k\<rparr>), outs)"
proof (induction ms arbitrary: s m)
  case Nil
  have "s\<lparr>up := UpSyncWrite m [] k\<rparr> = s" using Nil.prems(1) by (cases s) simp
  moreover have "up_step lc now (UpTook (length m)) s = Some (up_continue k now s, [ToPeer m])"
    using Nil by (simp add: up_step_def sync_write_def)
  ultimately have "up_step lc now (UpTook (length m)) s =
      Some (up_continue k now (s\<lparr>up := UpSyncWrite (last [m]) [] k\<rparr>), [ToPeer m])" by simp
  then show ?case using Nil.prems
    by (intro exI [of _ "[(now, UpEv (UpTook (length m)))]"]) (auto simp: running_step)
next
  case (Cons m' ms)
  let ?s = "s\<lparr>up := UpSyncWrite m' ms k\<rparr>"
  from Cons.prems have "up_step lc now (UpTook (length m)) s = Some (?s, [ToPeer m])"
    by (simp add: up_step_def sync_write_def)
  moreover from Cons.prems obtain later outs where "list_all (\<lambda>(_, e). takes e) later"
    "run_events (rfc_step lc) ?s later = Some (up_continue k now (?s\<lparr>up := UpSyncWrite (last (m' # ms)) [] k\<rparr>), outs)"
    using Cons.IH [of ?s m'] by (auto simp: over_def)
  ultimately show ?case using Cons.prems
    by (intro exI [of _ "(now, UpEv (UpTook (length m))) # later"]) (auto simp: running_step)
qed

text \<open>From every state in which the writer is held, the peer's reading alone frees it.\<close>

lemma writer_given_back:
  assumes "well_placed s" "\<not> over s" "phase s = Running"
  obtains later s' outs where "list_all (\<lambda>(_, e). takes e) later" "run_events (rfc_step lc) s later = Some (s', outs)"
    "over s' \<and> plan_fails s \<or> \<not> over s' \<and> phase s' = Running \<and> writer_free s' \<and> well_placed s'"
proof -
  have "\<exists>later s' outs. list_all (\<lambda>(_, e). takes e) later \<and> run_events (rfc_step lc) s later = Some (s', outs) \<and>
      phase s' = Running \<and> (over s' \<longrightarrow> plan_fails s) \<and> writer_free s'"
  proof (cases "writer_free s")
    case True
    with assms show ?thesis by (intro exI [of _ "[]"]) auto
  next
    case False
    then consider (sync) m ms k where "up s = UpSyncWrite m ms k" "\<not> down_holds (down s)"
      | (cell) m cells where "up s = UpCellWrite m cells" "\<not> down_holds (down s)"
      | (ans) r d where "down s = DownReplyWrite r d" "\<not> up_holds (up s)"
      using assms(1) unfolding writer_free_def well_placed_def exclusive_def
      by (cases "up s"; cases "down s") auto
    then show ?thesis
    proof cases
      case (sync m ms k)
      let ?s = "s\<lparr>up := UpSyncWrite (last (m # ms)) [] k\<rparr>"
      have "\<not> over ?s" "plan_fails ?s = plan_fails s" using assms(2) by (simp_all add: over_def plan_fails_def)
      with up_continue_over [of k 0 ?s] commands_taken [OF sync(1) assms(3,2), of lc 0] sync(2) assms(3) show ?thesis
        by (force simp: writer_free_def)
    next
      case (cell m cells)
      then have "up_step lc 0 (UpTook (length m)) s = Some (s\<lparr>up := up_cells cells\<rparr>, [ToPeer m])"
        by (simp add: up_step_def)
      with cell assms show ?thesis
        by (intro exI [of _ "[(0, UpEv (UpTook (length m)))]"]) (auto simp: running_step writer_free_def over_def)
    next
      case (ans r d)
      then have "down_step 0 (DownTook (length r)) s = Some (down_deliver d 0 s, [ToPeer r])"
        by (simp add: down_step_def)
      with ans assms down_deliver_over [of d 0 s] show ?thesis
        by (intro exI [of _ "[(0, DownEv (DownTook (length r)))]"]) (auto simp: running_step writer_free_def)
    qed
  qed
  then obtain later s' outs where l: "list_all (\<lambda>(_, e). takes e) later" "run_events (rfc_step lc) s later = Some (s', outs)"
      "phase s' = Running" "over s' \<longrightarrow> plan_fails s" "writer_free s'" by blast
  from placed.inv_run_from [OF assms(1) _ l(2)] have "well_placed s'" by (simp add: list_all_iff)
  with that l show ?thesis by blast
qed

section \<open>Properties\<close>



end
