(* ===== verification/Shell_Tests.thy ===== *)
theory Shell_Tests
  imports Shell "HOL-Library.Sublist"
begin

text \<open>
  The inline tests of \<open>src/forge/sim.rs\<close>: the word splitting of the shells, the dialogues with
  the U-Boot, POSIX and AT presets and the line editing, each test a predicate that holds.  A
  dialogue is typed through \<open>feed\<close> as the test does, bytes in and bytes out.
\<close>

text \<open>Text as typed in a test, with a backquote for the double quote.\<close>

definition tx :: "string \<Rightarrow> rstring" where
  "tx s = map (\<lambda>c. if c = 96 then 34 else c) (chars s)"

definition contains :: "rstring \<Rightarrow> rstring \<Rightarrow> bool" where
  "contains s t \<longleftrightarrow> sublist t s"

definition feed_str :: "'h line_handler \<Rightarrow> 'h line_device \<Rightarrow> rstring \<Rightarrow> ('h line_device \<times> rstring) option" where
  "feed_str ops d s = map_option (apsnd from_utf8_lossy) (feed ops d (utf8 s))"

lemma tx_simps [simp]: "tx [] = []" "tx (c # s) = (if of_char c = (96 :: nat) then 34 else of_char c) # tx s"
  by (simp_all add: tx_def chars_simps)

definition expand_words_concatenates_adjacent_quotes :: bool where
  "expand_words_concatenates_adjacent_quotes \<longleftrightarrow>
     expand_words (tx ''echo `TETHEREXECBE``Gabc123`'') [] 0 = [chars ''echo'', chars ''TETHEREXECBEGabc123''] \<and>
     expand_words (tx ''echo `a b` '' @ [39] @ tx ''c d'' @ [39] @ tx '' e'') [] 0 = [chars ''echo'', chars ''a b'', chars ''c d'', chars ''e''] \<and>
     expand_words (tx ''echo ``'') [] 0 = [chars ''echo'', []]"

definition expand_words_expands_status_and_env :: bool where
  "expand_words_expands_status_and_env \<longleftrightarrow>
     (let env = bt_insert (chars ''baudrate'') (chars ''115200'') []
      in expand_words (tx ''echo `st=$?`'') env 42 = [chars ''echo'', chars ''st=42''] \<and>
         expand_words (tx ''echo $baudrate $missing'') env 0 = [chars ''echo'', chars ''115200''] \<and>
         expand_words (tx ''echo '' @ [39] @ tx ''$?'' @ [39]) env 7 = [chars ''echo'', chars ''$?''])"

definition split_commands_respects_quotes :: bool where
  "split_commands_respects_quotes \<longleftrightarrow>
     split_commands (tx ''echo `a;b`; true'') = [tx ''echo `a;b`'', tx '' true''] \<and>
     split_commands (tx ''  ;; echo x ;'') = [tx '' echo x '']"

lemmas char_facts = chars_simps is_whitespace_def

lemma word_tests:
  "expand_words_concatenates_adjacent_quotes"
  "expand_words_expands_status_and_env"
  "split_commands_respects_quotes"
proof -
  show "expand_words_concatenates_adjacent_quotes"
    by (simp add: expand_words_concatenates_adjacent_quotes_def expand_words_def char_facts)
  have "decimal_int 42 = ''42''" by (simp add: decimal_int_def decimal.simps [of 42] decimal.simps [of 4] char_of_digit)
  then show "expand_words_expands_status_and_env"
    by (simp add: expand_words_expands_status_and_env_def expand_words_def char_facts expand_dollar_def name_char_def
      is_ascii_alphanumeric_def bt_get_def)
  show "split_commands_respects_quotes"
    by (simp add: split_commands_respects_quotes_def split_commands_def char_facts trim_eq_Nil_iff)
qed

text \<open>\<open>&out[..out.find("\r\n").unwrap()]\<close>\<close>

fun before_crlf :: "rstring \<Rightarrow> rstring option" where
  "before_crlf [] = None"
| "before_crlf (c # cs) = (if take 2 (c # cs) = [13, 10] then Some [] else map_option ((#) c) (before_crlf cs))"

definition uboot_runs_the_tether_exec_wrapper :: bool where
  "uboot_runs_the_tether_exec_wrapper \<longleftrightarrow>
     (case feed_str shell_handler (line_device_new uboot)
        (tx ''echo `TETHEREXECBE``Gtag1`; printenv baudrate; echo `TETHEREXECEN``Dtag1=$?`'' @ [13]) of
        None \<Rightarrow> False
      | Some (d, out) \<Rightarrow>
          contains out (chars ''TETHEREXECBEGtag1'' @ [13, 10]) \<and> contains out (chars ''baudrate=115200'' @ [13, 10]) \<and>
          contains out (chars ''TETHEREXECENDtag1=0'' @ [13, 10]) \<and> suffix (chars ''=> '') out \<and>
          (case before_crlf out of
             None \<Rightarrow> False
           | Some echoed \<Rightarrow> \<not> contains echoed (chars ''TETHEREXECBEGtag1'')) \<and>
     (case feed_str shell_handler d (tx ''echo `B``EGx`; false; echo `E``NDx=$?`'' @ [13]) of
        None \<Rightarrow> False
      | Some (d, out) \<Rightarrow> contains out (chars ''ENDx=1'' @ [13, 10]) \<and>
     (case feed_str shell_handler d (tx ''echo `B``EGy`; nosuchcmd; echo `E``NDy=$?`'' @ [13]) of
        None \<Rightarrow> False
      | Some (d, out) \<Rightarrow>
          contains out (chars ''Unknown command '' @ [39] @ chars ''nosuchcmd'' @ [39]) \<and>
          contains out (chars ''ENDy=1'' @ [13, 10]))))"

definition posix_shell_reports_127_for_unknown :: bool where
  "posix_shell_reports_127_for_unknown \<longleftrightarrow>
     (case feed_str shell_handler (line_device_new posix) (tx ''nosuchcmd; echo `rc=$?`'' @ [13]) of
        None \<Rightarrow> False
      | Some (d, out) \<Rightarrow>
          contains out (chars ''sh: nosuchcmd: command not found'' @ [13, 10]) \<and>
          contains out (chars ''rc=127'' @ [13, 10]) \<and> suffix (chars ''$ '') out)"

definition uboot_setenv_printenv_roundtrip :: bool where
  "uboot_setenv_printenv_roundtrip \<longleftrightarrow>
     (case feed_str shell_handler (line_device_new uboot) (chars ''setenv ipaddr 192.168.1.7'' @ [13]) of
        None \<Rightarrow> False
      | Some (d, _) \<Rightarrow>
     (case feed_str shell_handler d (chars ''printenv ipaddr'' @ [13]) of
        None \<Rightarrow> False
      | Some (d, out) \<Rightarrow> contains out (chars ''ipaddr=192.168.1.7'' @ [13, 10]) \<and>
     (case feed_str shell_handler d (chars ''setenv ipaddr; printenv ipaddr'' @ [13]) of
        None \<Rightarrow> False
      | Some (d, out) \<Rightarrow> contains out (tx ''## Error: `ipaddr` not defined'' @ [13, 10]))))"

definition at_modem_ok_and_error :: bool where
  "at_modem_ok_and_error \<longleftrightarrow>
     (case feed_str at_handler (line_device_new ()) (chars ''AT'' @ [13]) of
        None \<Rightarrow> False
      | Some (d, out) \<Rightarrow> contains out (chars ''OK'' @ [13, 10]) \<and>
     (case feed_str at_handler d (chars ''ati'' @ [13]) of
        None \<Rightarrow> False
      | Some (d, out) \<Rightarrow> contains out (chars ''OK'' @ [13, 10]) \<and>
     (case feed_str at_handler d (chars ''hello'' @ [13]) of
        None \<Rightarrow> False
      | Some (d, out) \<Rightarrow> contains out (chars ''ERROR'' @ [13, 10]) \<and>
        map_option snd (feed_str at_handler d [13]) = Some [13, 10])))"

text \<open>\<open>LineHandlerEcho\<close>\<close>

definition line_handler_echo :: "unit line_handler" where
  "line_handler_echo = \<lparr>prompt = (\<lambda>_. []), on_line = (\<lambda>h l. Some (h, utf8 (chars ''line:'' @ l @ [13, 10])))\<rparr>"

text \<open>\<open>out.matches(t).count()\<close>: disjoint matches.\<close>

function matches_count :: "rstring \<Rightarrow> rstring \<Rightarrow> nat" where
  "matches_count t s =
     (if t = [] \<or> s = [] then 0
      else if prefix t s then Suc (matches_count t (drop (length t) s)) else matches_count t (tl s))"
  by pat_completeness auto
termination
  by (relation "measure (\<lambda>(t, s). length s)") auto

definition line_editing_backspace_and_crlf :: bool where
  "line_editing_backspace_and_crlf \<longleftrightarrow>
     (case feed_str line_handler_echo (line_device_new ()) (chars ''ab'' @ [0x7F] @ chars ''c'' @ [13]) of
        None \<Rightarrow> False | Some (d, out) \<Rightarrow> contains out (chars ''line:ac'')) \<and>
     (case feed_str line_handler_echo (line_device_new ()) (chars ''x'' @ [13, 10] @ chars ''y'' @ [13]) of
        None \<Rightarrow> False
      | Some (d, out) \<Rightarrow> matches_count (chars ''line:'') out = 2 \<and>
          contains out (chars ''line:x'') \<and> contains out (chars ''line:y''))"

definition ctrl_c_abandons_the_line :: bool where
  "ctrl_c_abandons_the_line \<longleftrightarrow>
     (case feed_str line_handler_echo (line_device_new ()) (chars ''junk'' @ [0x03] @ chars ''ok'' @ [13]) of
        None \<Rightarrow> False
      | Some (d, out) \<Rightarrow> contains out (chars ''^C'') \<and> contains out (chars ''line:ok'') \<and>
          \<not> contains out (chars ''line:junkok''))"

section \<open>Feeding a typed line\<close>

definition typable :: "rstring \<Rightarrow> bool" where
  "typable l \<longleftrightarrow> list_all (\<lambda>c. 32 \<le> c \<and> c < 127) l"

lemma typable_utf8:
  assumes "typable l"
  shows "valid_string l" "\<forall>b \<in> set (utf8 l). \<not> special b"
proof -
  show "valid_string l" using assms by (auto simp: typable_def valid_string_def list_all_iff is_scalar_def)
  have "utf8 l = map word_of_nat l"
    using assms by (induction l) (simp_all add: typable_def utf8_char_def)
  moreover have "unat (word_of_nat c :: u8) = c" if "c < 127" for c
    using that by (simp add: unat_word_of_nat_u8)
  ultimately show "\<forall>b \<in> set (utf8 l). \<not> special b"
    using assms by (force simp: typable_def list_all_iff special_def dest: arg_cong [where f = unat])
qed

lemma feed_str_line:
  assumes "typable l" "line d = []" "on_line ops (handler d) l = Some (h, utf8 r)" "prompt ops h = utf8 p"
    and "valid_string r" "valid_string p"
  shows "feed_str ops d (l @ [13]) = Some (\<lparr>line = [], last_was_cr = True, handler = h\<rparr>, l @ [13, 10] @ r @ p)"
proof -
  note t = typable_utf8 [OF assms(1)]
  have u: "utf8 [13] = [0x0D]" "utf8 [13, 10] = [0x0D, 0x0A]" by (simp_all add: utf8_def utf8_char_def)
  have "feed ops d (utf8 (l @ [13])) =
      Some (\<lparr>line = [], last_was_cr = True, handler = h\<rparr>, utf8 l @ [0x0D, 0x0A] @ utf8 r @ utf8 p)"
    using feed_line [OF t(2), of ops d h "utf8 r"] assms(2-4) from_utf8_lossy_utf8 [OF t(1)] u(1) by simp
  moreover have "utf8 l @ [0x0D, 0x0A] @ utf8 r @ utf8 p = utf8 (l @ [13, 10] @ r @ p)"
    using u(2) by simp
  moreover have "valid_string (l @ [13, 10] @ r @ p)"
    using t(1) assms(5,6) by (auto simp: valid_string_def is_scalar_def)
  ultimately show ?thesis using from_utf8_lossy_utf8 [of "l @ [13, 10] @ r @ p"] by (simp add: feed_str_def)
qed

lemma sublistI: "t = a @ s @ b \<Longrightarrow> contains t s"
  by (auto simp: contains_def)

lemma contains_rec: "contains [] s \<longleftrightarrow> s = []" "contains (c # t) s \<longleftrightarrow> prefix s (c # t) \<or> contains t s"
  by (auto simp: contains_def sublist_Cons_right)

lemma shell_replies [simp]:
  "on_line shell_handler s l = Some (shell_on_line s l)" "prompt shell_handler s = shell_prompt s"
  by (simp_all add: shell_handler_def)

lemma utf8_prompt: "shell_prompt s = utf8 (if kind s = Posix then chars ''$ '' else chars ''=> '')"
  by (simp add: shell_prompt_def utf8_def utf8_char_def chars_simps split: shell_kind.split)

lemma run_commands_reply: "shell_on_line s l = (s', utf8 r) \<Longrightarrow> typable l \<Longrightarrow> line d = [] \<Longrightarrow> handler d = s \<Longrightarrow> valid_string r \<Longrightarrow>
   feed_str shell_handler d (l @ [13]) = Some (\<lparr>line = [], last_was_cr = True, handler = s'\<rparr>,
     l @ [13, 10] @ r @ (if kind s' = Posix then chars ''$ '' else chars ''=> ''))"
  by (rule feed_str_line) (simp_all add: utf8_prompt valid_string_def is_scalar_def chars_simps)

lemma posix_test: "posix_shell_reports_127_for_unknown"
proof -
  have "decimal_int 127 = ''127''" by (simp add: decimal_int_def decimal.simps [of 127] decimal.simps [of 12] decimal.simps [of "Suc 0"] char_of_digit)
  then have "shell_on_line posix (tx ''nosuchcmd; echo `rc=$?`'') =
      (posix\<lparr>last_status := 0\<rparr>, utf8 (chars ''sh: nosuchcmd: command not found'' @ [13, 10] @ chars ''rc=127'' @ [13, 10]))"
    by (simp add: shell_on_line_eq char_facts run_one_def expand_words_def posix_def expand_dollar_def crlf_def
        utf8_def utf8_char_def)
  from run_commands_reply [OF this, of "line_device_new posix"] show ?thesis
    by (simp add: posix_shell_reports_127_for_unknown_def line_device_new_def typable_def valid_string_def is_scalar_def
      char_facts contains_rec suffix_to_prefix posix_def)
qed

lemma at_test: "at_modem_ok_and_error"
proof -
  have r: "at_on_line h (chars ''AT'') = Some (h, utf8 (chars ''OK'' @ [13, 10]))"
    "at_on_line h (chars ''ati'') = Some (h, utf8 (chars ''OK'' @ [13, 10]))"
    "at_on_line h (chars ''hello'') = Some (h, utf8 (chars ''ERROR'' @ [13, 10]))"
    "at_on_line h [] = Some (h, utf8 [])" for h
    by (simp_all add: at_on_line_def char_facts trim_def trim_start_def trim_end_def numeral_2_eq_2 utf8_char_def
      eq_ignore_ascii_case_def to_ascii_lower_def Let_def)
  have p: "prompt at_handler h = utf8 []" "on_line at_handler = at_on_line" for h by (simp_all add: at_handler_def)
  have f: "feed_str at_handler d (l @ [13]) = Some (\<lparr>line = [], last_was_cr = True, handler = ()\<rparr>, l @ [13, 10] @ x)"
    if "at_on_line () l = Some ((), utf8 x)" "typable l" "line d = []" "valid_string x" for d l x
    using feed_str_line [OF that(2,3), of at_handler "()" x "[]"] that(1,4) by (simp add: p valid_string_def)
  show ?thesis
    using f [OF r(1), of "line_device_new ()"] f [OF r(2)] f [OF r(3)] f [OF r(4)]
    by (simp add: at_modem_ok_and_error_def line_device_new_def typable_def valid_string_def is_scalar_def
      char_facts contains_rec)
qed

lemma uboot_env: "env uboot =
   [(chars ''arch'', chars ''sandbox''), (chars ''baudrate'', chars ''115200''), (chars ''board'', chars ''ttyforge-sim''),
    (chars ''bootcmd'', chars ''echo Hello from ttyforge''), (chars ''bootdelay'', chars ''2''), (chars ''stderr'', chars ''serial''),
    (chars ''stdin'', chars ''serial''), (chars ''stdout'', chars ''serial'')]"
  by (simp add: uboot_def bt_from_def char_facts)

lemma small_decimals: "decimal_int 0 = ''0''" "decimal_int 1 = ''1''"
  by (simp_all add: decimal_int_def decimal.simps [of 0] decimal.simps [of "Suc 0"] char_of_digit)

lemma uboot_kind [simp]: "kind uboot = Uboot" "last_status uboot = 0"
  by (simp_all add: uboot_def)

lemmas shell_facts = shell_on_line_eq char_facts run_one_def expand_words_def expand_dollar_def crlf_def utf8_def
  utf8_char_def uboot_env bt_get_def small_decimals name_char_def is_ascii_alphanumeric_def bt_remove_def

lemma wrapper_lines:
  "shell_on_line uboot (tx ''echo `TETHEREXECBE``Gtag1`; printenv baudrate; echo `TETHEREXECEN``Dtag1=$?`'') =
     (uboot\<lparr>last_status := 0\<rparr>,
      utf8 (chars ''TETHEREXECBEGtag1'' @ [13, 10] @ chars ''baudrate=115200'' @ [13, 10] @ chars ''TETHEREXECENDtag1=0'' @ [13, 10]))"
  "shell_on_line (uboot\<lparr>last_status := 0\<rparr>) (tx ''echo `B``EGx`; false; echo `E``NDx=$?`'') =
     (uboot\<lparr>last_status := 0\<rparr>, utf8 (chars ''BEGx'' @ [13, 10] @ chars ''ENDx=1'' @ [13, 10]))"
  "shell_on_line (uboot\<lparr>last_status := 0\<rparr>) (tx ''echo `B``EGy`; nosuchcmd; echo `E``NDy=$?`'') =
     (uboot\<lparr>last_status := 0\<rparr>, utf8 (chars ''BEGy'' @ [13, 10] @ chars ''Unknown command '' @ [39] @ chars ''nosuchcmd'' @ [39] @
        chars '' - try '' @ [39] @ chars ''help'' @ [39] @ [13, 10] @ chars ''ENDy=1'' @ [13, 10]))"
  by (simp_all add: shell_facts)


lemmas test_facts = line_device_new_def typable_def valid_string_def is_scalar_def char_facts contains_rec suffix_to_prefix

lemma wrapper_test: "uboot_runs_the_tether_exec_wrapper"
proof -
  let ?d = "\<lparr>line = [], last_was_cr = True, handler = uboot\<lparr>last_status := 0\<rparr>\<rparr>"
  from run_commands_reply [OF wrapper_lines(1), of "line_device_new uboot"] run_commands_reply [OF wrapper_lines(2), of ?d]
    run_commands_reply [OF wrapper_lines(3), of ?d]
  show ?thesis by (simp add: uboot_runs_the_tether_exec_wrapper_def test_facts)
qed

lemma setenv_lines:
  "shell_on_line uboot (chars ''setenv ipaddr 192.168.1.7'') =
     (uboot\<lparr>last_status := 0, env := bt_insert (chars ''ipaddr'') (chars ''192.168.1.7'') (env uboot)\<rparr>, utf8 [])"
  "shell_on_line (uboot\<lparr>last_status := 0, env := bt_insert (chars ''ipaddr'') (chars ''192.168.1.7'') (env uboot)\<rparr>)
      (chars ''printenv ipaddr'') =
     (uboot\<lparr>last_status := 0, env := bt_insert (chars ''ipaddr'') (chars ''192.168.1.7'') (env uboot)\<rparr>,
      utf8 (chars ''ipaddr=192.168.1.7'' @ [13, 10]))"
  "shell_on_line (uboot\<lparr>last_status := 0, env := bt_insert (chars ''ipaddr'') (chars ''192.168.1.7'') (env uboot)\<rparr>)
      (chars ''setenv ipaddr; printenv ipaddr'') =
     (uboot\<lparr>last_status := 1\<rparr>, utf8 (tx ''## Error: `ipaddr` not defined'' @ [13, 10]))"
  by (simp_all add: shell_facts uboot_def bt_from_def)

lemma setenv_test: "uboot_setenv_printenv_roundtrip"
proof -
  let ?s = "uboot\<lparr>last_status := 0, env := bt_insert (chars ''ipaddr'') (chars ''192.168.1.7'') (env uboot)\<rparr>"
  let ?d = "\<lparr>line = [], last_was_cr = True, handler = ?s\<rparr>"
  from run_commands_reply [OF setenv_lines(1), of "line_device_new uboot"] run_commands_reply [OF setenv_lines(2), of ?d]
    run_commands_reply [OF setenv_lines(3), of ?d]
  show ?thesis by (simp add: uboot_setenv_printenv_roundtrip_def test_facts)
qed

lemma editing_tests: "line_editing_backspace_and_crlf" "ctrl_c_abandons_the_line"
proof -
  have u: "utf8 s = map word_of_nat s" if "list_all (\<lambda>c. c < 128) s" for s
    using that by (induction s) (simp_all add: utf8_char_def)
  note f = feed_str_def line_device_new_def line_handler_echo_def feed_byte_def Let_def u from_utf8_lossy_def test_facts
  show "line_editing_backspace_and_crlf"
    by (simp add: line_editing_backspace_and_crlf_def f matches_count.simps)
  show "ctrl_c_abandons_the_line"
    by (simp add: ctrl_c_abandons_the_line_def f)
qed

end
