(* ===== verification/Codec_Tests.thy ===== *)
theory Codec_Tests
  imports Rfc_Session
begin

text \<open>
  The inline tests of \<open>src/forge/rfc2217.rs\<close> that need no socket: each test is a predicate with
  the test's data and assertions, over the model of the code it calls, and is proved.  A test
  that reads the libc constants takes the table of them as an argument.
\<close>

unbundle bit_operations_syntax

section \<open>Telnet\<close>

definition all_bytes :: bytes where
  "all_bytes = map of_nat [0..<256]"

definition escaping_is_transparent_for_every_byte_value :: bool where
  "escaping_is_transparent_for_every_byte_value \<longleftrightarrow>
     (let wire = escape all_bytes
      in length wire = length all_bytes + 1 \<and> data (snd (decode telnet_new wire)) = all_bytes)"

text \<open>The calls of a test that go to one decoder, byte by byte.\<close>

fun piecemeal :: "telnet \<Rightarrow> bytes \<Rightarrow> telnet \<times> decoded" where
  "piecemeal t [] = (t, no_output)"
| "piecemeal t (b # bs) =
     (case decode t [b] of (t, d) \<Rightarrow> case piecemeal t bs of (t, d') \<Rightarrow>
        (t, \<lparr>data = data d @ data d', reply = reply d @ reply d', notices = notices d @ notices d'\<rparr>))"

definition decoding_survives_a_split_at_every_boundary :: bool where
  "decoding_survives_a_split_at_every_boundary \<longleftrightarrow>
     (let stream = escape [0x00, 0xFF, 0x41] @ [IAC, DO, OPT_COM_PORT] @ escape [0xFF] @
            [IAC, SB, OPT_COM_PORT, SET_BAUDRATE + SERVER_OFFSET] @ [0, 0, 0xE1, 0x00, IAC, SE];
          whole = snd (decode telnet_new stream)
      in whole = snd (piecemeal telnet_new stream) \<and> data whole = [0x00, 0xFF, 0x41, 0xFF] \<and>
         notices whole = [''peer baudrate = 57600''] \<and> reply whole = [])"

definition negotiation_refuses_the_unknown_and_never_acks_an_ack :: bool where
  "negotiation_refuses_the_unknown_and_never_acks_an_ack \<longleftrightarrow>
     (case decode telnet_new [IAC, WILL, 24] of (t, d) \<Rightarrow> reply d = [IAC, DONT, 24] \<and>
     (case decode t [IAC, DO, 24] of (t, d) \<Rightarrow> reply d = [IAC, WONT, 24] \<and>
     (case decode t [IAC, DO, OPT_BINARY] of (t, d) \<Rightarrow> reply d = [] \<and>
     (case decode t [IAC, WILL, OPT_BINARY] of (t, d) \<Rightarrow> reply d = [] \<and> com_port_ok t \<and>
     (case decode t [IAC, DONT, OPT_COM_PORT] of (t, d) \<Rightarrow>
        reply d = [IAC, WONT, OPT_COM_PORT] \<and> \<not> com_port_ok t)))))"

lemma all_bytes_IAC: "count_list all_bytes IAC = 1"
proof -
  have u: "unat (of_nat i :: u8) = i" if "i < 256" for i
    using that by (simp add: unsigned_of_nat take_bit_nat_eq_self)
  have "(of_nat i = (255 :: u8)) = (i = 255)" if "i < 256" for i
    using u [OF that] by (auto dest: arg_cong [where f = unat])
  then have "count_list all_bytes IAC = length (filter (\<lambda>i. i = 255) [0..<256])"
    by (auto simp: all_bytes_def count_list_eq_length_filter filter_map comp_def eq_commute intro!: arg_cong [where f = length] filter_cong)
  also have "[0..<256] = [0..<255] @ [255 :: nat]" using upt_Suc_append [of 0 255] by simp
  also have "length (filter (\<lambda>i. i = 255) \<dots>) = 1" by (simp add: filter_empty_conv)
  finally show ?thesis .
qed

lemma piecemeal_eq: "piecemeal t bs = decode t bs"
  by (induction bs arbitrary: t) (simp_all add: decode_Cons merge_def split: prod.split)

lemma telnet_tests:
  "escaping_is_transparent_for_every_byte_value"
  "decoding_survives_a_split_at_every_boundary"
  "negotiation_refuses_the_unknown_and_never_acks_an_ack"
proof -
  show "escaping_is_transparent_for_every_byte_value"
    using decode_escape [of telnet_new all_bytes] all_bytes_IAC
    by (simp add: escaping_is_transparent_for_every_byte_value_def Let_def length_escape telnet_new_ready)
  have n: "decode t [IAC, c, x] = interp_frame (Negotiation c x) t"
    if "tstate t = Data" "sub t = []" "c = WILL \<or> c = WONT \<or> c = DO \<or> c = DONT" for t c x
    using decode_frame [OF that(1,2), of "Negotiation c x"] that(3) by simp
  show "negotiation_refuses_the_unknown_and_never_acks_an_ack"
  proof -
    have s: "tstate telnet_new = Data" "sub telnet_new = []" by (simp_all add: telnet_new_def)
    have "negotiate telnet_new WILL 24 = (telnet_new, Some DONT)" "negotiate telnet_new DO 24 = (telnet_new, Some WONT)"
      "negotiate telnet_new DO OPT_BINARY = (telnet_new, None)" "negotiate telnet_new WILL OPT_BINARY = (telnet_new, None)"
      "negotiate telnet_new DONT OPT_COM_PORT = (telnet_new\<lparr>com_port := False\<rparr>, Some WONT)" "com_port_ok telnet_new"
      by (simp_all add: negotiate_def known_option_def telnet_new_def slot_us_def slot_them_def set_slot_us_def com_port_ok_def)
    with n [OF s] show ?thesis
      by (simp add: negotiation_refuses_the_unknown_and_never_acks_an_ack_def com_port_ok_def)
  qed
  let ?fs = "[Payload [0x00, 0xFF, 0x41], Negotiation DO OPT_COM_PORT, Payload [0xFF],
    Subnegotiation [OPT_COM_PORT, SET_BAUDRATE + SERVER_OFFSET, 0, 0, 0xE1, 0x00]]"
  let ?stream = "escape [0x00, 0xFF, 0x41] @ [IAC, DO, OPT_COM_PORT] @ escape [0xFF] @
            [IAC, SB, OPT_COM_PORT, SET_BAUDRATE + SERVER_OFFSET] @ [0, 0, 0xE1, 0x00, IAC, SE]"
  have "?stream = concat (map encode_frame ?fs)" by simp
  with decode_frames [of telnet_new ?fs] telnet_new_ready have "decode telnet_new ?stream = interp_frames ?fs telnet_new" by simp
  moreover have "interp_frames ?fs telnet_new =
      (telnet_new, \<lparr>data = [0x00, 0xFF, 0x41, 0xFF], reply = [], notices = [''peer baudrate = 57600'']\<rparr>)"
  proof -
    have "u32_from_be 0 0 0xE1 0 = 57600" by (simp add: u32_from_be_def)
    moreover have "decimal 57600 = ''57600''"
      by (simp add: char_of_def bit_Suc_0_iff decimal.simps [of 57600] decimal.simps [of 5760] decimal.simps [of 576] decimal.simps [of 57] decimal.simps [of 5])
    ultimately have "subnegotiation (telnet_new\<lparr>sub := [OPT_COM_PORT, SET_BAUDRATE + SERVER_OFFSET, 0, 0, 0xE1, 0x00]\<rparr>) =
        Some ''peer baudrate = 57600''"
      by (simp add: subnegotiation_def answer_name_def)
    moreover have "negotiate telnet_new DO OPT_COM_PORT = (telnet_new, None)"
      by (simp add: negotiate_def known_option_def telnet_new_def slot_us_def)
    ultimately show ?thesis by (simp add: no_output_def merge_def)
  qed
  ultimately show "decoding_survives_a_split_at_every_boundary"
    by (simp add: decoding_survives_a_split_at_every_boundary_def piecemeal_eq Let_def del: escape_simps)
qed

section \<open>Line settings\<close>

text \<open>The helpers \<open>raw_termios\<close> and \<open>settings\<close>.\<close>

definition raw_termios :: "libc \<Rightarrow> termios" where
  "raw_termios lc = cfmakeraw lc zeroed"

definition settings :: "u32 \<Rightarrow> port_settings" where
  "settings baud = \<lparr>ps_baud = baud, ps_data_bits = 8, ps_parity = 1, ps_stop_bits = 1, ps_flow = 1\<rparr>"

definition subnegotiation_params_are_escaped :: bool where
  "subnegotiation_params_are_escaped \<longleftrightarrow>
     commands_to ((settings 9600)\<lparr>ps_baud := 0\<rparr>) ((settings 9600)\<lparr>ps_baud := 0x00FF0000\<rparr>) =
       [[IAC, SB, OPT_COM_PORT, SET_BAUDRATE, 0x00, 0xFF, 0xFF, 0x00, 0x00, IAC, SE]]"

definition termios_maps_to_rfc2217_values :: "libc \<Rightarrow> bool" where
  "termios_maps_to_rfc2217_values lc \<longleftrightarrow>
     (let tio = raw_termios lc; base = from_termios lc tio
      in base = UNSET \<and> base = settings 0 \<and>
     (let tio = cfsetospeed lc tio (speed_code lc 9600);
          tio = cfsetispeed lc tio (speed_code lc 9600);
          tio = tio\<lparr>c_cflag := (c_cflag tio AND NOT (CSIZE lc)) OR CS7 lc OR PARENB lc OR PARODD lc OR CSTOPB lc\<rparr>;
          tio = tio\<lparr>c_cflag := c_cflag tio OR CRTSCTS lc\<rparr>;
          s = from_termios lc tio
      in s = \<lparr>ps_baud = 9600, ps_data_bits = 7, ps_parity = 2, ps_stop_bits = 2, ps_flow = 3\<rparr> \<and>
         describe s = ''9600 7O2 rts/cts'' \<and>
     (let tio = tio\<lparr>c_cflag := c_cflag tio AND NOT (PARODD lc OR CRTSCTS lc)\<rparr>;
          tio = tio\<lparr>c_iflag := c_iflag tio OR IXON lc\<rparr>;
          s = from_termios lc tio
      in ps_parity s = 3 \<and> ps_flow s = 2)))"

definition only_changed_fields_are_sent :: bool where
  "only_changed_fields_are_sent \<longleftrightarrow>
     (let a = settings 9600; b = a\<lparr>ps_baud := 115200\<rparr>; cmds = commands_to a b;
          c = b\<lparr>ps_data_bits := 7, ps_parity := 3, ps_stop_bits := 2, ps_flow := 2\<rparr>
      in commands_to a a = [] \<and> length cmds = 1 \<and>
         cmds ! 0 = [IAC, SB, OPT_COM_PORT, SET_BAUDRATE, 0, 1, 0xC2, 0x00, IAC, SE] \<and> length (commands_to b c) = 4)"

fun decoded_quietly :: "telnet \<Rightarrow> bytes list \<Rightarrow> bool" where
  "decoded_quietly t [] = True"
| "decoded_quietly t (c # cs) =
     (case decode t c of (t, d) \<Rightarrow> data d = [] \<and> reply d = [] \<and> decoded_quietly t cs)"

definition emitted_commands_round_trip_through_the_decoder :: bool where
  "emitted_commands_round_trip_through_the_decoder \<longleftrightarrow>
     decoded_quietly telnet_new (commands_to (settings 0)
       \<lparr>ps_baud = 921600, ps_data_bits = 7, ps_parity = 2, ps_stop_bits = 2, ps_flow = 3\<rparr>)"

lemma decoded_quietly_frames:
  "tstate t = Data \<Longrightarrow> sub t = [] \<Longrightarrow> decoded_quietly t (map (\<lambda>b. encode_frame (Subnegotiation b)) bss)"
proof (induction bss arbitrary: t)
  case (Cons b bss)
  have "decode t (encode_frame (Subnegotiation b)) = interp_frame (Subnegotiation b) t"
    by (rule decode_frame [OF Cons.prems]) simp
  with Cons show ?case by (simp split: option.split)
qed simp

lemma decimals: "decimal 9600 = ''9600''" "decimal 7 = ''7''" "decimal 2 = ''2''"
  by (simp_all add: char_of_digit decimal.simps [of 9600] decimal.simps [of 960] decimal.simps [of 96]
    decimal.simps [of 9] decimal.simps [of 7] decimal.simps [of 2])

lemma settings_tests:
  "subnegotiation_params_are_escaped"
  "termios_maps_to_rfc2217_values linux_libc"
  "only_changed_fields_are_sent"
  "emitted_commands_round_trip_through_the_decoder"
proof -
  show "subnegotiation_params_are_escaped"
    by (simp add: subnegotiation_params_are_escaped_def commands_to_def settings_def subneg_def u32_to_be_def)
  show "only_changed_fields_are_sent"
    by (simp add: only_changed_fields_are_sent_def commands_to_def settings_def subneg_def u32_to_be_def)
  have "commands_to (settings 0) \<lparr>ps_baud = 921600, ps_data_bits = 7, ps_parity = 2, ps_stop_bits = 2, ps_flow = 3\<rparr> =
      map (\<lambda>b. encode_frame (Subnegotiation b)) [[44, 1, 0, 14, 16, 0], [44, 2, 7], [44, 3, 2], [44, 4, 2], [44, 5, 3]]"
    by (simp add: commands_to_def settings_def subneg_def u32_to_be_def)
  with decoded_quietly_frames [of telnet_new] telnet_new_ready show "emitted_commands_round_trip_through_the_decoder"
    by (simp only: emitted_commands_round_trip_through_the_decoder_def)
  have b: "baud_of linux_libc 13 = 9600" "baud_of linux_libc 0 = 0"
    by (simp_all add: baud_of_def COMMON_def EXTRA_def linux_libc_def linux_speed_code_def)
  have "linux_speed_code 9600 = 13" by (simp add: linux_speed_code_def)
  with b show "termios_maps_to_rfc2217_values linux_libc"
    by (simp add: termios_maps_to_rfc2217_values_def raw_termios_def zeroed_def from_termios_def linux_libc_def
      UNSET_def settings_def Let_def describe_def decimals)
qed

end
