(* ===== verification/Wire_Tests.thy ===== *)
theory Wire_Tests
  imports Codec_Tests Wire_Args
begin

text \<open>
  The inline tests of \<open>src/forge/wire.rs\<close>: pacing, idle time, latency, corruption, the identity
  wire and the option parsers, with the test's numbers, so the doubles in them are evaluated.  The
  three tests that compare two long noisy runs or count losses over a hundred thousand bytes are
  left out: what they check holds for every seed by theorems of Wire_Laws.
\<close>

declare chars_simps [simp del]

section \<open>Evaluating doubles\<close>

lemma round64_eval:
  assumes "0 < x" "exponent x = e" "- 1022 \<le> e" "\<bar>x / 2 powi (e - 52) - of_int m\<bar> < 1 / 2"
    "of_int m * 2 powi (e - 52) < (2 :: rat) ^ 1024"
  shows "round64 x = Finite (of_int m * 2 powi (e - 52))"
proof -
  have "rne (x / 2 powi (e - 52)) = m"
    using rne_error [of "x / 2 powi (e - 52)"] assms(4) by linarith
  with assms show ?thesis by (simp add: round64_def ulp_def Let_def max_def)
qed

lemma exponent_ge_1: "1 \<le> x \<Longrightarrow> \<lfloor>x\<rfloor> = int n \<Longrightarrow> exponent x = int (floorlog 2 n) - 1"
  by (simp add: exponent_def)

lemma exponent_lt_1: "x < 1 \<Longrightarrow> \<lceil>1 / x\<rceil> = int n \<Longrightarrow> exponent x = - int (floorlog 2 (n - 1))"
  by (simp add: exponent_def nat_diff_distrib')

lemma powi_neg: "(2 :: rat) powi (- 61) = 1 / 2 ^ 61" "(2 :: rat) powi (- 51) = 1 / 2 ^ 51" "(2 :: rat) powi (- 54) = 1 / 2 ^ 54"
  "(2 :: rat) powi (- 52) = 1 / 2 ^ 52" "(2 :: rat) powi (- 56) = 1 / 2 ^ 56"
  by (simp_all add: power_int_def field_simps)

lemma floorlogs: "floorlog 2 399 = 9" "floorlog 2 2 = 2" "floorlog 2 3 = 2"
  by (simp_all add: compute_floorlog)

lemma milli: "round64 (1 / 400) = Finite (5764607523034235 / 2 ^ 61)"
proof -
  have e: "exponent (1 / 400) = - 9" using exponent_lt_1 [of "1 / 400" 400] by (simp add: floorlogs)
  from round64_eval [OF _ e, of 5764607523034235] show ?thesis by (simp add: powi_neg)
qed

lemma milli_again: "round64 (5764607523034235 / 2 ^ 61) = Finite (5764607523034235 / 2 ^ 61)"
proof -
  have "\<lceil>1 / (5764607523034235 / 2 ^ 61) :: rat\<rceil> = int 400" by (simp add: ceiling_eq_iff)
  then have e: "exponent (5764607523034235 / 2 ^ 61) = - 9"
    using exponent_lt_1 [of "5764607523034235 / 2 ^ 61" 400] by (simp add: floorlogs)
  from round64_eval [OF _ e, of 5764607523034235] show ?thesis by (simp add: powi_neg)
qed

lemma two_and_a_half: "round64 (5764607523034235 / 2 ^ 61 * 1000) = Finite (5 / 2)"
proof -
  have "\<lfloor>5764607523034235 / 2 ^ 61 * 1000 :: rat\<rfloor> = int 2" by (simp add: floor_eq_iff)
  then have e: "exponent (5764607523034235 / 2 ^ 61 * 1000) = 1"
    using exponent_ge_1 [of "5764607523034235 / 2 ^ 61 * 1000" 2] by (simp add: floorlogs)
  from round64_eval [OF _ e, of 5629499534213120] show ?thesis by (simp add: powi_neg)
qed

lemma quarter: "round64 (1 / 4) = Finite (1 / 4)"
proof -
  have "exponent (1 / 4) = - 2" using exponent_lt_1 [of "1 / 4" 4] by (simp add: floorlogs)
  from round64_eval [OF _ this, of "2 ^ 52"] show ?thesis by (simp add: powi_neg)
qed

section \<open>A clean paced wire\<close>

lemma plan_chunks_paced:
  "plan_chunks w lat cs = Some (w', cells) \<Longrightarrow> drop_p w = 0 \<Longrightarrow> corrupt_p w = 0 \<Longrightarrow> \<forall>c \<in> set cs. c \<noteq> [] \<and> length c < 2 ^ 32 \<Longrightarrow>
   length cells = length cs \<and> cursor w' = cursor w + line_time w * length (concat cs) \<and>
   (cs \<noteq> [] \<longrightarrow> due (hd cells) = cursor w + line_time w * length (hd cs) + lat \<and> due (last cells) = cursor w' + lat)"
proof (induction cs arbitrary: w cells)
  case (Cons c cs)
  from Cons.prems(1) obtain cur out w1 more where s:
    "line_cursor w (length c) = Some cur" "out = fst (transform_bytes w c (rng w))"
    "w1 = w\<lparr>cursor := cur, rng := snd (transform_bytes w c (rng w))\<rparr>" "plan_chunks w1 lat cs = Some (w', more)"
    "cells = (if out = [] then more else \<lparr>cell_data = out, due = cur + lat\<rparr> # more)" by (rule plan_chunks_ConsE)
  have o: "out = c" "c \<noteq> []" using s(2) Cons.prems(2-4) by (simp_all add: transform_bytes_clean)
  have cur: "cur = cursor w + line_time w * length c"
    using line_cursor_eq [OF _ s(1)] Cons.prems(4) by simp
  have w1: "drop_p w1 = 0" "corrupt_p w1 = 0" "line_time w1 = line_time w" "cursor w1 = cur"
    using s(3) Cons.prems(2,3) by (simp_all add: line_time_def)
  from Cons.IH [OF s(4) w1(1,2)] Cons.prems(4) have ih: "length more = length cs"
    "cursor w' = cur + line_time w * length (concat cs)" "cs \<noteq> [] \<longrightarrow> due (last more) = cursor w' + lat"
    using w1 by auto
  from ih(1) have m: "more = [] \<longleftrightarrow> cs = []" by auto
  have d: "cells = \<lparr>cell_data = c, due = cur + lat\<rparr> # more" using s(5) o by simp
  have c: "cursor w' = cursor w + line_time w * length (concat (c # cs))"
    using ih(2) cur by (simp add: add_mult_distrib2)
  show ?case
  proof (cases "cs = []")
    case True
    with ih m d cur c show ?thesis by simp
  next
    case False
    with ih m d cur c show ?thesis by simp
  qed
qed simp

lemma length_chunks: "0 < n \<Longrightarrow> length xs \<le> n * length (chunks n xs)"
proof (induction n xs rule: chunks.induct)
  case (1 n xs)
  show ?case
  proof (cases "xs = []")
    case False
    with 1 have "length (drop n xs) \<le> n * length (chunks n (drop n xs))" by auto
    with 1 False show ?thesis by (subst chunks.simps) auto
  qed (use 1 in \<open>simp add: chunks.simps\<close>)
qed

text \<open>One call on a wire without jitter or faults.\<close>

lemma plan_paced:
  assumes "plan w now d = Some (w', cells)" "wire_wf w" "byte_time w \<noteq> None" "drop_p w = 0" "corrupt_p w = 0" "jitter w = 0" "d \<noteq> []"
  shows "length cells = length (chunks (cell_bytes w) d)"
    and "cursor w' = max (cursor w) now + line_time w * length d"
    and "due (hd cells) \<ge> max (cursor w) now + latency w" and "due (last cells) = cursor w' + latency w"
proof -
  let ?u = "woken w now"
  have u: "?u = w\<lparr>cursor := max (cursor w) now\<rparr>" by (auto simp: woken_def max_def)
  from assms(1,6) have p: "plan_chunks ?u (latency w) (chunks (cell_bytes w) d) = Some (w', cells)"
    by (auto simp: plan_def Let_def jitter_sample_def u dur_add_def woken_def max_def split: bind_splits if_splits)
  have "c \<noteq> [] \<and> length c < 2 ^ 32" if "c \<in> set (chunks (cell_bytes w) d)" for c
    using chunks_bounds [OF that] assms(2,3) by (auto simp: wire_wf_def)
  with plan_chunks_paced [OF p] assms(4,5)
  have r: "length cells = length (chunks (cell_bytes w) d)"
    "cursor w' = max (cursor w) now + line_time w * length (concat (chunks (cell_bytes w) d))"
    "chunks (cell_bytes w) d \<noteq> [] \<longrightarrow> due (hd cells) = max (cursor w) now + line_time w * length (hd (chunks (cell_bytes w) d)) + latency w \<and>
       due (last cells) = cursor w' + latency w" by (simp_all add: u line_time_def)
  have c: "concat (chunks (cell_bytes w) d) = d" using assms(2) by (simp add: wire_wf_def)
  then have "chunks (cell_bytes w) d \<noteq> []" using assms(7) by (metis concat.simps(1))
  with r c show "length cells = length (chunks (cell_bytes w) d)"
    "cursor w' = max (cursor w) now + line_time w * length d"
    "due (hd cells) \<ge> max (cursor w) now + latency w" "due (last cells) = cursor w' + latency w" by simp_all
qed

lemma byte_time_9600: "from_secs_f64 (div64 10 (of_nat (unat (9600 :: u32)))) = Some 1041667"
proof -
  have u: "unat (9600 :: u32) = 9600" by simp
  have "(9600 :: u32) \<noteq> 0" by simp
  then obtain bt where "from_secs_f64 (div64 10 (of_nat (unat (9600 :: u32)))) = Some bt"
    "\<bar>of_nat bt - 10 ^ 10 / of_nat (unat (9600 :: u32))\<bar> \<le> 1 / 2 + (1 / 10 ^ 5 :: rat)" by (rule byte_time_total)
  note b = this [unfolded u]
  from abs_le_D1 [OF b(2)] abs_le_D2 [OF b(2)] have "rat_of_nat bt < of_nat 1041668" "rat_of_nat 1041666 < of_nat bt"
    by simp_all
  then have "bt = 1041667" unfolding of_nat_less_iff by simp
  with b u show ?thesis by simp
qed

section \<open>The tests\<close>

definition spec_9600 :: wire_spec where
  "spec_9600 = default_spec\<lparr>spec_baud := Some 9600\<rparr>"

definition throttle_schedules_line_rate_exactly :: "instant \<Rightarrow> bool" where
  "throttle_schedules_line_rate_exactly t0 \<longleftrightarrow>
     (case build_pair spec_9600 t0 of None \<Rightarrow> False | Some (w, _) \<Rightarrow>
     (case plan w t0 (replicate 1000 0) of None \<Rightarrow> False | Some (w, cells) \<Rightarrow>
     (case from_secs_f64 (case mul64 1000 10 of Finite x \<Rightarrow> div64 x 9600 | f \<Rightarrow> f) of None \<Rightarrow> False | Some expect \<Rightarrow>
       (let total = due (last cells) - t0
        in max total expect - min total expect < millis 2 \<and> length cells > 100))))"

definition idle_line_banks_no_credit :: "instant \<Rightarrow> bool" where
  "idle_line_banks_no_credit t0 \<longleftrightarrow>
     (case build_pair spec_9600 t0 of None \<Rightarrow> False | Some (w, _) \<Rightarrow>
     (case plan w t0 (replicate 96 0) of None \<Rightarrow> False | Some (w, _) \<Rightarrow>
     (let now = t0 + 10 * 10 ^ 9 in
      case plan w now (replicate 96 0) of None \<Rightarrow> False | Some (w, cells) \<Rightarrow>
       (let total = due (last cells) - now; expect = millis 100
        in total \<ge> expect \<and> total < expect + millis 2))))"

definition latency_shifts_delivery_without_eating_throughput :: "instant \<Rightarrow> bool" where
  "latency_shifts_delivery_without_eating_throughput t0 \<longleftrightarrow>
     (case build_pair (spec_9600\<lparr>spec_latency := Some (millis 50)\<rparr>) t0 of None \<Rightarrow> False | Some (w, _) \<Rightarrow>
     (case plan w t0 (replicate 96 0) of None \<Rightarrow> False | Some (w, cells) \<Rightarrow>
       (let first = due (hd cells) - t0; final = due (last cells) - t0; expect_last = millis 150
        in first \<ge> millis 50 \<and> max final expect_last - min final expect_last < millis 3)))"

lemma wire_9600:
  fixes t0 :: instant
  assumes "spec_baud spec = Some 9600" "spec_jitter spec = None" "spec_drop spec = None" "spec_corrupt spec = None"
  obtains w w' where "build_pair spec t0 = Some (w, w')" "wire_wf w" "byte_time w = Some 1041667" "cell_bytes w = 4"
    "cursor w = t0" "jitter w = 0" "drop_p w = 0" "corrupt_p w = 0"
    "latency w = (case spec_latency spec of None \<Rightarrow> 0 | Some d \<Rightarrow> d)" "line_time w = 1041667"
proof -
  from byte_time_9600 assms(1) have "wire_byte_time spec = Some (Some 1041667)" by (simp add: wire_byte_time_def)
  then obtain w w' where b: "wire_new spec 0 t0 = Some w" "build_pair spec t0 = Some (w, w')"
    by (auto simp: build_pair_def build_pair_nth_def wire_new_def)
  have t: "byte_time w = Some 1041667"
    using wire_newE [OF b(1)] byte_time_9600 assms(1) by (simp add: wire_byte_time_def)
  have u: "unat (9600 :: u32) = 9600" by simp
  show thesis
    by (rule that [OF b(2) wire_wf_new [OF b(1)] t])
      (use b(1) assms t u in \<open>auto simp: wire_cell_bytes_def line_time_def elim!: wire_newE\<close>)
qed

lemma pacing_tests:
  assumes "t0 \<le> 10 ^ 12"
  shows "throttle_schedules_line_rate_exactly t0" "idle_line_banks_no_credit t0"
    "latency_shifts_delivery_without_eating_throughput t0"
proof -
  from wire_9600 [of spec_9600 t0] obtain w w' where w: "build_pair spec_9600 t0 = Some (w, w')" "wire_wf w"
    "byte_time w = Some 1041667" "cell_bytes w = 4" "cursor w = t0" "jitter w = 0" "drop_p w = 0" "corrupt_p w = 0"
    "latency w = 0" "line_time w = 1041667"
    by (auto simp: spec_9600_def default_spec_def)
  have pl: "plan w now (replicate n 0) \<noteq> None" if "now \<le> 10 ^ 13" "n \<le> 1000" for now n
    by (rule plan_total [OF w(2)]) (use that w assms in auto)
  have e: "\<exists>expect. from_secs_f64 (case mul64 1000 10 of Finite x \<Rightarrow> div64 x 9600 | f \<Rightarrow> f) = Some expect \<and>
      1041666000 < expect \<and> expect < 1041667000"
  proof -
    have "mul64 1000 10 = Finite 10000" using round64_integer [of 10000] by (simp add: mul64_def)
    moreover from round64_finite [of "10000 / 9600"] obtain v where
      v: "round64 (10000 / 9600) = Finite v" "0 \<le> v" "\<bar>v - 10000 / 9600\<bar> \<le> 10000 / 9600 / 2 ^ 53 + 1 / 10 ^ 30" by auto
    moreover have "\<bar>v * 10 ^ 9 - of_nat 1041666667\<bar> < 1 / 2"
      using abs_le_D1 [OF v(3)] abs_le_D2 [OF v(3)] by (simp add: abs_less_iff)
    with v(2) have "from_secs_f64 (Finite v) = Some 1041666667" by (intro from_secs_close) simp_all
    ultimately show ?thesis by (simp add: div64_def)
  qed
  show "throttle_schedules_line_rate_exactly t0"
  proof -
    from pl [of t0 1000] assms obtain v cells where p: "plan w t0 (replicate 1000 0) = Some (v, cells)" by force
    note q = plan_paced [OF p w(2) _ w(7,8,6)]
    have "100 < length cells" using q(1) length_chunks [of 4 "replicate 1000 (0 :: u8)"] w(3,4) by simp
    moreover have "due (last cells) = t0 + 1041667000" using q(2,4) w by simp
    ultimately show ?thesis using e p w(1)
      by (auto simp: throttle_schedules_line_rate_exactly_def Let_def millis_def)
  qed
  show "idle_line_banks_no_credit t0"
  proof -
    from pl [of t0 96] assms obtain v cells where p: "plan w t0 (replicate 96 0) = Some (v, cells)" by force
    note q = plan_paced [OF p w(2) _ w(7,8,6)]
    from p w(2) have v: "same_line w v" "wire_wf v" by (auto elim: plan_spec intro: wire_wf_plan)
    let ?now = "t0 + 10 * 10 ^ 9"
    have vv: "byte_time v = Some 1041667" "line_time v = 1041667" "drop_p v = 0" "corrupt_p v = 0" "jitter v = 0" "latency v = 0"
      using v(1) w same_line_keeps(1) [OF v(1)] by (simp_all add: same_line_def)
    have c: "cursor v = t0 + 100000032" using q(2) w by simp
    have "plan v ?now (replicate 96 0) \<noteq> None"
      by (rule plan_total [OF v(2)]) (use vv c v(1) w assms in \<open>auto simp: same_line_def\<close>)
    then obtain v' cells' where p': "plan v ?now (replicate 96 0) = Some (v', cells')" by force
    note q' = plan_paced [OF p' v(2) _ vv(3,4,5)]
    have "due (last cells') = ?now + 100000032" using q'(2,4) vv c by simp
    with p p' w(1) show ?thesis by (simp add: idle_line_banks_no_credit_def Let_def millis_def)
  qed
  show "latency_shifts_delivery_without_eating_throughput t0"
  proof -
    from wire_9600 [of "spec_9600\<lparr>spec_latency := Some (millis 50)\<rparr>" t0] obtain u u' where
      u: "build_pair (spec_9600\<lparr>spec_latency := Some (millis 50)\<rparr>) t0 = Some (u, u')" "wire_wf u"
      "byte_time u = Some 1041667" "cell_bytes u = 4" "cursor u = t0" "jitter u = 0" "drop_p u = 0" "corrupt_p u = 0"
      "latency u = millis 50" "line_time u = 1041667"
      by (auto simp: spec_9600_def default_spec_def)
    have "plan u t0 (replicate 96 0) \<noteq> None"
      by (rule plan_total [OF u(2)]) (use u assms in \<open>auto simp: millis_def\<close>)
    then obtain v cells where p: "plan u t0 (replicate 96 0) = Some (v, cells)" by force
    note q = plan_paced [OF p u(2) _ u(7,8,6)]
    have "due (last cells) = t0 + 150000032" "t0 + 50000000 \<le> due (hd cells)"
      using q(2,3,4) u by (simp_all add: millis_def)
    with p u(1) show ?thesis
      by (simp add: latency_shifts_delivery_without_eating_throughput_def Let_def millis_def)
  qed
qed

definition corrupt_flips_exactly_one_bit :: "instant \<Rightarrow> bool" where
  "corrupt_flips_exactly_one_bit t0 \<longleftrightarrow>
     (case build_pair (default_spec\<lparr>spec_corrupt := Some 1, spec_seed := Some 9\<rparr>) t0 of None \<Rightarrow> False | Some (w, _) \<Rightarrow>
     (let d = all_bytes in
      case plan w t0 d of None \<Rightarrow> False | Some (w, cells) \<Rightarrow>
       (let out = concat (map cell_data cells)
        in length out = length d \<and>
           list_all (\<lambda>(a, b). length (filter (bit (a XOR b)) [0..<8]) = 1) (zip d out))))"

definition identity_wire_is_transparent_and_immediate :: "instant \<Rightarrow> bool" where
  "identity_wire_is_transparent_and_immediate t0 \<longleftrightarrow>
     (case build_pair default_spec t0 of None \<Rightarrow> False | Some (w, _) \<Rightarrow>
     (let d = all_bytes in
      case plan w t0 d of None \<Rightarrow> False | Some (w, cells) \<Rightarrow>
        length cells = 1 \<and> cell_data (cells ! 0) = d \<and> due (cells ! 0) \<le> t0 + millis 1))"

definition duration_and_probability_parsers :: "(f64 \<Rightarrow> rstring) \<Rightarrow> bool" where
  "duration_and_probability_parsers show_f64 \<longleftrightarrow>
     parse_duration (chars ''5ms'') = Some (Inr (millis 5)) \<and> parse_duration (chars ''250us'') = Some (Inr 250000) \<and>
     parse_duration (chars ''1.5s'') = Some (Inr (millis 1500)) \<and> parse_duration (chars ''7'') = Some (Inr (millis 7)) \<and>
     (\<exists>e. parse_duration (chars ''-1ms'') = Some (Inl e)) \<and> (\<exists>e. parse_duration (chars ''fast'') = Some (Inl e)) \<and>
     parse_probability show_f64 (chars ''0.25'') = Inr (1 / 4) \<and>
     isl (parse_probability show_f64 (chars ''1.5'')) \<and> isl (parse_probability show_f64 (chars ''-0.1''))"

lemma one_bit_count:
  assumes "one_bit_off a b"
  shows "length (filter (bit (a XOR b)) [0..<8]) = 1"
proof -
  from assms obtain k where k: "k < 8" "b = a XOR push_bit k 1" by (auto simp: one_bit_off_def)
  have "bit (a XOR b) i \<longleftrightarrow> i = k" if "i < 8" for i
    using that k by (auto simp: bit_simps)
  then have "filter (bit (a XOR b)) [0..<8] = filter (\<lambda>i. i = k) [0..<8]" by (intro filter_cong) auto
  also have "length \<dots> = card ({i. i = k} \<inter> set [0..<8])" by (rule distinct_length_filter) simp
  also have "{i. i = k} \<inter> set [0..<8] = {k}" using k(1) by auto
  finally show ?thesis by simp
qed

lemma two_five_six: "length all_bytes = 256" "all_bytes \<noteq> []"
  by (simp_all add: all_bytes_def del: upt.simps)

lemma fault_tests:
  assumes "t0 \<le> 10 ^ 12"
  shows "corrupt_flips_exactly_one_bit t0" "identity_wire_is_transparent_and_immediate t0"
proof -
  let ?d = all_bytes
  let ?spec = "default_spec\<lparr>spec_corrupt := Some 1, spec_seed := Some 9\<rparr>"
  show "corrupt_flips_exactly_one_bit t0"
  proof -
    obtain w w' where b: "wire_new ?spec 0 t0 = Some w" "build_pair ?spec t0 = Some (w, w')"
      by (auto simp: build_pair_def build_pair_nth_def wire_new_def wire_byte_time_def default_spec_def)
    then have w: "byte_time w = None" "cursor w = t0" "jitter w = 0" "latency w = 0" "drop_p w = 0" "corrupt_p w = 1"
      by (auto simp: wire_byte_time_def default_spec_def elim!: wire_newE)
    note wf = wire_wf_new [OF b(1)]
    have "plan w t0 ?d \<noteq> None"
      by (rule plan_total [OF wf]) (use w assms in \<open>auto simp: line_time_def\<close>)
    then obtain v cells where p: "plan w t0 ?d = Some (v, cells)" by force
    obtain r where r: "concat (map cell_data cells) = fst (transform_bytes w ?d r)" by (rule plan_spec [OF p wf])
    have o: "list_all2 one_bit_off ?d (concat (map cell_data cells))"
      unfolding r by (rule transform_bytes_all_corrupt) (simp_all add: w)
    then have "list_all (\<lambda>(a, b). length (filter (bit (a XOR b)) [0..<8]) = 1) (zip ?d (concat (map cell_data cells)))"
      using one_bit_count by (auto simp: list_all2_iff list_all_iff simp del: upt.simps)
    with b(2) p list_all2_lengthD [OF o] show ?thesis
      by (simp add: corrupt_flips_exactly_one_bit_def Let_def del: upt.simps)
  qed
  show "identity_wire_is_transparent_and_immediate t0"
  proof -
    obtain w w' where b: "wire_new default_spec 0 t0 = Some w" "build_pair default_spec t0 = Some (w, w')"
      by (auto simp: build_pair_def build_pair_nth_def wire_new_def wire_byte_time_def default_spec_def)
    have "t0 < INSTANT_LIMIT" using assms by simp
    from plan_identity [OF b(1) order_refl this two_five_six(2)] two_five_six(1) b(2) show ?thesis
      by (simp add: identity_wire_is_transparent_and_immediate_def Let_def del: upt.simps)
  qed
qed


lemma three_halves: "round64 (3 / 2) = Finite (3 / 2)"
proof -
  have "\<lfloor>3 / 2 :: rat\<rfloor> = int 1" by (simp add: floor_eq_iff)
  then have "exponent (3 / 2) = 0" using exponent_ge_1 [of "3 / 2" 1] by (simp add: compute_floorlog)
  from round64_eval [OF _ this, of "3 * 2 ^ 51"] show ?thesis by (simp add: powi_neg)
qed

lemma parse_test_words:
  "parse_f64 (chars ''0.25'') = Some (Finite (1 / 4))" "parse_f64 (chars ''1.5'') = Some (Finite (3 / 2))"
  "\<exists>v. parse_f64 (chars ''-0.1'') = Some (Finite v) \<and> v < 0" "\<exists>v. parse_f64 (chars ''-1'') = Some (Finite v) \<and> v < 0"
  "parse_f64 (chars ''fast'') = None" "parse_f64 (chars ''fa'') = None"
proof -
  note f = parse_f64_def split_sign_def read_number_def read_exponent_def is_ascii_digit_def digits_nat_def to_ascii_lower_def chars_simps Let_def
  show "parse_f64 (chars ''0.25'') = Some (Finite (1 / 4))" using quarter by (simp add: f power_int_def power2_eq_square)
  from three_halves show "parse_f64 (chars ''1.5'') = Some (Finite (3 / 2))" by (simp add: f power_int_def)
  have neg: "\<exists>v. round64 (- x) = Finite v \<and> v < 0" if "round64 x = Finite u" "0 < u" "0 < x" for x u :: rat
    using that by (auto simp: round64_def Let_def sgn_if split: if_splits)
  have "exponent (1 / 10) = - 4" using exponent_lt_1 [of "1 / 10" 10] by (simp add: compute_floorlog)
  from round64_eval [OF _ this, of "7205759403792794"] have "round64 (1 / 10) = Finite (7205759403792794 / 2 ^ 56)"
    by (simp add: powi_neg)
  from neg [OF this] show "\<exists>v. parse_f64 (chars ''-0.1'') = Some (Finite v) \<and> v < 0" by (simp add: f power_int_def)
  from neg [of 1 1] round64_integer [of 1] show "\<exists>v. parse_f64 (chars ''-1'') = Some (Finite v) \<and> v < 0" by (simp add: f power_int_def)
  show "parse_f64 (chars ''fast'') = None" "parse_f64 (chars ''fa'') = None" by (simp_all add: f)
qed


lemma duration_test_strings:
  "chars ''5ms'' = chars (decimal 5) @ chars ''ms''" "chars ''250us'' = chars (decimal 250) @ chars ''us''" "chars ''7'' = chars (decimal 7)"
proof -
  have d: "decimal 5 = ''5''" "decimal 7 = ''7''" "decimal 250 = ''250''"
    by (simp_all add: char_of_digit decimal.simps [of 5] decimal.simps [of 7] decimal.simps [of 250] decimal.simps [of 25] decimal.simps [of 2])
  show "chars ''5ms'' = chars (decimal 5) @ chars ''ms''" "chars ''250us'' = chars (decimal 250) @ chars ''us''" "chars ''7'' = chars (decimal 7)"
    by (simp_all add: d chars_simps)
qed

lemma parser_tests: "duration_and_probability_parsers show_f64"
proof -
  have t: "trim (chars ''1.5'') = chars ''1.5''" "trim (chars ''-1'') = chars ''-1''" "trim (chars ''fast'') = chars ''fast''"
    by (simp_all add: trim_def trim_start_def trim_end_def is_whitespace_def chars_simps)
  have u: "duration_unit (chars ''1.5s'') = (chars ''1.5'', literal 1)" "duration_unit (chars ''-1ms'') = (chars ''-1'', literal (1 / 1000))"
    "duration_unit (chars ''fast'') = (chars ''fast'', literal (1 / 1000))"
    by (simp_all add: duration_unit_def strip_suffix_def chars_simps)
  have l: "literal 1 = 1" using round64_integer [of 1] by (simp add: literal_def)
  have "from_secs_f64 (mul64 (3 / 2) 1) = Some 1500000000"
    using from_secs_close [of "3 / 2" 1500000000] three_halves by (simp add: mul64_def)
  then have f: "parse_duration (chars ''1.5s'') = Some (Inr 1500000000)"
    using parse_test_words(2) by (auto simp: parse_duration_def u t l)
  have e: "\<exists>e. parse_duration (chars ''-1ms'') = Some (Inl e)" "\<exists>e. parse_duration (chars ''fast'') = Some (Inl e)"
    using parse_test_words(4,5) by (auto simp: parse_duration_def u t)
  have p: "parse_probability show_f64 (chars ''0.25'') = Inr (1 / 4)" "isl (parse_probability show_f64 (chars ''1.5''))"
    "isl (parse_probability show_f64 (chars ''-0.1''))"
    using parse_test_words(1-3) by (auto simp: parse_probability_def)
  show ?thesis
    using f e p durations_are_exact [of 5] durations_are_exact [of 250] durations_are_exact [of 7]
    by (simp add: duration_and_probability_parsers_def duration_test_strings millis_def)
qed

end
