(* ===== verification/Port_Tests.thy ===== *)
theory Port_Tests
  imports Wire_Tests Null_Modem Link Bridge Status "HOL-Library.Sublist"
begin

text \<open>
  The inline tests of \<open>src/forge/bridge.rs\<close>, \<open>status.rs\<close>, \<open>serial.rs\<close>, \<open>pty.rs\<close> and
  \<open>pair.rs\<close>.  A port under test is one that \<open>create\<close> yields on a terminal whose driver
  treats requests the way the argument \<open>drv\<close> does.
\<close>

declare chars_simps [simp del]

section \<open>Endpoints and backoff\<close>

definition endpoint_parses_both_schemes :: bool where
  "endpoint_parses_both_schemes \<longleftrightarrow>
     endpoint_parse (chars ''tcp://lab-host:5557'') = Inr (Dial (chars ''lab-host:5557'')) \<and>
     endpoint_parse (chars ''listen://:7000'') = Inr (Accept (chars ''0.0.0.0:7000'')) \<and>
     endpoint_parse (chars ''listen://127.0.0.1:7000'') = Inr (Accept (chars ''127.0.0.1:7000'')) \<and>
     endpoint_parse (chars ''tcp://[::1]:23'') = Inr (Dial (chars ''[::1]:23''))"

definition endpoint_rejects_the_typos_that_would_silently_misbehave :: bool where
  "endpoint_rejects_the_typos_that_would_silently_misbehave \<longleftrightarrow>
     list_all (\<lambda>bad. isl (endpoint_parse (chars bad)))
       [''lab-host:5557'', ''serial://lab:5557'', ''tcp://lab-host'', ''tcp://lab-host:'', ''tcp://lab-host:0'',
        ''tcp://lab-host:99999'', ''tcp://:5557'', ''tcp://lab-host:5557/x''] \<and>
     \<not> isl (endpoint_parse (chars ''listen://:5557''))"

definition backoff_climbs_then_caps :: bool where
  "backoff_climbs_then_caps \<longleftrightarrow>
     backoff 0 = millis 250 \<and> backoff 1 = millis 500 \<and> backoff 4 = 4 * 10 ^ 9 \<and> backoff 5 = 5 * 10 ^ 9 \<and>
     backoff (2 ^ 32 - 1) = 5 * 10 ^ 9"

lemma decimal_7000: "decimal 7000 = ''7000''"
  by (simp add: char_of_digit decimal.simps [of 7000] decimal.simps [of 700] decimal.simps [of 70] decimal.simps [of 7])

lemma endpoint_tests:
  "endpoint_parses_both_schemes" "endpoint_rejects_the_typos_that_would_silently_misbehave" "backoff_climbs_then_caps"
proof -
  note e = endpoint_parse_def split_host_port_def chars_simps rsplit_once_def parse_unsigned_def is_ascii_digit_def and_then_def
  show "endpoint_parses_both_schemes" by (simp add: endpoint_parses_both_schemes_def e decimal_7000)
  show "endpoint_rejects_the_typos_that_would_silently_misbehave"
    by (simp add: endpoint_rejects_the_typos_that_would_silently_misbehave_def e)
  show "backoff_climbs_then_caps" by (simp add: backoff_climbs_then_caps_def backoff_def millis_def)
qed

section \<open>Status\<close>

definition plain_forge_reports_ports_and_an_empty_wire :: "nat \<Rightarrow> bool" where
  "plain_forge_reports_ports_and_an_empty_wire own \<longleftrightarrow>
     (let v = object own (chars ''pair'') [chars ''/tmp/a.pty'', chars ''/tmp/b.pty''] JNull default_spec
      in member (chars ''forge'') v = Some (JString (chars ''pair'')) \<and>
         member (chars ''ports'') v = Some (JArray [JString (chars ''/tmp/a.pty''), JString (chars ''/tmp/b.pty'')]) \<and>
         member (chars ''wire'') v = Some (JObject []) \<and>
         (case member (chars ''pid'') v of Some (JNat n) \<Rightarrow> n > 0 | _ \<Rightarrow> False))"

definition details_land_at_the_top_level_and_the_seed_is_reported :: "nat \<Rightarrow> bool" where
  "details_land_at_the_top_level_and_the_seed_is_reported own \<longleftrightarrow>
     (let wire = default_spec\<lparr>spec_baud := Some 9600, spec_latency := Some 2500000, spec_drop := Some (literal (1 / 100)),
            spec_seed := Some 42\<rparr>;
          v = object own (chars ''bridge'') [chars ''/tmp/b.pty'']
            (JObject [(chars ''endpoint'', JString (chars ''tcp://lab:2000'')), (chars ''rfc2217'', JBool True)]) wire;
          w = (case member (chars ''wire'') v of Some w \<Rightarrow> w | None \<Rightarrow> JNull)
      in member (chars ''endpoint'') v = Some (JString (chars ''tcp://lab:2000'')) \<and>
         member (chars ''rfc2217'') v = Some (JBool True) \<and>
         member (chars ''baud_sim'') w = Some (JNat 9600) \<and>
         member (chars ''latency_ms'') w = Some (JFloat (Finite (5 / 2))) \<and>
         member (chars ''drop'') w = Some (JFloat (Finite (literal (1 / 100)))) \<and>
         member (chars ''seed'') w = Some (JNat 42) \<and> member (chars ''jitter_ms'') w = None)"

lemma millis_of: "to_millis 2500000 = Finite (5 / 2)"
proof -
  have "as_secs_f64 2500000 = Finite (5764607523034235 / 2 ^ 61)"
    using milli milli_again by (simp add: as_secs_f64_def div64_def add64_def round64_def [of 0])
  then show ?thesis using two_and_a_half by (simp add: to_millis_def mul64_def)
qed

lemma status_tests:
  "0 < own \<Longrightarrow> plain_forge_reports_ports_and_an_empty_wire own"
  "details_land_at_the_top_level_and_the_seed_is_reported own"
  by (simp_all add: plain_forge_reports_ports_and_an_empty_wire_def details_land_at_the_top_level_and_the_seed_is_reported_def
      object_def member_def wire_value_def insert_some_def default_spec_def chars_simps millis_of)

section \<open>The serial port\<close>

definition baud_and_speed_round_trip :: "libc \<Rightarrow> bool" where
  "baud_and_speed_round_trip lc \<longleftrightarrow>
     list_all (\<lambda>baud. case speed_of lc baud of None \<Rightarrow> False | Some code \<Rightarrow> baud_of lc code = baud)
       [0, 300, 9600, 19200, 115200, 230400] \<and>
     map_option (baud_of lc) (speed_of lc 115200) = Some 115200"

text \<open>\<open>tcgetattr\<close> fails on what is no terminal; a missing device is not opened at all.\<close>

definition opening_a_non_tty_is_a_setup_error :: "libc \<Rightarrow> tty \<Rightarrow> bool" where
  "opening_a_non_tty_is_a_setup_error lc null \<longleftrightarrow>
     (case serial_open lc (chars ''/dev/null'') 115200 (IoOk null) True of
        Inr _ \<Rightarrow> False
      | Inl err \<Rightarrow> list_ex (\<lambda>l. case l of Msg m \<Rightarrow> sublist (chars ''not a tty'') m | _ \<Rightarrow> False) err \<and> is_setup err)"

definition opening_a_missing_device_is_a_setup_error :: "libc \<Rightarrow> io_error \<Rightarrow> bool" where
  "opening_a_missing_device_is_a_setup_error lc e \<longleftrightarrow>
     (case serial_open lc (chars ''/dev/definitely-not-here'') 115200 (IoErr e) True of
        Inr _ \<Rightarrow> False | Inl err \<Rightarrow> is_setup err)"

lemma serial_tests:
  "baud_and_speed_round_trip linux_libc"
  "get_err null \<noteq> None \<Longrightarrow> opening_a_non_tty_is_a_setup_error linux_libc null"
  "opening_a_missing_device_is_a_setup_error linux_libc e"
proof -
  have r: "0 \<in> rates linux_libc" "300 \<in> rates linux_libc" "9600 \<in> rates linux_libc" "19200 \<in> rates linux_libc"
    "115200 \<in> rates linux_libc" "230400 \<in> rates linux_libc" by (simp_all add: linux_rates)
  note s = r [THEN speed_of_listed] and b = r [THEN baud_of_code [OF linux_codes_ok]]
  show "baud_and_speed_round_trip linux_libc" by (simp add: baud_and_speed_round_trip_def s b)
  show "opening_a_non_tty_is_a_setup_error linux_libc null" if "get_err null \<noteq> None"
    using that by (auto simp: opening_a_non_tty_is_a_setup_error_def serial_open_def s configure_def tcgetattr_def
        chars_simps sublist_Cons_right)
  show "opening_a_missing_device_is_a_setup_error linux_libc e"
    by (simp add: opening_a_missing_device_is_a_setup_error_def serial_open_def s chars_simps)
qed

section \<open>The virtual port\<close>

text \<open>A port as \<open>create\<close> makes it, on a terminal whose driver treats requests as \<open>drv\<close> does.\<close>

definition created :: "libc \<Rightarrow> (termios \<Rightarrow> termios) \<Rightarrow> virtual_port" where
  "created lc drv =
     \<lparr>master_fd = 3, slave_fd = 4,
      slave_tty = \<lparr>attrs = drv (create_termios lc), get_err = None, set_err = None, driver = drv\<rparr>\<rparr>"

definition slave_termios_is_fully_raw :: "libc \<Rightarrow> flags \<Rightarrow> virtual_port \<Rightarrow> bool" where
  "slave_termios_is_fully_raw lc inlcr port \<longleftrightarrow>
     (case tcgetattr (slave_tty port) of
        Inl _ \<Rightarrow> False
      | Inr tio \<Rightarrow>
          c_lflag tio AND ICANON lc = 0 \<and> c_lflag tio AND ECHO lc = 0 \<and> c_iflag tio AND IXON lc = 0 \<and>
          c_iflag tio AND ICRNL lc = 0 \<and> c_iflag tio AND inlcr = 0 \<and> c_oflag tio AND OPOST lc = 0 \<and>
          c_oflag tio AND ONLCR lc = 0)"

definition reassert_raw_restores_cooked_slave :: "libc \<Rightarrow> virtual_port \<Rightarrow> bool" where
  "reassert_raw_restores_cooked_slave lc port \<longleftrightarrow>
     (case tcgetattr (slave_tty port) of
        Inl _ \<Rightarrow> False
      | Inr tio \<Rightarrow>
     (case tcsetattr (slave_tty port) (tio\<lparr>c_lflag := c_lflag tio OR (ICANON lc OR ECHO lc)\<rparr>) of
        Inl _ \<Rightarrow> False
      | Inr d \<Rightarrow>
     (case reassert_raw_if_needed lc (port\<lparr>slave_tty := d\<rparr>) of
        (acted, port) \<Rightarrow> acted \<and> \<not> fst (reassert_raw_if_needed lc port))))"

text \<open>\<open>CS8\<close> is passed in: the code itself never names it.\<close>

definition reassert_line_discipline_keeps_line_params :: "libc \<Rightarrow> flags \<Rightarrow> virtual_port \<Rightarrow> bool" where
  "reassert_line_discipline_keeps_line_params lc cs8 port \<longleftrightarrow>
     (case tcgetattr (slave_tty port) of
        Inl _ \<Rightarrow> False
      | Inr tio \<Rightarrow>
     (let tio = cfsetispeed lc tio (speed_code lc 9600);
          tio = cfsetospeed lc tio (speed_code lc 9600);
          tio = tio\<lparr>c_cflag := (c_cflag tio AND NOT (CSIZE lc)) OR CS7 lc OR PARENB lc OR PARODD lc OR CSTOPB lc\<rparr>;
          tio = tio\<lparr>c_lflag := c_lflag tio OR (ICANON lc OR ECHO lc)\<rparr> in
      case tcsetattr (slave_tty port) tio of
        Inl _ \<Rightarrow> False
      | Inr d \<Rightarrow>
     (case port_termios (port\<lparr>slave_tty := d\<rparr>) of None \<Rightarrow> False | Some before \<Rightarrow>
        c_lflag before AND (ICANON lc OR ECHO lc) \<noteq> 0 \<and>
     (case reassert_line_discipline_if_needed lc (port\<lparr>slave_tty := d\<rparr>) of (acted, port) \<Rightarrow> acted \<and>
     (case port_termios port of None \<Rightarrow> False | Some after \<Rightarrow>
        c_lflag after AND (ICANON lc OR ECHO lc) = 0 \<and> c_cflag after = c_cflag before \<and>
        cfgetospeed lc after = cfgetospeed lc before \<and>
     (case tcsetattr (slave_tty port) tio of
        Inl _ \<Rightarrow> False
      | Inr d \<Rightarrow>
     (case reassert_raw_if_needed lc (port\<lparr>slave_tty := d\<rparr>) of (acted, port) \<Rightarrow> acted \<and>
     (case port_termios port of None \<Rightarrow> False | Some after \<Rightarrow> c_cflag after AND CSIZE lc = cs8))))))))"

definition sidecar_staleness_decisions :: bool where
  "sidecar_staleness_decisions \<longleftrightarrow>
     (let alive = (\<lambda>_. True); dead = (\<lambda>_. False)
      in pid_sidecar_is_stale None dead = None \<and> pid_sidecar_is_stale (Some (chars ''junk'')) dead = None \<and>
         pid_sidecar_is_stale (Some (chars ''123'' @ [10])) alive = Some False \<and>
         pid_sidecar_is_stale (Some (chars '' 123 '')) dead = Some True)"

text \<open>A fresh path in a directory of its own.\<close>

definition link_claim_writes_sidecar_and_drop_cleans_up :: "procs \<Rightarrow> rstring \<Rightarrow> fs \<Rightarrow> bool" where
  "link_claim_writes_sidecar_and_drop_cleans_up os path fs \<longleftrightarrow>
     (case claim os (Some path) (chars ''x'') (chars ''/dev/null'') fs of
        Some (Inr link, fs) \<Rightarrow>
          link = path \<and> entries fs path \<noteq> None \<and>
          (case read_to_string (sidecar path) fs of
             None \<Rightarrow> False
           | Some c \<Rightarrow> parse_i32 (trim c) = Some (int (self_pid os))) \<and>
          (case claim os (Some path) (chars ''x'') (chars ''/dev/null'') fs of
             Some (Inl _, fs) \<Rightarrow>
               (let fs = link_drop link fs in entries fs path = None \<and> entries fs (sidecar path) = None)
           | _ \<Rightarrow> False)
      | _ \<Rightarrow> False)"

lemma link_test:
  assumes "fs_ok fs" "entries fs path = None" "create_err fs path = None" "regular_at fs path"
    and "write_err fs (sidecar path) = None" "removable fs path" "removable fs (sidecar path)"
    and "self_pid os < 2 ^ 31" "process_alive os (int (self_pid os))"
  shows "link_claim_writes_sidecar_and_drop_cleans_up os path fs"
proof -
  let ?n = "chars ''/dev/null''" and ?pid = "chars (decimal (self_pid os))"
  let ?fs = "fs\<lparr>entries := (entries fs)(path \<mapsto> Symlink ?n)\<rparr>"
  let ?fs1 = "fs\<lparr>entries := (entries fs)(path \<mapsto> Symlink ?n, sidecar path \<mapsto> File ?pid)\<rparr>"
  have t: "try_claim_link os path ?n fs = Some (Inr True, ?fs)" by (rule try_claim_free(1) [OF assms(2,1,3)])
  have "write_file (sidecar path) ?pid ?fs = (IoOk (), ?fs1)" using assms(4,5) by (simp add: write_sidecar)
  with t have c: "claim os (Some path) (chars ''x'') ?n fs = Some (Inr path, ?fs1)" by (simp add: claim_def claim_path_def)
  have side: "entries ?fs1 (sidecar path) = Some (File ?pid)" by simp
  from own_sidecar_live [OF side assms(8,9)] try_claim_busy [of ?fs1 path os ?n]
  have "try_claim_link os path ?n ?fs1 = Some (Inr False, ?fs1)" by simp
  then have b: "\<exists>e. claim os (Some path) (chars ''x'') ?n ?fs1 = Some (Inl e, ?fs1)" by (simp add: claim_def claim_path_def)
  have r: "read_to_string (sidecar path) ?fs1 = Some ?pid" by (simp add: read_sidecar regular_at_def)
  have p: "parse_i32 (trim ?pid) = Some (int (self_pid os))" using assms(8) by (simp add: no_space_in_decimal parse_i32_decimal)
  from b obtain e where b: "claim os (Some path) (chars ''x'') ?n ?fs1 = Some (Inl e, ?fs1)" by blast
  show ?thesis
    unfolding link_claim_writes_sidecar_and_drop_cleans_up_def
    by (simp add: c b r p assms(6,7) link_drop_def)
qed

text \<open>A Linux pty normalises the character size back to CS8.\<close>

definition linux_pty :: "termios \<Rightarrow> termios" where
  "linux_pty t = t\<lparr>c_cflag := (c_cflag t AND NOT 48) OR 48\<rparr>"

lemma pty_tests:
  "slave_termios_is_fully_raw linux_libc 64 (created linux_libc linux_pty)"
  "reassert_raw_restores_cooked_slave linux_libc (created linux_libc linux_pty)"
  "reassert_line_discipline_keeps_line_params linux_libc 48 (created linux_libc linux_pty)"
  "sidecar_staleness_decisions"
proof -
  note d = created_def create_termios_def zeroed_def tcgetattr_def tcsetattr_def linux_pty_def
  show "slave_termios_is_fully_raw linux_libc 64 (created linux_libc linux_pty)"
    by (simp add: slave_termios_is_fully_raw_def d linux_libc_def)
  show "reassert_raw_restores_cooked_slave linux_libc (created linux_libc linux_pty)"
    by (simp add: reassert_raw_restores_cooked_slave_def d reassert_raw_if_needed_def reassert_def cooked_def
        reassert_request_def Let_def linux_libc_def)
  have "linux_speed_code 9600 = 13" by (simp add: linux_speed_code_def)
  then show "reassert_line_discipline_keeps_line_params linux_libc 48 (created linux_libc linux_pty)"
    by (simp add: reassert_line_discipline_keeps_line_params_def d reassert_raw_if_needed_def
        reassert_line_discipline_if_needed_def reassert_def cooked_def port_termios_def
        reassert_request_def Let_def linux_libc_def)
  show "sidecar_staleness_decisions"
    by (simp add: sidecar_staleness_decisions_def pid_sidecar_is_stale_def parse_i32_def parse_unsigned_def trim_def trim_start_def trim_end_def
        is_whitespace_def is_ascii_digit_def chars_simps Let_def)
qed

section \<open>The pair\<close>

definition payload_1024 :: bytes where
  "payload_1024 = concat (replicate 4 all_bytes)"

text \<open>In each direction the reader gets the payload in one read, and the writer takes it in one write.\<close>

definition all_256_byte_values_roundtrip_both_ways :: "libc \<Rightarrow> virtual_port \<Rightarrow> virtual_port \<Rightarrow> instant \<Rightarrow> bool" where
  "all_256_byte_values_roundtrip_both_ways lc a b t0 \<longleftrightarrow>
     (case build_pair default_spec t0 of None \<Rightarrow> False | Some wires \<Rightarrow>
     (case modem_run lc wires a b
        [(t0, FromA (Got (IoOk payload_1024))), (t0, FromA Timer), (t0, FromA (Took (length payload_1024))),
         (t0, FromB (Got (IoOk payload_1024))), (t0, FromB Timer), (t0, FromB (Took (length payload_1024)))] of
        None \<Rightarrow> False | Some (m, outs) \<Rightarrow> into_b outs = payload_1024 \<and> into_a outs = payload_1024))"

lemma payload_length: "length payload_1024 = 1024"
  by (simp add: payload_1024_def length_concat sum_list_replicate two_five_six)

lemma pair_test:
  assumes "t0 \<le> 10 ^ 12"
  shows "all_256_byte_values_roundtrip_both_ways lc a b t0"
proof -
  obtain w w' where b: "build_pair default_spec t0 = Some (w, w')" "wire_new default_spec 0 t0 = Some w"
    "wire_new default_spec 1 t0 = Some w'"
    by (auto simp: build_pair_def build_pair_nth_def wire_new_def wire_byte_time_def default_spec_def)
  have t: "t0 < INSTANT_LIMIT" "payload_1024 \<noteq> []" "length payload_1024 < 2 ^ 63"
    using assms payload_length by auto
  note p = plan_identity [OF b(2) order_refl t] plan_identity [OF b(3) order_refl t]
  show ?thesis
    by (simp add: all_256_byte_values_roundtrip_both_ways_def b(1) modem_run_def modem_start_def modem_step_def
      task_step_def p pump_def next_cell_def write_rest_def cell_written_def payload_length t(2))
qed

end
