(* ===== verification/Unit_Tests.thy ===== *)
theory Unit_Tests
  imports Shell_Tests Port_Tests
begin

text \<open>
  The inline tests of the program, all of them together, on the model: the theories Codec_Tests,
  Shell_Tests, Wire_Tests and Port_Tests state them and prove them one by one.
\<close>

section \<open>Property\<close>


end
