(* ===== verification/Spec2Isabelle.thy ===== *)
theory Spec2Isabelle
  imports Exit_Codes Mux_Isolation Rfc_Progress Unit_Tests
begin

text \<open>
  A verification library for ttyforge, a program that forges virtual serial ports: linked pairs,
  simulated devices, network bridges and multiplexers.  The source is the Rust crate under
  \<open>src/src\<close>; file names below are relative to it.

  \<^bold>\<open>The program and its parts.\<close>  Every forge creates pseudo terminals (\<open>forge/pty.rs\<close>), publishes
  each under a claimed symbolic link, announces readiness on standard output (\<open>forge/status.rs\<close>) and
  then moves bytes between the ports, a device and a peer in asynchronous tasks, each direction
  through a \<^emph>\<open>wire\<close> (\<open>forge/wire.rs\<close>) that paces, delays, drops and corrupts.  The tasks are those
  of \<open>pair\<close>, \<open>sim\<close>, \<open>bridge\<close> (raw or RFC 2217, \<open>forge/rfc2217.rs\<close>) and \<open>mux\<close>; \<open>main.rs\<close> dispatches
  and maps errors to exit codes.

  \<^bold>\<open>How it is modelled.\<close>  Pure code is translated function by function.  What the kernel, the
  runtime or another crate answers is an argument: outcomes of system calls, the times of
  events, the libc functions on termios (record \<open>libc\<close>), the JSON writer, the broadcast channel
  (locale \<open>broadcast\<close>).  \<open>None\<close> is a panic in pure code and, in the loops of \<open>pty.rs\<close>, not returning.
  Asynchronous code is a machine that moves from one await point to the next: \<open>step s (now, e)\<close> is
  the code between the await that event \<open>e\<close> ends and the next await, \<open>None\<close> if \<open>e\<close> cannot happen
  there; \<open>run_events\<close> folds it over any sequence of events, so a statement about all runs covers
  every interleaving, every split of reads and writes, and every error the kernel may report.

  \<^bold>\<open>The theories.\<close>
  \<^item> Prelude: machine integers, I/O results, the locale \<open>chunked\<close> of machines whose input may be cut
    anywhere.  Text, Utf8: the part of Rust's \<open>str\<close> the code uses.  Failure: errors as the layers of
    an \<open>anyhow\<close> chain.  Ordered_Map: \<open>BTreeMap\<close> behind a locale.
  \<^item> Binary64: \<open>f64\<close> arithmetic with its rounding, \<open>Duration\<close> and \<open>Instant\<close>.  Rng: the generator of
    \<open>wire.rs\<close>.  Wire, Wire_Laws: \<open>WireSpec\<close>, \<open>Wire::new\<close>, \<open>Wire::plan\<close>; the relation \<open>noise\<close> between what
    enters and what may leave a wire, the schedule, the line rate, panic freedom.
    Wire_Args: the option parsers and \<open>to_spec\<close>.
  \<^item> Telnet: decoder, negotiation and framing of \<open>rfc2217.rs\<close>; framing and decoding are inverse for
    any peer, and reads may be cut anywhere.  Settings: \<open>PortSettings\<close>, refined to a model of the server.
    Serial: baud tables and \<open>SerialPort::open\<close> of \<open>forge/serial.rs\<close>.
  \<^item> Pty: \<open>VirtualPort\<close>, its read and write loops and the termios watchdog.  Link: claiming, reclaiming
    and dropping links over an explicit file system and process table.  Claim_Laws: what a claim can
    have added, and how it can fail to clean up or be led astray by a planted symlink.  Claim_Race:
    claims as single system calls of any number of processes: one owner, unless the link is stale.
  \<^item> Line_Device, Shell: the presets of \<open>forge/sim.rs\<close> as pure devices, the line discipline refined to
    line editing, the words and builtins of the two shells.  Sim: the preset and exec loops.
  \<^item> Tasks: the forwarding loop of \<open>wire.rs\<close> (\<open>pump\<close>, \<open>deliver\<close>, \<open>deliver_to\<close>) as one machine with rules
    for its reactions, and the locale \<open>traced\<close>: an invariant over a machine's history of events and
    outputs.  The same machine with other rules is the raw session of \<open>forge/bridge.rs\<close>, the exec
    bridge of \<open>sim.rs\<close> and the consumers of \<open>forge/mux.rs\<close>.  Task_Laws: the write loop of \<open>pty.rs\<close>
    refines the machine's writing state, and what a loop holds it can always deliver.
  \<^item> Null_Modem: the two pumps and the select loop of \<open>forge/pair.rs\<close> as one machine.
  \<^item> Endpoint: endpoint parsing, redial and accept.  Rfc_Session: the RFC 2217 session, two tasks that
    share a writer; Rfc_Progress: they cannot deadlock on it.  Bridge: raw sessions, the drain, the
    loop over peers.  Mux: the tasks of the multiplexer.  Mux_Isolation: two runs of it that differ
    in how fast one consumer reads.
  \<^item> Status: the announcement.  Forges: the \<open>run\<close> functions of all forges, with scopes for the claimed
    links, \<open>main\<close> and its exit codes.  The locale \<open>forge_rules\<close> is what a property of whole runs
    has to be shown for: the scopes and phases a run is built from.  Exit_Codes: how runs end that
    became ready.
  \<^item> Codec_Tests, Shell_Tests, Wire_Tests, Port_Tests, Unit_Tests: the program's inline tests as
    predicates over the model, with the literals of the tests, and their proofs.  They check the
    translation: what the authors assert of the code holds of the definitions here.

  \<^bold>\<open>What is shown.\<close>  The bytes: what any forwarding loop, session, simulator or consumer writes
  is what was read, up to the faults of its own wire, and exactly that on a clean one; an RFC 2217
  peer reads whole frames carrying what was typed, settings before the data typed after them; the
  port gets the decoded payload; every consumer of a mux gets the whole device stream less only
  what it was told it lost, however slow the others are; writes are merged by whole chunks; a pair
  is the product of its two directions.  Progress: a pair and a forwarding loop can deliver what
  they hold, an RFC 2217 session cannot deadlock, a bridge outlives its peers.  Time: no loop outruns its line rate;
  a plan is in order and within its latency window.  Files: links of live processes survive every
  claim, a forge that ends leaves nothing behind, and readiness means that the links are there.
  Errors: which panics can happen and which cannot, when a claim never returns, and what the exit
  code says.  Several theorems state defects or differences from the documentation; they are
  listed in the manifest's findings.

  \<^bold>\<open>Bounds and fuel.\<close>  The only fuel is the bound of 40 on the symlinks \<open>follow\<close> goes through, which
  is the kernel's.  The claim loop, which may run forever, is a
  \<open>partial_function\<close> and its divergence is characterised; every other recursion terminates.  Durations
  are natural numbers below \<open>2 ^ 64\<close> seconds, instants below \<open>2 ^ 63\<close>, as in Rust; \<open>plan_never_panics\<close>
  states under which of them no addition overflows.

  \<^bold>\<open>Assumptions of the model.\<close>  Paths are compared as strings; \<open>fs::read_to_string\<close> and \<open>fs::write\<close>
  follow a symlink at the path itself, not in its directories.  Theorems on claims say where they
  need the places of the sidecars free of symlinks and devices (\<open>regular_at\<close>, \<open>unspoofed\<close>).  Other
  processes change the file system only where an interleaving is
  modelled (the claim race).  The mux starts with its consumers subscribed, as on the
  single-threaded runtime of \<open>main.rs\<close> no task runs before the set-up's next await.  The writer of
  standard output fails or succeeds call by call.

  \<^bold>\<open>Not modelled.\<close>  Logging and messages on standard error, the help texts and clap's own parsing
  (its results are the datatype \<open>cmd\<close> and the option record), the tokio runtime, the
  integration tests under \<open>tests\<close>, which start the binary, build files and documents.  Of the inline
  tests six are left out: three compare long noisy streams or count losses, one rests on the JSON
  writer and two on the kernel's terminals.
\<close>

end
